(* ===== verification/Prelude.thy ===== *)
theory Prelude
  imports Main "HOL-Library.Word"
begin

text \<open>
  Shared vocabulary of the development: the machine integers and byte strings the C code
  works on, C's NUL-terminated strings, pointers that may be NULL, the error values the code
  leaves in \<open>errno\<close>, and the environment of a call (which allocations and system calls
  succeed, what the kernel's random device delivers, the clock, the process id, the modification times
  of files and the environment variables).
  The generic lemmas on lists, words and byte encodings that several components use are here.
\<close>

unbundle bit_operations_syntax

named_theorems env_simps \<open>how sub-environments inherit the environment's outcomes\<close>
named_theorems codec_simps \<open>encoders against decoders, one field at a time\<close>
named_theorems refine_simps \<open>the abstraction function against the operations of a component\<close>


section \<open>Machine integers and byte strings\<close>

type_synonym byte = "8 word"
type_synonym bytes = "byte list"
type_synonym u32 = "32 word"
type_synonym u64 = "64 word"

text \<open>A C object is never longer than \<open>SIZE_MAX\<close>; lengths are natural numbers.\<close>

definition SIZE_MAX :: nat where
  "SIZE_MAX = 2 ^ 64 - 1"

text \<open>\<open>(uint64_t)\<close> of an \<open>int64_t\<close> and the cast back; both keep the 64 bits.\<close>

definition u64_of_int64 :: "int \<Rightarrow> u64" where
  "u64_of_int64 t = word_of_int t"

definition int64_of_u64 :: "u64 \<Rightarrow> int" where
  "int64_of_u64 w = sint w"

definition is_int64 :: "int \<Rightarrow> bool" where
  "is_int64 t \<longleftrightarrow> - (2 ^ 63) \<le> t \<and> t < 2 ^ 63"


section \<open>Pointers, C strings and error values\<close>

text \<open>A data pointer that the callee compares with NULL: \<open>None\<close> is NULL.\<close>

type_synonym 'a ptr = "'a option"

abbreviation NUL :: char where
  "NUL \<equiv> CHR 0x00"

text \<open>What a C string function sees of a character buffer: everything before the first NUL.\<close>

definition c_string :: "char list \<Rightarrow> string" where
  "c_string buf = takeWhile (\<lambda>c. c \<noteq> NUL) buf"

text \<open>The casts between \<open>char *\<close> and \<open>uint8_t *\<close>.\<close>

definition bytes_of :: "string \<Rightarrow> bytes" where
  "bytes_of s = map of_char s"

definition chars_of :: "bytes \<Rightarrow> char list" where
  "chars_of bs = map (\<lambda>b. char_of (unat b)) bs"

datatype errno = EINVAL | ENOSPC | EOVERFLOW | ENOENT | EACCES | EIO | ENAMETOOLONG | E2BIG | ENOTDIR | ENOMEM | EOTHER

type_synonym 'a result = "errno + 'a"


section \<open>The environment of a call\<close>

text \<open>
  Memory allocation and system calls can fail. Each dynamic call has its own path of
  numbers (call site, loop index, call site inside the callee, ...), and \<open>succeeds\<close> maps
  the path to the outcome, so any combination of failures is an environment. \<open>at k e\<close> is the
  part of \<open>e\<close> seen by the callee invoked at site \<open>k\<close>.
  A read from the random device returns bytes, is interrupted, or fails. When a write to a file
  fails, \<open>written\<close> says how many of its bytes reached the file before.
\<close>

datatype read_result = ReadBytes bytes | ReadIntr | ReadError

record env =
  succeeds :: "nat list \<Rightarrow> bool"
  urandom :: "nat list \<Rightarrow> read_result list"
  written :: "nat list \<Rightarrow> nat"
  clock :: "nat list \<Rightarrow> int"
  getpid :: int
  st_mtime :: "string \<Rightarrow> int"
  environ :: "string \<Rightarrow> string option"

definition at :: "nat \<Rightarrow> env \<Rightarrow> env" where
  "at k e = e\<lparr>succeeds := (\<lambda>p. succeeds e (k # p)), urandom := (\<lambda>p. urandom e (k # p)),
     written := (\<lambda>p. written e (k # p)), clock := (\<lambda>p. clock e (k # p))\<rparr>"

definition ok :: "nat \<Rightarrow> env \<Rightarrow> bool" where
  "ok k e = succeeds e [k]"

text \<open>The environment in which nothing fails.\<close>

definition all_ok :: "env \<Rightarrow> bool" where
  "all_ok e \<longleftrightarrow> (\<forall>p. succeeds e p)"

lemma ok_if_all_ok [env_simps]: "all_ok e \<Longrightarrow> ok k e"
  by (simp add: all_ok_def ok_def)

lemma all_ok_at [env_simps]: "all_ok e \<Longrightarrow> all_ok (at k e)"
  by (simp add: all_ok_def at_def)

text \<open>A particular such environment, with an empty random device and the clock at zero.\<close>

definition good_env :: env where
  "good_env = \<lparr>succeeds = (\<lambda>_. True), urandom = (\<lambda>_. []), written = (\<lambda>_. 0), clock = (\<lambda>_. 0), getpid = 1, st_mtime = (\<lambda>_. 0),
     environ = (\<lambda>_. None)\<rparr>"

lemma all_ok_good_env [simp]: "all_ok good_env"
  by (simp add: all_ok_def good_env_def)

text \<open>The same with a random device that delivers zeros.\<close>

definition zero_env :: env where
  "zero_env = good_env\<lparr>urandom := (\<lambda>_. [ReadBytes (replicate 32 0)])\<rparr>"

lemma all_ok_zero_env: "all_ok zero_env"
  by (simp add: zero_env_def good_env_def all_ok_def)

lemma urandom_at [env_simps]: "urandom (at k e) p = urandom e (k # p)"
  by (simp add: at_def)

lemma getpid_at [env_simps]: "getpid (at k e) = getpid e"
  by (simp add: at_def)

lemma environ_at [env_simps]: "environ (at k e) = environ e"
  by (simp add: at_def)


section \<open>Big-endian integers\<close>

text \<open>
  The \<open>n\<close> low-order bytes of a word, most significant first, and the value of a byte string
  read that way.
\<close>

definition be_bytes :: "nat \<Rightarrow> 'a::len word \<Rightarrow> bytes" where
  "be_bytes n w = map (\<lambda>i. ucast (drop_bit (8 * i) w)) (rev [0..<n])"

definition be_value :: "bytes \<Rightarrow> 'a::len word" where
  "be_value bs = foldl (\<lambda>acc b. push_bit 8 acc OR ucast b) 0 bs"

lemma length_be_bytes [simp]: "length (be_bytes n w) = n"
  by (simp add: be_bytes_def)

lemma be_value_snoc: "be_value (bs @ [b]) = push_bit 8 (be_value bs) OR ucast b"
  by (simp add: be_value_def)

lemma be_value_be_bytes:
  fixes w :: "'a::len word"
  shows "be_value (be_bytes n w) = take_bit (8 * n) w"
proof (induction n arbitrary: w)
  case 0
  then show ?case by (simp add: be_bytes_def be_value_def)
next
  case (Suc n)
  have "map (\<lambda>i. ucast (drop_bit (8 * i) w) :: byte) (rev [0..<Suc n]) =
      be_bytes n (drop_bit 8 w) @ [ucast w]"
    unfolding be_bytes_def
    by (simp add: upt_conv_Cons map_Suc_upt [symmetric] rev_map comp_def add.commute del: upt_Suc)
  then have "be_bytes (Suc n) w = be_bytes n (drop_bit 8 w) @ [ucast w]"
    by (simp add: be_bytes_def)
  then have "(be_value (be_bytes (Suc n) w) :: 'a word) =
      push_bit 8 (take_bit (8 * n) (drop_bit 8 w)) OR ucast (ucast w :: byte)"
    by (simp add: be_value_snoc Suc)
  also have "\<dots> = take_bit (8 * Suc n) w"
    by (rule bit_word_eqI) (auto simp: bit_simps)
  finally show ?case .
qed


section \<open>Lists\<close>

lemma takeWhile_length_eq_iff:
  "length (takeWhile P xs) = length xs \<longleftrightarrow> (\<forall>x \<in> set xs. P x)"
proof (induction xs)
  case (Cons x xs)
  then show ?case
    using length_takeWhile_le [of P xs] by auto
qed simp

lemma nth_takeWhile_split:
  assumes "length (takeWhile P xs) < length xs"
  shows "xs = takeWhile P xs @ xs ! length (takeWhile P xs) # drop (Suc (length (takeWhile P xs))) xs"
  using assms by (induction xs) auto

lemma sum_list_update:
  fixes xs :: "nat list"
  assumes "i < length xs"
  shows "sum_list (xs[i := y]) + xs ! i = sum_list xs + y"
  using assms by (induction xs arbitrary: i) (auto split: nat.splits)

lemma c_string_id [simp]: "NUL \<notin> set s \<Longrightarrow> c_string s = s"
  by (auto simp: c_string_def)

lemma NUL_notin_c_string [simp]: "NUL \<notin> set (c_string s)"
  by (auto simp: c_string_def dest: set_takeWhileD)

lemma c_string_append_NUL: "NUL \<notin> set s \<Longrightarrow> c_string (s @ NUL # rest) = s"
  by (simp add: c_string_def takeWhile_append)

lemma length_c_string_le: "length (c_string s) \<le> length s"
  by (simp add: c_string_def length_takeWhile_le)

lemma length_bytes_of [simp]: "length (bytes_of s) = length s"
  by (simp add: bytes_of_def)

lemma length_chars_of [simp]: "length (chars_of bs) = length bs"
  by (simp add: chars_of_def)

lemma bytes_of_Nil_iff [simp]: "bytes_of s = [] \<longleftrightarrow> s = []"
  by (simp add: bytes_of_def)

lemma char_of_of_char [simp]: "char_of (unat (of_char c :: byte)) = c"
proof -
  have "(of_char c :: byte) = of_nat (of_char c)"
    by (simp add: of_nat_of_char)
  then have "unat (of_char c :: byte) = of_char c mod 256"
    by (simp add: unat_of_nat)
  then show ?thesis
    by simp
qed

lemma chars_of_bytes_of [simp]: "chars_of (bytes_of s) = s"
  by (simp add: chars_of_def bytes_of_def comp_def)

lemma of_char_char_of_byte [simp]: "(of_char (char_of (unat (b :: byte)) :: char) :: byte) = b"
proof -
  have "unat b < 256"
    using unsigned_less [where 'a = nat, of b] by simp
  then have "(of_char (char_of (unat b) :: char) :: nat) = unat b"
    by simp
  then show ?thesis
    by (metis of_nat_of_char of_nat_unat ucast_id)
qed

lemma bytes_of_chars_of [simp]: "bytes_of (chars_of bs) = bs"
  by (simp add: chars_of_def bytes_of_def comp_def)

lemma bytes_of_inject [simp]: "bytes_of s = bytes_of t \<longleftrightarrow> s = t"
  by (metis chars_of_bytes_of)


section \<open>Words\<close>

lemma int64_of_u64_of_int64 [codec_simps]:
  "is_int64 t \<Longrightarrow> int64_of_u64 (u64_of_int64 t) = t"
  by (simp add: is_int64_def int64_of_u64_def u64_of_int64_def signed_take_bit_int_eq_self sint_sbintrunc')


section \<open>Invariants of transitions\<close>

text \<open>The contract of a component whose operations are the steps of a relation: each of them keeps the invariant.\<close>

locale transition_invariant =
  fixes transition :: "'s \<Rightarrow> 's \<Rightarrow> bool" and invariant :: "'s \<Rightarrow> bool"
  assumes transition_keeps: "transition s s' \<Longrightarrow> invariant s \<Longrightarrow> invariant s'"
begin

lemma run_keeps: "transition\<^sup>*\<^sup>* s s' \<Longrightarrow> invariant s \<Longrightarrow> invariant s'"
  by (induction rule: rtranclp_induct) (auto intro: transition_keeps)

end

end
