(* ===== verification/Crypto.thy ===== *)
theory Crypto
  imports Prelude
begin

text \<open>
  Model of \<^verbatim>\<open>internal/crypto/crypto.c\<close>: streaming SHA-256, HMAC-SHA-256, the constant-time
  comparison, random bytes from the kernel, hexadecimal and Base64 text, and the keystream
  cipher built from HMAC. Bytes are 8-bit words and the hash state is eight 32-bit words, so
  every operation wraps as the C code does. A function that fails returns \<open>Inl\<close> of the
  \<open>errno\<close> it sets; otherwise \<open>Inr\<close> of what it wrote to its output buffer.
\<close>


section \<open>SHA-256\<close>

definition MP_CACHE_SHA256_SIZE :: nat where
  "MP_CACHE_SHA256_SIZE = 32"

definition MP_CACHE_SHA256_BLOCK_SIZE :: nat where
  "MP_CACHE_SHA256_BLOCK_SIZE = 64"

definition MP_CACHE_NONCE_SIZE :: nat where
  "MP_CACHE_NONCE_SIZE = 16"

record mp_cache_sha256_context =
  sha_state :: "u32 list"
  sha_bit_count :: u64
  sha_block :: bytes
  sha_block_length :: nat

text \<open>The table of round constants, row by row as the source lays it out.\<close>

definition mp_cache_sha256_constants :: "u32 list" where
  "mp_cache_sha256_constants = concat
     [[0x428a2f98, 0x71374491, 0xb5c0fbcf, 0xe9b5dba5, 0x3956c25b, 0x59f111f1, 0x923f82a4, 0xab1c5ed5],
      [0xd807aa98, 0x12835b01, 0x243185be, 0x550c7dc3, 0x72be5d74, 0x80deb1fe, 0x9bdc06a7, 0xc19bf174],
      [0xe49b69c1, 0xefbe4786, 0x0fc19dc6, 0x240ca1cc, 0x2de92c6f, 0x4a7484aa, 0x5cb0a9dc, 0x76f988da],
      [0x983e5152, 0xa831c66d, 0xb00327c8, 0xbf597fc7, 0xc6e00bf3, 0xd5a79147, 0x06ca6351, 0x14292967],
      [0x27b70a85, 0x2e1b2138, 0x4d2c6dfc, 0x53380d13, 0x650a7354, 0x766a0abb, 0x81c2c92e, 0x92722c85],
      [0xa2bfe8a1, 0xa81a664b, 0xc24b8b70, 0xc76c51a3, 0xd192e819, 0xd6990624, 0xf40e3585, 0x106aa070],
      [0x19a4c116, 0x1e376c08, 0x2748774c, 0x34b0bcb5, 0x391c0cb3, 0x4ed8aa4a, 0x5b9cca4f, 0x682e6ff3],
      [0x748f82ee, 0x78a5636f, 0x84c87814, 0x8cc70208, 0x90befffa, 0xa4506ceb, 0xbef9a3f7, 0xc67178f2]]"

definition mp_cache_rotate_right :: "u32 \<Rightarrow> nat \<Rightarrow> u32" where
  "mp_cache_rotate_right value count = drop_bit count value OR push_bit (32 - count) value"

definition mp_cache_sha256_big_sigma0 :: "u32 \<Rightarrow> u32" where
  "mp_cache_sha256_big_sigma0 value =
     mp_cache_rotate_right value 2 XOR mp_cache_rotate_right value 13 XOR mp_cache_rotate_right value 22"

definition mp_cache_sha256_big_sigma1 :: "u32 \<Rightarrow> u32" where
  "mp_cache_sha256_big_sigma1 value =
     mp_cache_rotate_right value 6 XOR mp_cache_rotate_right value 11 XOR mp_cache_rotate_right value 25"

definition mp_cache_sha256_small_sigma0 :: "u32 \<Rightarrow> u32" where
  "mp_cache_sha256_small_sigma0 value =
     mp_cache_rotate_right value 7 XOR mp_cache_rotate_right value 18 XOR drop_bit 3 value"

definition mp_cache_sha256_small_sigma1 :: "u32 \<Rightarrow> u32" where
  "mp_cache_sha256_small_sigma1 value =
     mp_cache_rotate_right value 17 XOR mp_cache_rotate_right value 19 XOR drop_bit 10 value"

text \<open>
  The block transform, in its three loops: the first sixteen schedule words are the block's
  big-endian words, the other forty-eight follow by recurrence, and sixty-four rounds run over
  the eight working words.
\<close>

definition sha256_block_words :: "bytes \<Rightarrow> u32 list" where
  "sha256_block_words block = map (\<lambda>index.
     push_bit 24 (ucast (block ! (index * 4))) OR push_bit 16 (ucast (block ! (index * 4 + 1))) OR
     push_bit 8 (ucast (block ! (index * 4 + 2))) OR ucast (block ! (index * 4 + 3))) [0..<16]"

fun sha256_extend_schedule :: "nat \<Rightarrow> u32 list \<Rightarrow> u32 list" where
  "sha256_extend_schedule 0 schedule = schedule"
| "sha256_extend_schedule (Suc n) schedule =
     (let index = length schedule in
      sha256_extend_schedule n (schedule @
        [mp_cache_sha256_small_sigma1 (schedule ! (index - 2)) + schedule ! (index - 7) +
         mp_cache_sha256_small_sigma0 (schedule ! (index - 15)) + schedule ! (index - 16)]))"

definition sha256_round :: "u32 list \<Rightarrow> u32 \<times> u32 \<Rightarrow> u32 list" where
  "sha256_round working ks =
     (let choice = (working ! 4 AND working ! 5) XOR (NOT (working ! 4) AND working ! 6);
          majority = (working ! 0 AND working ! 1) XOR (working ! 0 AND working ! 2) XOR
                     (working ! 1 AND working ! 2);
          temp1 = working ! 7 + mp_cache_sha256_big_sigma1 (working ! 4) + choice + fst ks + snd ks;
          temp2 = mp_cache_sha256_big_sigma0 (working ! 0) + majority
      in [temp1 + temp2, working ! 0, working ! 1, working ! 2, working ! 3 + temp1,
          working ! 4, working ! 5, working ! 6])"

definition sha256_compress :: "u32 list \<Rightarrow> bytes \<Rightarrow> u32 list" where
  "sha256_compress state block =
     map2 (+) state
       (foldl sha256_round state
         (zip mp_cache_sha256_constants (sha256_extend_schedule 48 (sha256_block_words block))))"

definition mp_cache_sha256_transform ::
    "mp_cache_sha256_context \<Rightarrow> bytes \<Rightarrow> mp_cache_sha256_context" where
  "mp_cache_sha256_transform ctx block =
     ctx\<lparr>sha_state := sha256_compress (sha_state ctx) block\<rparr>"

definition sha256_initial_state :: "u32 list" where
  "sha256_initial_state = [0x6a09e667, 0xbb67ae85, 0x3c6ef372, 0xa54ff53a,
     0x510e527f, 0x9b05688c, 0x1f83d9ab, 0x5be0cd19]"

definition mp_cache_sha256_init :: mp_cache_sha256_context where
  "mp_cache_sha256_init =
     \<lparr>sha_state = sha256_initial_state, sha_bit_count = 0,
      sha_block = replicate MP_CACHE_SHA256_BLOCK_SIZE 0, sha_block_length = 0\<rparr>"

text \<open>
  The copy loop of \<^verbatim>\<open>mp_cache_sha256_update\<close>. The buffer is never full when the loop is
  entered (a full buffer is transformed and emptied at once), and the loop stops there.
\<close>

function sha256_absorb :: "mp_cache_sha256_context \<Rightarrow> bytes \<Rightarrow> mp_cache_sha256_context" where
  "sha256_absorb ctx data =
     (if data = [] \<or> MP_CACHE_SHA256_BLOCK_SIZE \<le> sha_block_length ctx then ctx
      else
        let to_copy = min (MP_CACHE_SHA256_BLOCK_SIZE - sha_block_length ctx) (length data);
            filled = ctx\<lparr>
              sha_block := take (sha_block_length ctx) (sha_block ctx) @ take to_copy data @
                drop (sha_block_length ctx + to_copy) (sha_block ctx),
              sha_block_length := sha_block_length ctx + to_copy\<rparr>;
            next_context =
              (if sha_block_length filled = MP_CACHE_SHA256_BLOCK_SIZE
               then (mp_cache_sha256_transform filled (sha_block filled))\<lparr>sha_block_length := 0\<rparr>
               else filled)
        in sha256_absorb next_context (drop to_copy data))"
  by pat_completeness auto
termination
  by (relation "measure (\<lambda>(ctx, data). length data)") (auto simp: MP_CACHE_SHA256_BLOCK_SIZE_def)

declare sha256_absorb.simps [simp del]

definition mp_cache_sha256_update ::
    "mp_cache_sha256_context \<Rightarrow> bytes \<Rightarrow> mp_cache_sha256_context" where
  "mp_cache_sha256_update ctx data =
     (if data = [] then ctx
      else sha256_absorb
        (ctx\<lparr>sha_bit_count := sha_bit_count ctx + of_nat (length data) * 8\<rparr>) data)"

text \<open>The two padding loops of \<^verbatim>\<open>mp_cache_sha256_final\<close>: zero bytes up to a limit.\<close>

function sha256_zero_fill :: "nat \<Rightarrow> mp_cache_sha256_context \<Rightarrow> mp_cache_sha256_context" where
  "sha256_zero_fill limit ctx =
     (if sha_block_length ctx < limit then
        sha256_zero_fill limit (ctx\<lparr>
          sha_block := (sha_block ctx)[sha_block_length ctx := 0],
          sha_block_length := sha_block_length ctx + 1\<rparr>)
      else ctx)"
  by pat_completeness auto
termination
  by (relation "measure (\<lambda>(limit, ctx). limit - sha_block_length ctx)") auto

declare sha256_zero_fill.simps [simp del]

definition sha256_digest_bytes :: "u32 list \<Rightarrow> bytes" where
  "sha256_digest_bytes state = concat (map (\<lambda>w.
     [ucast (drop_bit 24 w), ucast (drop_bit 16 w), ucast (drop_bit 8 w), ucast w]) state)"

definition mp_cache_sha256_final :: "mp_cache_sha256_context \<Rightarrow> bytes" where
  "mp_cache_sha256_final ctx =
     (let marked = ctx\<lparr>
            sha_block := (sha_block ctx)[sha_block_length ctx := 0x80],
            sha_block_length := sha_block_length ctx + 1\<rparr>;
          roomy =
            (if sha_block_length marked > 56 then
               (let filled = sha256_zero_fill MP_CACHE_SHA256_BLOCK_SIZE marked
                in (mp_cache_sha256_transform filled (sha_block filled))\<lparr>sha_block_length := 0\<rparr>)
             else marked);
          padded = sha256_zero_fill 56 roomy;
          last_block = take 56 (sha_block padded) @ be_bytes 8 (sha_bit_count padded)
      in sha256_digest_bytes (sha_state (mp_cache_sha256_transform padded last_block)))"

definition mp_cache_sha256 :: "bytes \<Rightarrow> bytes" where
  "mp_cache_sha256 input_bytes =
     mp_cache_sha256_final (mp_cache_sha256_update mp_cache_sha256_init input_bytes)"


section \<open>HMAC, comparison, random bytes\<close>

definition mp_cache_hmac_sha256 :: "bytes \<Rightarrow> bytes \<Rightarrow> bytes" where
  "mp_cache_hmac_sha256 secret_key message_bytes =
     (let key_material =
            (if length secret_key > MP_CACHE_SHA256_BLOCK_SIZE then mp_cache_sha256 secret_key
             else secret_key);
          normalized_key =
            key_material @ replicate (MP_CACHE_SHA256_BLOCK_SIZE - length key_material) 0;
          inner_block = map (\<lambda>b. b XOR 0x36) normalized_key;
          outer_block = map (\<lambda>b. b XOR 0x5c) normalized_key;
          inner_digest = mp_cache_sha256_final
            (mp_cache_sha256_update (mp_cache_sha256_update mp_cache_sha256_init inner_block)
              message_bytes)
      in mp_cache_sha256_final
           (mp_cache_sha256_update (mp_cache_sha256_update mp_cache_sha256_init outer_block)
             inner_digest))"

text \<open>The comparison loop accumulates every difference before it looks at the result.\<close>

fun constant_time_diff :: "byte \<Rightarrow> bytes \<Rightarrow> bytes \<Rightarrow> nat \<Rightarrow> byte" where
  "constant_time_diff diff left right 0 = diff"
| "constant_time_diff diff left right (Suc n) =
     constant_time_diff (diff OR (hd left XOR hd right)) (tl left) (tl right) n"

definition mp_cache_constant_time_equals :: "bytes ptr \<Rightarrow> bytes ptr \<Rightarrow> nat \<Rightarrow> bool" where
  "mp_cache_constant_time_equals left_bytes right_bytes byte_length =
     (case (left_bytes, right_bytes) of
        (Some left, Some right) \<Rightarrow> constant_time_diff 0 left right byte_length = 0
      | _ \<Rightarrow> False)"

text \<open>
  The read loop over the random device: \<open>EINTR\<close> retries, an error or end of file fails, a
  short read continues. The device's answers are a finite script; past its end a read reports
  end of file.
\<close>

fun random_read_loop :: "read_result list \<Rightarrow> nat \<Rightarrow> bytes \<Rightarrow> bytes result" where
  "random_read_loop [] byte_length acc =
     (if length acc < byte_length then Inl EIO else Inr acc)"
| "random_read_loop (r # script) byte_length acc =
     (if length acc < byte_length then
        (case r of
           ReadIntr \<Rightarrow> random_read_loop script byte_length acc
         | ReadError \<Rightarrow> Inl EOTHER
         | ReadBytes bs \<Rightarrow>
             (if bs = [] then Inl EIO
              else random_read_loop script byte_length (acc @ take (byte_length - length acc) bs)))
      else Inr acc)"

definition mp_cache_random_bytes :: "env \<Rightarrow> nat \<Rightarrow> bytes result" where
  "mp_cache_random_bytes e byte_length =
     (if \<not> ok 0 e then Inl EOTHER else random_read_loop (urandom e []) byte_length [])"


section \<open>Hexadecimal text\<close>

definition mp_cache_hex_nibble :: "char \<Rightarrow> int" where
  "mp_cache_hex_nibble character =
     (let c = (of_char character :: int) in
      if of_char (CHR ''0'') \<le> c \<and> c \<le> of_char (CHR ''9'') then c - of_char (CHR ''0'')
      else if of_char (CHR ''a'') \<le> c \<and> c \<le> of_char (CHR ''f'') then c - of_char (CHR ''a'') + 10
      else if of_char (CHR ''A'') \<le> c \<and> c \<le> of_char (CHR ''F'') then c - of_char (CHR ''A'') + 10
      else -1)"

definition hex_chars :: string where
  "hex_chars = ''0123456789abcdef''"

definition mp_cache_hex_encode :: "bytes \<Rightarrow> nat \<Rightarrow> string result" where
  "mp_cache_hex_encode input_bytes out_capacity =
     (if out_capacity < length input_bytes * 2 + 1 then Inl ENOSPC
      else Inr (concat (map (\<lambda>b. [hex_chars ! unat (drop_bit 4 b), hex_chars ! unat (b AND 0x0f)])
             input_bytes)))"

fun hex_decode_loop :: "string \<Rightarrow> bytes result" where
  "hex_decode_loop (c # d # text) =
     (let high = mp_cache_hex_nibble c; low = mp_cache_hex_nibble d in
      if high < 0 \<or> low < 0 then Inl EINVAL
      else (case hex_decode_loop text of
              Inl err \<Rightarrow> Inl err
            | Inr bs \<Rightarrow> Inr ((push_bit 4 (word_of_int high) OR word_of_int low) # bs)))"
| "hex_decode_loop _ = Inr []"

definition mp_cache_hex_decode :: "string ptr \<Rightarrow> nat \<Rightarrow> bytes result" where
  "mp_cache_hex_decode hex_text out_capacity =
     (case hex_text of
        None \<Rightarrow> Inl EINVAL
      | Some text \<Rightarrow>
          (if length text mod 2 \<noteq> 0 \<or> out_capacity < length text div 2 then Inl EINVAL
           else hex_decode_loop text))"


section \<open>Base64 text\<close>

definition base64_alphabet :: string where
  "base64_alphabet = ''ABCDEFGHIJKLMNOPQRSTUVWXYZabcdefghijklmnopqrstuvwxyz0123456789+/''"

text \<open>The four characters of one chunk of one to three bytes.\<close>

definition base64_encode_chunk :: "bytes \<Rightarrow> string" where
  "base64_encode_chunk input =
     (let chunk_length = length input;
          chunk = push_bit (8 * (3 - chunk_length))
                    (foldl (\<lambda>chunk b. push_bit 8 chunk OR ucast b) (0 :: u32) input)
      in [base64_alphabet ! unat (drop_bit 18 chunk AND 0x3f),
          base64_alphabet ! unat (drop_bit 12 chunk AND 0x3f),
          (if chunk_length > 1 then base64_alphabet ! unat (drop_bit 6 chunk AND 0x3f) else CHR ''=''),
          (if chunk_length > 2 then base64_alphabet ! unat (chunk AND 0x3f) else CHR ''='')])"

function base64_encode_loop :: "bytes \<Rightarrow> string" where
  "base64_encode_loop input_bytes =
     (if input_bytes = [] then []
      else base64_encode_chunk (take 3 input_bytes) @ base64_encode_loop (drop 3 input_bytes))"
  by pat_completeness auto
termination
  by (relation "measure length") auto

declare base64_encode_loop.simps [simp del]

definition mp_cache_base64_encode :: "bytes \<Rightarrow> nat \<Rightarrow> string result" where
  "mp_cache_base64_encode input_bytes out_capacity =
     (let required = ((length input_bytes + 2) div 3) * 4 in
      if out_capacity < required + 1 then Inl ENOSPC
      else Inr (base64_encode_loop input_bytes))"

definition mp_cache_base64_value :: "char \<Rightarrow> int" where
  "mp_cache_base64_value character =
     (let c = (of_char character :: int) in
      if of_char (CHR ''A'') \<le> c \<and> c \<le> of_char (CHR ''Z'') then c - of_char (CHR ''A'')
      else if of_char (CHR ''a'') \<le> c \<and> c \<le> of_char (CHR ''z'') then c - of_char (CHR ''a'') + 26
      else if of_char (CHR ''0'') \<le> c \<and> c \<le> of_char (CHR ''9'') then c - of_char (CHR ''0'') + 52
      else if character = CHR ''+'' then 62
      else if character = CHR ''/'' then 63
      else -1)"

text \<open>
  One group of four characters: each value (zero for padding) and the count of bytes the code
  expects, a \<open>size_t\<close> that is decremented once per padding character wherever it stands.
\<close>

fun base64_group_values :: "string \<Rightarrow> u64 \<Rightarrow> (int list \<times> u64) result" where
  "base64_group_values [] decoded_count = Inr ([], decoded_count)"
| "base64_group_values (character # rest) decoded_count =
     (if character = CHR ''='' then
        (case base64_group_values rest (decoded_count - 1) of
           Inl err \<Rightarrow> Inl err
         | Inr (values, count) \<Rightarrow> Inr (0 # values, count))
      else if mp_cache_base64_value character < 0 then Inl EINVAL
      else
        (case base64_group_values rest decoded_count of
           Inl err \<Rightarrow> Inl err
         | Inr (values, count) \<Rightarrow> Inr (mp_cache_base64_value character # values, count)))"

definition base64_chunk :: "int list \<Rightarrow> u32" where
  "base64_chunk values =
     push_bit 18 (word_of_int (values ! 0)) OR push_bit 12 (word_of_int (values ! 1)) OR
     push_bit 6 (word_of_int (values ! 2)) OR word_of_int (values ! 3)"

text \<open>
  The decode loop. The accumulator \<open>out\<close> lists the bytes written so far, so its length is
  \<open>out_index\<close>; a result longer than \<open>out_capacity\<close> is a write past the buffer.
\<close>

function base64_decode_loop :: "string \<Rightarrow> nat \<Rightarrow> bytes \<Rightarrow> bytes result" where
  "base64_decode_loop text out_capacity out =
     (if length text < 4 then Inr out
      else
        (case base64_group_values (take 4 text) 3 of
           Inl err \<Rightarrow> Inl err
         | Inr (values, decoded_count) \<Rightarrow>
             (let chunk = base64_chunk values in
              if out_capacity < unat (of_nat (length out) + decoded_count) then Inl ENOSPC
              else base64_decode_loop (drop 4 text) out_capacity
                (out @ [ucast (drop_bit 16 chunk)] @
                 (if text ! 2 \<noteq> CHR ''='' then [ucast (drop_bit 8 chunk)] else []) @
                 (if text ! 3 \<noteq> CHR ''='' then [ucast chunk] else [])))))"
  by pat_completeness auto
termination
  by (relation "measure (\<lambda>(text, out_capacity, out). length text)") auto

declare base64_decode_loop.simps [simp del]

definition mp_cache_base64_decode :: "string ptr \<Rightarrow> nat \<Rightarrow> bytes result" where
  "mp_cache_base64_decode base64_text out_capacity =
     (case base64_text of
        None \<Rightarrow> Inl EINVAL
      | Some text \<Rightarrow>
          (if length text mod 4 \<noteq> 0 then Inl EINVAL
           else base64_decode_loop text out_capacity []))"


section \<open>Keystream cipher\<close>

text \<open>Each 32-byte piece is combined with the HMAC of the nonce and a big-endian counter.\<close>

function stream_xor_loop :: "bytes \<Rightarrow> bytes \<Rightarrow> u64 \<Rightarrow> bytes \<Rightarrow> bytes" where
  "stream_xor_loop stream_key nonce counter inout_bytes =
     (if inout_bytes = [] then []
      else
        let counter_block = take MP_CACHE_NONCE_SIZE nonce @ be_bytes 8 counter;
            keystream = mp_cache_hmac_sha256 stream_key counter_block
        in map2 (XOR) (take MP_CACHE_SHA256_SIZE inout_bytes) keystream @
           stream_xor_loop stream_key nonce (counter + 1) (drop MP_CACHE_SHA256_SIZE inout_bytes))"
  by pat_completeness auto
termination
  by (relation "measure (\<lambda>(stream_key, nonce, counter, inout_bytes). length inout_bytes)")
    (auto simp: MP_CACHE_SHA256_SIZE_def)

declare stream_xor_loop.simps [simp del]

definition mp_cache_stream_xor :: "bytes \<Rightarrow> bytes \<Rightarrow> bytes \<Rightarrow> bytes" where
  "mp_cache_stream_xor stream_key nonce inout_bytes = stream_xor_loop stream_key nonce 0 inout_bytes"


section \<open>SHA-256 against its block-wise definition\<close>

text \<open>
  The reference: pad the whole message with \<open>0x80\<close>, zeros and the 64-bit bit length to a
  multiple of 64 bytes, then compress block after block.
\<close>

function sha256_blocks :: "u32 list \<Rightarrow> bytes \<Rightarrow> u32 list" where
  "sha256_blocks state msg =
     (if length msg < 64 then state
      else sha256_blocks (sha256_compress state (take 64 msg)) (drop 64 msg))"
  by pat_completeness auto
termination
  by (relation "measure (\<lambda>(state, msg). length msg)") auto

declare sha256_blocks.simps [simp del]

definition sha256_padding :: "nat \<Rightarrow> bytes" where
  "sha256_padding len = 0x80 # replicate ((119 - len mod 64) mod 64) 0 @ be_bytes 8 (of_nat (8 * len) :: u64)"

definition sha256_spec :: "bytes \<Rightarrow> bytes" where
  "sha256_spec msg =
     sha256_digest_bytes (sha256_blocks sha256_initial_state (msg @ sha256_padding (length msg)))"

lemma sha256_blocks_short: "length msg < 64 \<Longrightarrow> sha256_blocks state msg = state"
  by (simp add: sha256_blocks.simps)

lemma sha256_blocks_one: "length msg = 64 \<Longrightarrow> sha256_blocks state msg = sha256_compress state msg"
  by (simp add: sha256_blocks.simps [of state msg] sha256_blocks_short)

lemma sha256_blocks_append:
  "length a mod 64 = 0 \<Longrightarrow> sha256_blocks state (a @ b) = sha256_blocks (sha256_blocks state a) b"
proof (induction state a rule: sha256_blocks.induct)
  case (1 state a)
  show ?case
  proof (cases "length a < 64")
    case True
    with "1.prems" show ?thesis by (simp add: sha256_blocks_short)
  next
    case False
    with "1.prems" have "length (drop 64 a) mod 64 = 0"
      by (simp add: le_mod_geq)
    with "1.IH" False have "sha256_blocks (sha256_compress state (take 64 a)) (drop 64 a @ b) =
        sha256_blocks (sha256_blocks (sha256_compress state (take 64 a)) (drop 64 a)) b"
      by simp
    with False show ?thesis
      by (simp add: sha256_blocks.simps [of state "a @ b"] sha256_blocks.simps [of state a])
  qed
qed

lemma sha256_blocks_two:
  assumes "length full mod 64 = 0" "length a = 64" "length b = 64"
  shows "sha256_blocks state (full @ a @ b) =
    sha256_compress (sha256_compress (sha256_blocks state full) a) b"
  using assms by (simp add: sha256_blocks_append sha256_blocks_one)

text \<open>
  The streaming invariant: the context holds the compressed full blocks of the message so far
  in its state and the rest of the message at the front of its buffer.
\<close>

definition sha256_absorbed :: "mp_cache_sha256_context \<Rightarrow> bytes \<Rightarrow> bool" where
  "sha256_absorbed ctx msg \<longleftrightarrow>
     (\<exists>full tail. msg = full @ tail \<and> length full mod 64 = 0 \<and> length tail < 64 \<and>
        sha_block_length ctx = length tail \<and> length (sha_block ctx) = 64 \<and>
        take (length tail) (sha_block ctx) = tail \<and>
        sha_state ctx = sha256_blocks sha256_initial_state full)"

lemma sha256_absorbedI:
  assumes "msg = full @ tail" "length full mod 64 = 0" "length tail < 64"
    "sha_block_length ctx = length tail" "length (sha_block ctx) = 64"
    "take (length tail) (sha_block ctx) = tail"
    "sha_state ctx = sha256_blocks sha256_initial_state full"
  shows "sha256_absorbed ctx msg"
  unfolding sha256_absorbed_def by (intro exI [of _ full] exI [of _ tail] conjI assms)

lemma sha256_absorbedE:
  assumes "sha256_absorbed ctx msg"
  obtains full tail where "msg = full @ tail" "length full mod 64 = 0" "length tail < 64"
    "sha_block_length ctx = length tail" "length (sha_block ctx) = 64"
    "take (length tail) (sha_block ctx) = tail"
    "sha_state ctx = sha256_blocks sha256_initial_state full"
  using assms that unfolding sha256_absorbed_def by (elim exE conjE)

lemma sha256_absorbed_init: "sha256_absorbed mp_cache_sha256_init []"
  by (rule sha256_absorbedI [where full = "[]" and tail = "[]"])
    (simp_all add: mp_cache_sha256_init_def MP_CACHE_SHA256_BLOCK_SIZE_def sha256_blocks_short)

lemma sha256_absorbed_bit_count [simp]:
  "sha256_absorbed (ctx\<lparr>sha_bit_count := n\<rparr>) msg = sha256_absorbed ctx msg"
  by (simp add: sha256_absorbed_def)

lemma sha256_absorb_absorbed:
  "sha256_absorbed ctx msg \<Longrightarrow>
     sha256_absorbed (sha256_absorb ctx data) (msg @ data) \<and>
     sha_bit_count (sha256_absorb ctx data) = sha_bit_count ctx"
proof (induction ctx data arbitrary: msg rule: sha256_absorb.induct)
  case (1 ctx data)
  from "1.prems" obtain full tail where
    msg: "msg = full @ tail" and full: "length full mod 64 = 0" and tail: "length tail < 64"
    and bl: "sha_block_length ctx = length tail" and len: "length (sha_block ctx) = 64"
    and buf: "take (length tail) (sha_block ctx) = tail"
    and st: "sha_state ctx = sha256_blocks sha256_initial_state full"
    by (rule sha256_absorbedE)
  show ?case
  proof (cases "data = []")
    case True
    with "1.prems" show ?thesis by (simp add: sha256_absorb.simps)
  next
    case False
    define to_copy where "to_copy = min (MP_CACHE_SHA256_BLOCK_SIZE - sha_block_length ctx) (length data)"
    define filled where "filled = ctx\<lparr>
        sha_block := take (sha_block_length ctx) (sha_block ctx) @ take to_copy data @
          drop (sha_block_length ctx + to_copy) (sha_block ctx),
        sha_block_length := sha_block_length ctx + to_copy\<rparr>"
    define next_context where "next_context =
        (if sha_block_length filled = MP_CACHE_SHA256_BLOCK_SIZE
         then (mp_cache_sha256_transform filled (sha_block filled))\<lparr>sha_block_length := 0\<rparr>
         else filled)"
    have not_full: "\<not> (data = [] \<or> MP_CACHE_SHA256_BLOCK_SIZE \<le> sha_block_length ctx)"
      using False tail bl by (simp add: MP_CACHE_SHA256_BLOCK_SIZE_def)
    have copy: "to_copy \<le> length data" "length tail + to_copy \<le> 64"
      using tail bl by (auto simp: to_copy_def MP_CACHE_SHA256_BLOCK_SIZE_def)
    have block: "sha_block filled = tail @ take to_copy data @ drop (length tail + to_copy) (sha_block ctx)"
      using bl buf by (simp add: filled_def)
    have next_absorbed: "sha256_absorbed next_context (msg @ take to_copy data)"
    proof (cases "length tail + to_copy = 64")
      case True
      have "sha256_blocks sha256_initial_state (full @ tail @ take to_copy data) =
          sha256_compress (sha256_blocks sha256_initial_state full) (tail @ take to_copy data)"
        using True copy full by (simp add: sha256_blocks_append sha256_blocks_one)
      with True copy full tail bl len st block msg show ?thesis
        by (intro sha256_absorbedI [where full = "full @ tail @ take to_copy data" and tail = "[]"])
          (auto simp: next_context_def filled_def MP_CACHE_SHA256_BLOCK_SIZE_def
            mp_cache_sha256_transform_def mod_add_left_eq [symmetric])
    next
      case part: False
      with copy full tail bl len st block msg show ?thesis
        by (intro sha256_absorbedI [where full = full and tail = "tail @ take to_copy data"])
          (auto simp: next_context_def filled_def MP_CACHE_SHA256_BLOCK_SIZE_def)
    qed
    have "sha_bit_count next_context = sha_bit_count ctx"
      by (simp add: next_context_def filled_def mp_cache_sha256_transform_def)
    moreover have "sha256_absorb ctx data = sha256_absorb next_context (drop to_copy data)"
      using not_full
      by (subst sha256_absorb.simps)
        (simp add: Let_def next_context_def filled_def to_copy_def)
    moreover have "sha256_absorbed (sha256_absorb next_context (drop to_copy data))
          ((msg @ take to_copy data) @ drop to_copy data) \<and>
        sha_bit_count (sha256_absorb next_context (drop to_copy data)) = sha_bit_count next_context"
      using "1.IH" [OF not_full to_copy_def filled_def next_context_def next_absorbed] by simp
    ultimately show ?thesis by simp
  qed
qed

definition sha256_context_of :: "mp_cache_sha256_context \<Rightarrow> bytes \<Rightarrow> bool" where
  "sha256_context_of ctx msg \<longleftrightarrow>
     sha256_absorbed ctx msg \<and> sha_bit_count ctx = of_nat (8 * length msg)"

lemma sha256_context_of_init: "sha256_context_of mp_cache_sha256_init []"
  using sha256_absorbed_init
  by (simp add: sha256_context_of_def) (simp add: mp_cache_sha256_init_def)

lemma sha256_context_of_update:
  assumes "sha256_context_of ctx msg"
  shows "sha256_context_of (mp_cache_sha256_update ctx data) (msg @ data)"
proof -
  let ?counted = "ctx\<lparr>sha_bit_count := sha_bit_count ctx + of_nat (length data) * 8\<rparr>"
  from assms have "sha256_absorbed ?counted msg"
    by (simp add: sha256_context_of_def)
  from sha256_absorb_absorbed [OF this, of data] assms show ?thesis
    by (simp add: sha256_context_of_def mp_cache_sha256_update_def algebra_simps)
qed

lemma sha256_zero_fill_eq:
  assumes "sha_block_length ctx \<le> limit" "limit \<le> length (sha_block ctx)"
  shows "sha256_zero_fill limit ctx = ctx\<lparr>
      sha_block := take (sha_block_length ctx) (sha_block ctx) @
        replicate (limit - sha_block_length ctx) 0 @ drop limit (sha_block ctx),
      sha_block_length := limit\<rparr>"
  using assms
proof (induction limit ctx rule: sha256_zero_fill.induct)
  case (1 limit ctx)
  show ?case
  proof (cases "sha_block_length ctx < limit")
    case True
    define filled where "filled = ctx\<lparr>sha_block := (sha_block ctx)[sha_block_length ctx := 0],
        sha_block_length := sha_block_length ctx + 1\<rparr>"
    have "sha256_zero_fill limit filled = filled\<lparr>
        sha_block := take (sha_block_length filled) (sha_block filled) @
          replicate (limit - sha_block_length filled) 0 @ drop limit (sha_block filled),
        sha_block_length := limit\<rparr>"
      unfolding filled_def by (rule "1.IH") (use True "1.prems" in auto)
    moreover have "take (Suc (sha_block_length ctx)) ((sha_block ctx)[sha_block_length ctx := 0]) =
        take (sha_block_length ctx) (sha_block ctx) @ [0]"
      using True "1.prems" by (simp add: take_Suc_conv_app_nth)
    moreover have "limit - sha_block_length ctx = Suc (limit - Suc (sha_block_length ctx))"
      using True by simp
    ultimately show ?thesis
      using True by (simp add: sha256_zero_fill.simps [of limit ctx] filled_def)
  next
    case False
    with "1.prems" show ?thesis
      by (simp add: sha256_zero_fill.simps [of limit ctx])
  qed
qed

lemma sha256_final_spec:
  assumes "sha256_context_of ctx msg"
  shows "mp_cache_sha256_final ctx =
    sha256_digest_bytes (sha256_blocks sha256_initial_state (msg @ sha256_padding (length msg)))"
proof -
  from assms have count: "sha_bit_count ctx = of_nat (8 * length msg)"
    by (simp add: sha256_context_of_def)
  from assms have "sha256_absorbed ctx msg"
    by (simp add: sha256_context_of_def)
  then obtain full tail where
    msg: "msg = full @ tail" and full: "length full mod 64 = 0" and tail: "length tail < 64"
    and bl: "sha_block_length ctx = length tail" and len: "length (sha_block ctx) = 64"
    and buf: "take (length tail) (sha_block ctx) = tail"
    and st: "sha_state ctx = sha256_blocks sha256_initial_state full"
    by (rule sha256_absorbedE)
  have rest: "length msg mod 64 = length tail"
    using msg full tail by (simp add: mod_add_left_eq [symmetric])
  have mark: "take (Suc (length tail)) ((sha_block ctx)[length tail := 0x80]) = tail @ [0x80]"
    using tail len buf by (simp add: take_Suc_conv_app_nth)
  let ?len = "be_bytes 8 (of_nat (8 * length msg) :: u64)"
  show ?thesis
  proof (cases "length tail < 56")
    case True
    let ?last = "tail @ 0x80 # replicate (55 - length tail) 0 @ ?len"
    have "(119 - length tail) mod 64 = 55 - length tail"
      using True by (simp add: le_mod_geq)
    then have "msg @ sha256_padding (length msg) = full @ ?last"
      using msg rest by (simp add: sha256_padding_def)
    moreover have "sha256_blocks sha256_initial_state (full @ ?last) =
        sha256_compress (sha256_blocks sha256_initial_state full) ?last"
      using True full by (simp add: sha256_blocks_append sha256_blocks_one)
    moreover have "56 - length tail = Suc (55 - length tail)"
      using True by simp
    ultimately show ?thesis
      using True mark bl len st count
      by (simp add: mp_cache_sha256_final_def sha256_zero_fill_eq mp_cache_sha256_transform_def Let_def)
  next
    case False
    let ?first = "tail @ 0x80 # replicate (63 - length tail) 0"
    let ?last = "replicate 56 0 @ ?len"
    have "replicate ((119 - length tail) mod 64) (0 :: byte) =
        replicate (63 - length tail) 0 @ replicate 56 0"
      using False tail by (simp add: replicate_add [symmetric])
    then have "msg @ sha256_padding (length msg) = full @ ?first @ ?last"
      unfolding sha256_padding_def rest using msg by simp
    moreover have "sha256_blocks sha256_initial_state (full @ ?first @ ?last) =
        sha256_compress (sha256_compress (sha256_blocks sha256_initial_state full) ?first) ?last"
      using False tail full by (intro sha256_blocks_two) simp_all
    ultimately show ?thesis
      using False mark bl len st count tail
      by (simp add: mp_cache_sha256_final_def sha256_zero_fill_eq mp_cache_sha256_transform_def Let_def
          MP_CACHE_SHA256_BLOCK_SIZE_def)
  qed
qed

lemma length_sha256_compress:
  "length state = 8 \<Longrightarrow> length (sha256_compress state block) = 8"
proof -
  have "length (foldl sha256_round w ks) = 8" if "length w = 8" for w ks
    using that by (induction ks arbitrary: w) (auto simp: sha256_round_def Let_def)
  then show "length state = 8 \<Longrightarrow> length (sha256_compress state block) = 8"
    by (simp add: sha256_compress_def)
qed

lemma length_sha256_blocks: "length state = 8 \<Longrightarrow> length (sha256_blocks state msg) = 8"
proof (induction state msg rule: sha256_blocks.induct)
  case (1 state msg)
  then show ?case
    by (simp add: sha256_blocks.simps [of state msg] length_sha256_compress)
qed

lemma length_sha256_digest_bytes: "length (sha256_digest_bytes state) = 4 * length state"
  by (induction state) (simp_all add: sha256_digest_bytes_def)

lemma length_sha256_spec: "length (sha256_spec msg) = 32"
  by (simp add: sha256_spec_def length_sha256_digest_bytes length_sha256_blocks sha256_initial_state_def)

lemma sha256_update_chain:
  "mp_cache_sha256_final (mp_cache_sha256_update (mp_cache_sha256_update mp_cache_sha256_init a) b) =
     sha256_spec (a @ b)"
  using sha256_final_spec [OF sha256_context_of_update [OF sha256_context_of_update [OF sha256_context_of_init]]]
  by (simp add: sha256_spec_def)

lemma sha256_eq_spec: "mp_cache_sha256 msg = sha256_spec msg"
  using sha256_final_spec [OF sha256_context_of_update [OF sha256_context_of_init], of msg]
  by (simp add: mp_cache_sha256_def sha256_spec_def)

lemma length_mp_cache_sha256 [simp]: "length (mp_cache_sha256 msg) = 32"
  by (simp add: sha256_eq_spec length_sha256_spec)


section \<open>HMAC against its definition\<close>

lemma hmac_spec_lemma:
  "mp_cache_hmac_sha256 secret_key message_bytes =
    (let k = (if 64 < length secret_key then sha256_spec secret_key else secret_key);
         k0 = k @ replicate (64 - length k) 0
     in sha256_spec (map (\<lambda>b. b XOR 0x5c) k0 @ sha256_spec (map (\<lambda>b. b XOR 0x36) k0 @ message_bytes)))"
  by (simp add: mp_cache_hmac_sha256_def Let_def sha256_update_chain sha256_eq_spec MP_CACHE_SHA256_BLOCK_SIZE_def)

lemma length_mp_cache_hmac_sha256 [simp]: "length (mp_cache_hmac_sha256 secret_key message_bytes) = 32"
  by (simp add: hmac_spec_lemma Let_def length_sha256_spec)


section \<open>The keystream is its own inverse\<close>

lemma length_stream_xor_loop [simp]:
  "length (stream_xor_loop stream_key nonce counter bs) = length bs"
proof (induction stream_key nonce counter bs rule: stream_xor_loop.induct)
  case (1 stream_key nonce counter bs)
  then show ?case
    by (subst stream_xor_loop.simps) (auto simp: MP_CACHE_SHA256_SIZE_def Let_def)
qed

lemma map2_xor_cancel:
  "length xs \<le> length ks \<Longrightarrow> map2 (XOR) (map2 (XOR) xs ks) ks = (xs :: bytes)"
proof (induction xs arbitrary: ks)
  case (Cons x xs)
  then show ?case by (cases ks) (auto simp: xor.assoc)
qed simp

lemma stream_xor_loop_cancel:
  "stream_xor_loop stream_key nonce counter (stream_xor_loop stream_key nonce counter bs) = bs"
proof (induction stream_key nonce counter bs rule: stream_xor_loop.induct)
  case (1 stream_key nonce counter bs)
  show ?case
  proof (cases "bs = []")
    case True
    then show ?thesis by (simp add: stream_xor_loop.simps)
  next
    case False
    define ks where "ks = mp_cache_hmac_sha256 stream_key (take MP_CACHE_NONCE_SIZE nonce @ be_bytes 8 counter)"
    define hd_part where "hd_part = map2 (XOR) (take 32 bs) ks"
    define tl_part where "tl_part = stream_xor_loop stream_key nonce (counter + 1) (drop 32 bs)"
    define whole where "whole = hd_part @ tl_part"
    have once: "stream_xor_loop stream_key nonce counter bs = whole"
      using False by (simp add: stream_xor_loop.simps [of stream_key nonce counter bs] Let_def ks_def
          hd_part_def tl_part_def whole_def MP_CACHE_SHA256_SIZE_def)
    have len: "length hd_part = min 32 (length bs)" "length tl_part = length bs - 32"
      by (simp_all add: hd_part_def tl_part_def ks_def)
    then have "take 32 whole = hd_part" "drop 32 whole = tl_part"
      by (auto simp: whole_def min_def split: if_splits)
    moreover have "whole \<noteq> []"
      using False len by (cases bs) (auto simp: whole_def)
    ultimately have "stream_xor_loop stream_key nonce counter whole =
        map2 (XOR) hd_part ks @ stream_xor_loop stream_key nonce (counter + 1) tl_part"
      by (simp add: stream_xor_loop.simps [of stream_key nonce counter whole] Let_def ks_def
          MP_CACHE_SHA256_SIZE_def)
    also have "map2 (XOR) hd_part ks = take 32 bs"
      unfolding hd_part_def by (rule map2_xor_cancel) (simp add: ks_def)
    also have "stream_xor_loop stream_key nonce (counter + 1) tl_part = drop 32 bs"
      unfolding tl_part_def using "1.IH" [OF False refl refl] by (simp add: MP_CACHE_SHA256_SIZE_def)
    finally show ?thesis by (simp add: once)
  qed
qed


section \<open>Comparison, random bytes and the text encodings\<close>

lemma xor_eq_0_iff: "a XOR b = 0 \<longleftrightarrow> a = (b :: 'a::len word)"
  by (metis xor.assoc xor.left_neutral xor_self_eq)

lemma constant_time_diff_zero:
  "n \<le> length left \<Longrightarrow> n \<le> length right \<Longrightarrow>
     constant_time_diff diff left right n = 0 \<longleftrightarrow> diff = 0 \<and> take n left = take n right"
proof (induction n arbitrary: diff left right)
  case (Suc n)
  then obtain a l b r where "left = a # l" "right = b # r"
    by (cases left; cases right) auto
  with Suc show ?case by (auto simp: or_eq_0_iff xor_eq_0_iff)
qed simp

lemma random_read_loop_length:
  "random_read_loop script n acc = Inr bs \<Longrightarrow> length acc \<le> n \<Longrightarrow> length bs = n"
  by (induction script n acc rule: random_read_loop.induct)
    (auto split: if_splits read_result.splits)

lemma hex_chars_values: "map mp_cache_hex_nibble hex_chars = map int [0..<16]"
  by (simp add: hex_chars_def mp_cache_hex_nibble_def upt_rec)

lemma hex_digit_value:
  assumes "n < 16"
  shows "mp_cache_hex_nibble (hex_chars ! n) = int n"
proof -
  have len: "length hex_chars = 16"
    by (simp add: hex_chars_def)
  have "map mp_cache_hex_nibble hex_chars ! n = map int [0..<16] ! n"
    by (simp only: hex_chars_values)
  with assms len show ?thesis
    by (simp del: upt.simps upt_rec_numeral)
qed

lemma base64_alphabet_values: "map mp_cache_base64_value base64_alphabet = map int [0..<64]"
  by (simp add: base64_alphabet_def mp_cache_base64_value_def upt_rec)

lemma base64_digit_value:
  assumes "n < 64"
  shows "mp_cache_base64_value (base64_alphabet ! n) = int n \<and> base64_alphabet ! n \<noteq> CHR ''=''"
proof
  have len: "length base64_alphabet = 64"
    by (simp add: base64_alphabet_def)
  have "map mp_cache_base64_value base64_alphabet ! n = map int [0..<64] ! n"
    by (simp only: base64_alphabet_values)
  with assms len show v: "mp_cache_base64_value (base64_alphabet ! n) = int n"
    by (simp del: upt.simps upt_rec_numeral)
  then show "base64_alphabet ! n \<noteq> CHR ''=''"
    by (auto simp: mp_cache_base64_value_def)
qed

lemma and_63: "(w AND 0x3f :: u32) = take_bit 6 w"
  by (simp add: take_bit_eq_mask mask_eq_exp_minus_1)

lemma and_15: "(w AND 0x0f :: byte) = take_bit 4 w"
  by (simp add: take_bit_eq_mask mask_eq_exp_minus_1)

lemma sextets:
  "push_bit 18 (take_bit 6 (drop_bit 18 w)) OR push_bit 12 (take_bit 6 (drop_bit 12 w)) OR
   push_bit 6 (take_bit 6 (drop_bit 6 w)) OR take_bit 6 w = take_bit 24 (w :: u32)" (is "?l = ?r")
proof (rule bit_word_eqI)
  fix n
  assume "n < LENGTH(32)"
  consider "n < 6" | "6 \<le> n" "n < 12" | "12 \<le> n" "n < 18" | "18 \<le> n" "n < 24" | "24 \<le> n"
    by linarith
  then show "bit ?l n \<longleftrightarrow> bit ?r n"
    by cases (auto simp: bit_simps)
qed

lemma nibbles: "push_bit 4 (drop_bit 4 b) OR take_bit 4 b = (b :: byte)"
  by (rule bit_word_eqI) (auto simp: bit_simps)

lemma word_of_int_int_unat [simp]: "word_of_int (int (unat (w :: 'a::len word))) = w"
  by simp

lemma unat_take_bit_6: "unat (take_bit 6 (w :: u32)) < 64"
  using take_bit_nat_less_exp [of 6 "unat w"] by (simp add: unsigned_take_bit_eq)

lemma base64_value_sextet [simp]:
  "mp_cache_base64_value (base64_alphabet ! unat (take_bit 6 (w :: u32))) = int (unat (take_bit 6 w))"
  "base64_alphabet ! unat (take_bit 6 (w :: u32)) \<noteq> CHR ''=''"
  using base64_digit_value [OF unat_take_bit_6, of w] by blast+

lemma base64_chunk_sextets:
  "base64_chunk [int (unat (take_bit 6 (drop_bit 18 w))), int (unat (take_bit 6 (drop_bit 12 w))),
     int (unat (take_bit 6 (drop_bit 6 w))), int (unat (take_bit 6 w))] = take_bit 24 w"
  using sextets [of w] by (simp add: base64_chunk_def)

lemma base64_chunk_bytes:
  fixes a b c :: byte and w :: u32
  shows "w = push_bit 8 (push_bit 8 (ucast a) OR ucast b) OR ucast c \<Longrightarrow>
      ucast (drop_bit 16 (take_bit 24 w)) = a \<and> ucast (drop_bit 8 (take_bit 24 w)) = b \<and>
      ucast (take_bit 24 w) = c"
    and "w = push_bit 8 (push_bit 8 (ucast a) OR ucast b) \<Longrightarrow>
      ucast (drop_bit 16 (take_bit 24 w)) = a \<and> ucast (drop_bit 8 (take_bit 24 w)) = b \<and>
      take_bit 6 w = 0"
    and "w = push_bit 16 (ucast a) \<Longrightarrow>
      ucast (drop_bit 16 (take_bit 24 w)) = a \<and> take_bit 6 w = 0 \<and> take_bit 6 (drop_bit 6 w) = 0"
  by (intro conjI; rule bit_word_eqI; auto simp: bit_simps dest: bit_imp_le_length)+

lemma base64_encode_chunk_cases:
  assumes "0 < length xs" "length xs \<le> 3"
  obtains (one) a and w :: u32 where "xs = [a]" "w = push_bit 16 (ucast a)"
      "base64_encode_chunk xs = [base64_alphabet ! unat (take_bit 6 (drop_bit 18 w)),
         base64_alphabet ! unat (take_bit 6 (drop_bit 12 w)), CHR ''='', CHR ''='']"
  | (two) a b and w :: u32 where "xs = [a, b]" "w = push_bit 8 (push_bit 8 (ucast a) OR ucast b)"
      "base64_encode_chunk xs = [base64_alphabet ! unat (take_bit 6 (drop_bit 18 w)),
         base64_alphabet ! unat (take_bit 6 (drop_bit 12 w)),
         base64_alphabet ! unat (take_bit 6 (drop_bit 6 w)), CHR ''='']"
  | (three) a b c and w :: u32 where "xs = [a, b, c]" "w = push_bit 8 (push_bit 8 (ucast a) OR ucast b) OR ucast c"
      "base64_encode_chunk xs = [base64_alphabet ! unat (take_bit 6 (drop_bit 18 w)),
         base64_alphabet ! unat (take_bit 6 (drop_bit 12 w)),
         base64_alphabet ! unat (take_bit 6 (drop_bit 6 w)), base64_alphabet ! unat (take_bit 6 w)]"
proof -
  consider a where "xs = [a]" | a b where "xs = [a, b]" | a b c where "xs = [a, b, c]"
    using assms by (auto simp: Suc_le_eq length_Suc_conv le_Suc_eq numeral_3_eq_3)
  then show thesis
  proof cases
    case (1 a)
    from one [OF this refl] show thesis
      by (simp add: 1 base64_encode_chunk_def Let_def and_63)
  next
    case (2 a b)
    from two [OF this refl] show thesis
      by (simp add: 2 base64_encode_chunk_def Let_def and_63)
  next
    case (3 a b c)
    from three [OF this refl] show thesis
      by (simp add: 3 base64_encode_chunk_def Let_def and_63)
  qed
qed

lemma base64_decode_chunk:
  assumes "0 < length xs" "length xs \<le> 3"
  shows "\<exists>values. base64_group_values (base64_encode_chunk xs) 3 = Inr (values, of_nat (length xs)) \<and>
      ucast (drop_bit 16 (base64_chunk values)) # 
      (if base64_encode_chunk xs ! 2 \<noteq> CHR ''='' then [ucast (drop_bit 8 (base64_chunk values))] else []) @
      (if base64_encode_chunk xs ! 3 \<noteq> CHR ''='' then [ucast (base64_chunk values)] else []) = xs"
  using assms
proof (cases rule: base64_encode_chunk_cases)
  case (one a w)
  from base64_chunk_bytes(3) [OF one(2)] base64_chunk_sextets [of w] show ?thesis
    unfolding one(3) unfolding one(1) by simp
next
  case (two a b w)
  from base64_chunk_bytes(2) [OF two(2)] base64_chunk_sextets [of w] show ?thesis
    unfolding two(3) unfolding two(1) by simp
next
  case (three a b c w)
  from base64_chunk_bytes(1) [OF three(2)] base64_chunk_sextets [of w] show ?thesis
    unfolding three(3) unfolding three(1) by simp
qed

lemma length_base64_encode_chunk [simp]: "length (base64_encode_chunk xs) = 4"
  by (simp add: base64_encode_chunk_def Let_def)

lemma base64_decode_loop_chunk:
  assumes "0 < length xs" "length xs \<le> 3" "length out + length xs \<le> cap" "cap < 2 ^ 64"
  shows "base64_decode_loop (base64_encode_chunk xs @ rest) cap out = base64_decode_loop rest cap (out @ xs)"
proof -
  obtain vs where vs: "base64_group_values (base64_encode_chunk xs) 3 = Inr (vs, of_nat (length xs))"
    and out: "ucast (drop_bit 16 (base64_chunk vs)) # 
      (if base64_encode_chunk xs ! 2 \<noteq> CHR ''='' then [ucast (drop_bit 8 (base64_chunk vs))] else []) @
      (if base64_encode_chunk xs ! 3 \<noteq> CHR ''='' then [ucast (base64_chunk vs)] else []) = xs"
    using base64_decode_chunk [OF assms(1,2)] by blast
  have fits: "unat (of_nat (length out) + of_nat (length xs) :: u64) = length out + length xs"
    using assms(3,4) by (simp add: of_nat_add [symmetric] unat_of_nat del: of_nat_add)
  have "(base64_encode_chunk xs @ rest) ! i = base64_encode_chunk xs ! i" if "i < 4" for i
    using that by (simp add: nth_append)
  with vs fits assms(3) out show ?thesis
    by (subst base64_decode_loop.simps) (simp add: Let_def)
qed

lemma base64_decode_encode_loop:
  "length out + length bs \<le> cap \<Longrightarrow> cap < 2 ^ 64 \<Longrightarrow>
     base64_decode_loop (base64_encode_loop bs) cap out = Inr (out @ bs)"
proof (induction bs arbitrary: out rule: base64_encode_loop.induct)
  case (1 bs)
  show ?case
  proof (cases "bs = []")
    case True
    then show ?thesis by (simp add: base64_encode_loop.simps base64_decode_loop.simps)
  next
    case False
    with "1.prems" have "base64_decode_loop (base64_encode_loop bs) cap out =
        base64_decode_loop (base64_encode_loop (drop 3 bs)) cap (out @ take 3 bs)"
      by (subst base64_encode_loop.simps) (simp add: base64_decode_loop_chunk)
    also have "\<dots> = Inr ((out @ take 3 bs) @ drop 3 bs)"
      using False "1.prems" by (intro "1.IH") auto
    finally show ?thesis by simp
  qed
qed

lemma length_base64_encode_loop: "length (base64_encode_loop bs) = (length bs + 2) div 3 * 4"
proof (induction bs rule: base64_encode_loop.induct)
  case (1 bs)
  show ?case
  proof (cases "bs = []")
    case True
    then show ?thesis by (simp add: base64_encode_loop.simps)
  next
    case False
    then have "0 < length bs"
      by simp
    then have "(length bs + 2) div 3 = Suc ((length bs - 3 + 2) div 3)"
      by presburger
    with 1 False show ?thesis by (subst base64_encode_loop.simps) simp
  qed
qed

lemma base64_decode_loop_bound:
  "base64_decode_loop t cap out = Inr bs \<Longrightarrow> length bs \<le> length out + length t div 4 * 3"
proof (induction t cap out rule: base64_decode_loop.induct)
  case (1 t cap out)
  show ?case
  proof (cases "length t < 4")
    case True
    with "1.prems" show ?thesis by (simp add: base64_decode_loop.simps)
  next
    case False
    from "1.prems" False obtain vs count where
      g: "base64_group_values (take 4 t) 3 = Inr (vs, count)"
      by (subst (asm) base64_decode_loop.simps) (auto split: sum.splits prod.splits)
    have fits: "\<not> cap < unat (of_nat (length out) + count)"
      using "1.prems" False g by (subst (asm) base64_decode_loop.simps) (auto simp: Let_def split: if_splits)
    let ?piece = "[ucast (drop_bit 16 (base64_chunk vs)) :: byte] @
        (if t ! 2 \<noteq> CHR ''='' then [ucast (drop_bit 8 (base64_chunk vs))] else []) @
        (if t ! 3 \<noteq> CHR ''='' then [ucast (base64_chunk vs)] else [])"
    have "base64_decode_loop (drop 4 t) cap (out @ ?piece) = Inr bs"
      using "1.prems" False g fits by (subst (asm) base64_decode_loop.simps) (simp add: Let_def)
    then have "length bs \<le> length (out @ ?piece) + length (drop 4 t) div 4 * 3"
      using "1.IH" [OF False g refl refl] fits by blast
    moreover have "length t div 4 = Suc ((length t - 4) div 4)"
      using False by (simp add: le_div_geq)
    moreover have "length ?piece \<le> 3"
      by simp
    ultimately show ?thesis
      unfolding length_append length_drop by linarith
  qed
qed

lemma hex_decode_encode_loop:
  "hex_decode_loop (concat (map (\<lambda>b. [hex_chars ! unat (drop_bit 4 b), hex_chars ! unat (b AND 0x0f)]) bs))
     = Inr bs"
proof (induction bs)
  case (Cons b bs)
  have "unat (drop_bit 4 b) = unat b div 16"
    using unsigned_less [where 'a = nat, of b]
    by (simp only: unsigned_drop_bit_eq) (simp add: drop_bit_eq_div take_bit_nat_eq_self)
  then have "unat (drop_bit 4 b) < 16"
    using unsigned_less [where 'a = nat, of b] by (simp add: less_mult_imp_div_less)
  moreover have "unat (take_bit 4 b) < 16"
    using take_bit_nat_less_exp [of 4 "unat b"] by (simp add: unsigned_take_bit_eq)
  ultimately show ?case using Cons
    by (simp add: hex_digit_value and_15 nibbles)
qed simp

lemma length_hex_encode:
  "length (concat (map (\<lambda>b. [hex_chars ! unat (drop_bit 4 b), hex_chars ! unat (b AND 0x0f)]) bs))
     = 2 * length bs"
  by (induction bs) simp_all

lemma stream_xor_cancel:
  "mp_cache_stream_xor k nonce (mp_cache_stream_xor k nonce bs) = bs"
  by (simp add: mp_cache_stream_xor_def stream_xor_loop_cancel)

lemma sha256_streaming:
  "sha256_context_of (foldl mp_cache_sha256_update mp_cache_sha256_init pieces) (concat pieces)"
proof (induction pieces rule: rev_induct)
  case (snoc x xs)
  then show ?case
    using sha256_context_of_update by fastforce
qed (simp add: sha256_context_of_init)

lemma constant_time_equals_iff:
  "n \<le> length left \<Longrightarrow> n \<le> length right \<Longrightarrow>
     mp_cache_constant_time_equals (Some left) (Some right) n \<longleftrightarrow> take n left = take n right"
  by (simp add: mp_cache_constant_time_equals_def constant_time_diff_zero)

lemma random_bytes_length: "mp_cache_random_bytes e n = Inr bs \<Longrightarrow> length bs = n"
  using random_read_loop_length [of _ n "[]" bs]
  by (auto simp: mp_cache_random_bytes_def split: if_splits)


section \<open>Properties\<close>

text \<open>
  Property C24. Feeding a message to the hash in any pieces and finishing gives the digest of the
  concatenated message under the block-wise definition (pad the whole message, compress block after
  block); the one-shot function computes the same digest, always of 32 bytes.
\<close>
theorem sha256_streaming_eq_spec:
  "mp_cache_sha256_final (foldl mp_cache_sha256_update mp_cache_sha256_init pieces) =
     sha256_spec (concat pieces) \<and>
   mp_cache_sha256 msg = sha256_spec msg \<and> length (mp_cache_sha256 msg) = MP_CACHE_SHA256_SIZE"
  using sha256_final_spec [OF sha256_streaming, of pieces]
  by (simp add: sha256_eq_spec [symmetric] MP_CACHE_SHA256_SIZE_def)
    (simp add: sha256_eq_spec sha256_spec_def)

text \<open>
  Property C26. The HMAC of the code is the HMAC of RFC 2104 over the block-wise hash: a key longer
  than one block is hashed first, the key is padded with zeros to a block, and the digest is the
  outer hash over the outer pad and the inner hash.
\<close>
theorem hmac_sha256_rfc2104:
  "mp_cache_hmac_sha256 secret_key message_bytes =
    (let k = (if 64 < length secret_key then sha256_spec secret_key else secret_key);
         k0 = k @ replicate (64 - length k) 0
     in sha256_spec (map (\<lambda>b. b XOR 0x5c) k0 @ sha256_spec (map (\<lambda>b. b XOR 0x36) k0 @ message_bytes)))"
  by (rule hmac_spec_lemma)

text \<open>
  Property C27. The stream cipher is its own inverse and keeps the length: decrypting with the key and
  the nonce of the encryption returns the plain bytes, for every key, nonce and length.
\<close>
theorem stream_xor_involutive:
  "mp_cache_stream_xor stream_key nonce (mp_cache_stream_xor stream_key nonce bs) = bs \<and>
   length (mp_cache_stream_xor stream_key nonce bs) = length bs"
  by (simp add: mp_cache_stream_xor_def stream_xor_loop_cancel)

text \<open>
  Property C28. Base64 round trip: with room for the text and its terminator and room for the bytes,
  encoding succeeds with \<open>4\<close> characters for every started group of three bytes, and decoding
  the text returns the bytes.
\<close>
theorem base64_roundtrip:
  assumes "(length bs + 2) div 3 * 4 < text_capacity" "length bs \<le> capacity" "capacity \<le> SIZE_MAX"
  shows "\<exists>b64. mp_cache_base64_encode bs text_capacity = Inr b64 \<and>
     length b64 = (length bs + 2) div 3 * 4 \<and> mp_cache_base64_decode (Some b64) capacity = Inr bs"
  using assms base64_decode_encode_loop [of "[]" bs capacity]
  by (auto simp: mp_cache_base64_encode_def mp_cache_base64_decode_def length_base64_encode_loop Let_def
      SIZE_MAX_def)

theorem base64_roundtrip_witness:
  "mp_cache_base64_decode (Some ''TWE='') 2 = Inr [0x4d, 0x61] \<and>
   mp_cache_base64_encode [0x4d, 0x61] 5 = Inr ''TWE=''"
proof -
  have e: "mp_cache_base64_encode [0x4d, 0x61] 5 = Inr ''TWE=''"
    by code_simp
  from base64_roundtrip [of "[0x4d, 0x61]" 5 2] show ?thesis
    by (simp add: e SIZE_MAX_def)
qed


text \<open>
  Property C29. The decoder never stores more than three bytes per group of four characters, whatever
  the text: a caller that allots \<open>length div 4 * 3\<close> bytes, as the request handlers do, is safe
  from the overrun.
\<close>
theorem base64_decode_bound:
  assumes "mp_cache_base64_decode (Some b64) capacity = Inr bs"
  shows "length bs \<le> length b64 div 4 * 3"
  using assms base64_decode_loop_bound [of b64 capacity "[]" bs]
  by (auto simp: mp_cache_base64_decode_def split: if_splits)

theorem base64_decode_bound_witness:
  "mp_cache_base64_decode (Some ''TWE='') 3 = Inr [0x4d, 0x61] \<and> length [0x4d, 0x61 :: byte] \<le> 3"
proof -
  have d: "mp_cache_base64_decode (Some ''TWE='') 3 = Inr [0x4d, 0x61]"
    by code_simp
  from base64_decode_bound [OF d] show ?thesis
    by (simp add: d)
qed

text \<open>
  Property C31. Hexadecimal round trip: encoding into a buffer with room for two characters a byte
  and the terminator succeeds, and decoding the text returns the bytes.
\<close>
theorem hex_roundtrip:
  assumes "2 * length bs < text_capacity" "length bs \<le> capacity"
  shows "\<exists>hex. mp_cache_hex_encode bs text_capacity = Inr hex \<and> length hex = 2 * length bs \<and>
     mp_cache_hex_decode (Some hex) capacity = Inr bs"
  using assms hex_decode_encode_loop [of bs] length_hex_encode [of bs]
  by (auto simp: mp_cache_hex_encode_def mp_cache_hex_decode_def)

theorem hex_roundtrip_witness:
  "mp_cache_hex_encode [0x0f, 0xa5] 5 = Inr ''0fa5'' \<and> mp_cache_hex_decode (Some ''0fa5'') 2 = Inr [0x0f, 0xa5]"
proof -
  have e: "mp_cache_hex_encode [0x0f, 0xa5] 5 = Inr ''0fa5''"
    by code_simp
  from hex_roundtrip [of "[0x0f, 0xa5]" 5 2] show ?thesis
    by (simp add: e)
qed

end
