(* ===== verification/CLib.thy ===== *)
theory CLib
  imports Prelude
begin

text \<open>
  The parts of the C library the program relies on, as functions on strings: character classes
  (in the C locale), trimming as the code writes it, \<^verbatim>\<open>strtoul\<close> with its sign and overflow
  rules, decimal output, splitting at a character, substring search, \<^verbatim>\<open>fgets\<close> and the truncation
  of \<^verbatim>\<open>snprintf\<close>.
\<close>


section \<open>Character classes and printing\<close>

abbreviation LF :: char where
  "LF \<equiv> CHR 0x0A"

abbreviation CR :: char where
  "CR \<equiv> CHR 0x0D"

definition isspace :: "char \<Rightarrow> bool" where
  "isspace c \<longleftrightarrow> c = CHR '' '' \<or> c \<in> {CHR 0x09, CHR 0x0A, CHR 0x0B, CHR 0x0C, CHR 0x0D}"

definition isdigit :: "char \<Rightarrow> bool" where
  "isdigit c \<longleftrightarrow> 48 \<le> (of_char c :: nat) \<and> (of_char c :: nat) \<le> 57"

definition isalnum :: "char \<Rightarrow> bool" where
  "isalnum c \<longleftrightarrow> isdigit c \<or> 65 \<le> (of_char c :: nat) \<and> (of_char c :: nat) \<le> 90 \<or>
     97 \<le> (of_char c :: nat) \<and> (of_char c :: nat) \<le> 122"

text \<open>\<open>snprintf(buffer, capacity, "%s", text)\<close>: at most \<open>capacity - 1\<close> characters.\<close>

definition snprintf_s :: "nat \<Rightarrow> string \<Rightarrow> string" where
  "snprintf_s capacity str = take (capacity - 1) str"

text \<open>Decimal output of \<open>%u\<close>, \<open>%lu\<close> and \<open>%ld\<close>.\<close>

definition digit_char :: "nat \<Rightarrow> char" where
  "digit_char d = char_of (48 + d)"

fun print_nat :: "nat \<Rightarrow> string" where
  "print_nat n = (if n < 10 then [digit_char n] else print_nat (n div 10) @ [digit_char (n mod 10)])"

declare print_nat.simps [simp del]

definition print_int :: "int \<Rightarrow> string" where
  "print_int i = (if i < 0 then CHR ''-'' # print_nat (nat (- i)) else print_nat (nat i))"


section \<open>Parsing\<close>

definition digits_value :: "string \<Rightarrow> nat" where
  "digits_value ds = foldl (\<lambda>acc c. 10 * acc + (of_char c - 48)) 0 ds"

text \<open>
  \<open>strtoul(text, &end, 10)\<close> for a 64-bit result: the value, whether \<open>errno\<close> became
  \<open>ERANGE\<close>, and the text from \<open>end\<close> on. White space and one sign may precede the
  digits; a minus sign negates modulo \<open>2^64\<close>; without digits \<open>end\<close> is the start.
\<close>

definition strtoul :: "string \<Rightarrow> u64 \<times> bool \<times> string" where
  "strtoul str =
     (let t = dropWhile isspace str;
          u = (if t \<noteq> [] \<and> (hd t = CHR ''-'' \<or> hd t = CHR ''+'') then tl t else t);
          digits = takeWhile isdigit u;
          rest = dropWhile isdigit u
      in if digits = [] then (0, False, str)
         else if digits_value digits \<ge> 2 ^ 64 then (- 1, True, rest)
         else if hd t = CHR ''-'' then (- of_nat (digits_value digits), False, rest)
         else (of_nat (digits_value digits), False, rest))"

text \<open>The code's own trimming loop, which several files repeat.\<close>

definition trim :: "string \<Rightarrow> string" where
  "trim str = rev (dropWhile isspace (rev (dropWhile isspace str)))"

text \<open>\<open>strchr\<close> and \<open>strrchr\<close>: the text before and after the first (last) occurrence.\<close>

definition strchr :: "string \<Rightarrow> char \<Rightarrow> (string \<times> string) option" where
  "strchr str c =
     (if c \<in> set str then Some (takeWhile (\<lambda>d. d \<noteq> c) str, tl (dropWhile (\<lambda>d. d \<noteq> c) str)) else None)"

definition strrchr :: "string \<Rightarrow> char \<Rightarrow> (string \<times> string) option" where
  "strrchr str c =
     (case strchr (rev str) c of None \<Rightarrow> None | Some (after, before) \<Rightarrow> Some (rev before, rev after))"

text \<open>\<open>strstr\<close>: the text before the first occurrence and the text from it on.\<close>

fun strstr :: "string \<Rightarrow> string \<Rightarrow> (string \<times> string) option" where
  "strstr str needle =
     (if take (length needle) str = needle then Some ([], str)
      else (case str of
              [] \<Rightarrow> None
            | c # rest \<Rightarrow>
                (case strstr rest needle of None \<Rightarrow> None | Some (before, from) \<Rightarrow> Some (c # before, from))))"

declare strstr.simps [simp del]

text \<open>\<open>strncmp(text, prefix, strlen(prefix)) == 0\<close>.\<close>

definition starts_with :: "string \<Rightarrow> string \<Rightarrow> bool" where
  "starts_with str prefix \<longleftrightarrow> take (length prefix) str = prefix"

text \<open>
  \<open>fgets(buffer, size, file)\<close> on the rest of the stream: at most \<open>size - 1\<close> characters,
  up to and with the next line feed. The caller sees the characters before the first NUL.
\<close>

definition fgets :: "nat \<Rightarrow> char list \<Rightarrow> (char list \<times> char list) option" where
  "fgets buffer_size stream =
     (if stream = [] then None
      else
        let line = takeWhile (\<lambda>c. c \<noteq> LF) stream;
            full = take (Suc (length line)) stream;
            chunk = take (buffer_size - 1) full
        in Some (chunk, drop (length chunk) stream))"


section \<open>Facts about these functions\<close>

lemma length_snprintf_s: "0 < capacity \<Longrightarrow> length (snprintf_s capacity str) < capacity"
  by (simp add: snprintf_s_def)

lemma snprintf_s_id [simp]: "length str < capacity \<Longrightarrow> snprintf_s capacity str = str"
  by (simp add: snprintf_s_def)

lemma of_char_digit_char: "d < 10 \<Longrightarrow> (of_char (digit_char d) :: nat) = 48 + d"
  by (simp add: digit_char_def)

lemma isdigit_digit_char [simp]: "d < 10 \<Longrightarrow> isdigit (digit_char d)"
  by (simp add: isdigit_def of_char_digit_char)

lemma isdigit_not_isspace: "isdigit c \<Longrightarrow> \<not> isspace c"
  by (auto simp: isdigit_def isspace_def)

lemma print_nat_digits: "c \<in> set (print_nat n) \<Longrightarrow> isdigit c"
proof (induction n rule: print_nat.induct)
  case (1 n)
  then show ?case
    by (subst (asm) print_nat.simps) (auto split: if_splits)
qed

lemma print_nat_not_Nil [simp]: "print_nat n \<noteq> []"
  by (simp add: print_nat.simps)

lemma digits_value_snoc: "digits_value (ds @ [c]) = 10 * digits_value ds + (of_char c - 48)"
  by (simp add: digits_value_def)

lemma digits_value_print_nat: "digits_value (print_nat n) = n"
proof (induction n rule: print_nat.induct)
  case (1 n)
  show ?case
  proof (cases "n < 10")
    case True
    then show ?thesis
      by (simp add: print_nat.simps [of n] digits_value_def of_char_digit_char)
  next
    case False
    with 1 show ?thesis
      by (simp add: print_nat.simps [of n] digits_value_snoc of_char_digit_char)
  qed
qed

lemma takeWhile_all: "(\<And>x. x \<in> set xs \<Longrightarrow> P x) \<Longrightarrow> takeWhile P (xs @ ys) = xs @ takeWhile P ys"
  by (induction xs) auto

lemma dropWhile_all: "(\<And>x. x \<in> set xs \<Longrightarrow> P x) \<Longrightarrow> dropWhile P (xs @ ys) = dropWhile P ys"
  by (induction xs) auto

lemma strtoul_print_nat:
  assumes "n < 2 ^ 64" and "rest = [] \<or> \<not> isdigit (hd rest)"
  shows "strtoul (print_nat n @ rest) = (of_nat n, False, rest)"
proof -
  obtain c ds where p: "print_nat n = c # ds"
    by (cases "print_nat n") auto
  then have c: "isdigit c"
    using print_nat_digits [of c n] by simp
  then have "\<not> isspace c" "c \<noteq> CHR ''-''" "c \<noteq> CHR ''+''"
    by (auto simp: isdigit_def isspace_def)
  moreover have "takeWhile isdigit (print_nat n @ rest) = print_nat n"
    using assms(2) by (cases rest) (simp_all add: takeWhile_all print_nat_digits)
  moreover have "dropWhile isdigit (print_nat n @ rest) = rest"
    using assms(2) by (cases rest) (simp_all add: dropWhile_all print_nat_digits)
  ultimately show ?thesis
    using assms(1) p by (simp add: strtoul_def digits_value_print_nat [of n, unfolded p])
qed

lemma dropWhile_id: "xs = [] \<or> \<not> P (hd xs) \<Longrightarrow> dropWhile P xs = xs"
  by (cases xs) auto

lemma trim_id: "str = [] \<or> \<not> isspace (hd str) \<and> \<not> isspace (last str) \<Longrightarrow> trim str = str"
  by (auto simp: trim_def dropWhile_id hd_rev)

lemma trim_append_space:
  "(\<And>c. c \<in> set sp \<Longrightarrow> isspace c) \<Longrightarrow> trim (sp @ str) = trim str"
  "(\<And>c. c \<in> set sp \<Longrightarrow> isspace c) \<Longrightarrow> trim (str @ sp) = trim str"
proof -
  show "trim (sp @ str) = trim str" if "\<And>c. c \<in> set sp \<Longrightarrow> isspace c"
    using that by (simp add: trim_def dropWhile_all)
  show "trim (str @ sp) = trim str" if sp: "\<And>c. c \<in> set sp \<Longrightarrow> isspace c"
  proof (cases "\<forall>c \<in> set str. isspace c")
    case True
    with sp have "\<forall>c \<in> set (str @ sp). isspace c"
      by auto
    with True have "dropWhile isspace (str @ sp) = []" "dropWhile isspace str = []"
      unfolding dropWhile_eq_Nil_conv by blast+
    then show ?thesis by (simp only: trim_def)
  next
    case False
    then have "dropWhile isspace (str @ sp) = dropWhile isspace str @ sp"
      by (auto simp add: dropWhile_append)
    moreover have "dropWhile isspace (rev sp @ rev (dropWhile isspace str)) = dropWhile isspace (rev (dropWhile isspace str))"
      using sp by (intro dropWhile_all) auto
    ultimately show ?thesis by (simp add: trim_def)
  qed
qed

lemma trim_no_spaces: "trim str = [] \<or> \<not> isspace (hd (trim str)) \<and> \<not> isspace (last (trim str))"
proof -
  define t where "t = dropWhile isspace str"
  have t: "t = [] \<or> \<not> isspace (hd t)"
    unfolding t_def using hd_dropWhile by blast
  define u where "u = dropWhile isspace (rev t)"
  have u: "u = [] \<or> \<not> isspace (hd u)"
    unfolding u_def using hd_dropWhile by blast
  have "rev t = takeWhile isspace (rev t) @ u"
    unfolding u_def by simp
  then have "u = [] \<or> t \<noteq> [] \<and> last u = hd t"
    by (metis append_is_Nil_conv hd_rev last_appendR rev_is_Nil_conv rev_rev_ident)
  with t u show ?thesis
    by (auto simp: trim_def t_def [symmetric] u_def [symmetric] hd_rev last_rev)
qed

lemma set_trim_subset: "set (trim str) \<subseteq> set str"
  unfolding trim_def by (metis set_dropWhileD set_rev subsetI)

lemma strchr_append:
  assumes "c \<notin> set before"
  shows "strchr (before @ c # after) c = Some (before, after)"
proof -
  from assms have "takeWhile (\<lambda>d. d \<noteq> c) (before @ c # after) = before @ takeWhile (\<lambda>d. d \<noteq> c) (c # after)"
    by (intro takeWhile_all) auto
  moreover from assms have "dropWhile (\<lambda>d. d \<noteq> c) (before @ c # after) = dropWhile (\<lambda>d. d \<noteq> c) (c # after)"
    by (intro dropWhile_all) auto
  ultimately show ?thesis
    by (simp add: strchr_def)
qed

lemma fgets_line:
  "LF \<notin> set line \<Longrightarrow> length line + 1 < buffer_size \<Longrightarrow> fgets buffer_size (line @ LF # rest) = Some (line @ [LF], rest)"
proof -
  assume a: "LF \<notin> set line" "length line + 1 < buffer_size"
  from a(1) have "takeWhile (\<lambda>c. c \<noteq> LF) (line @ LF # rest) = line"
    by (auto simp: takeWhile_append)
  with a(2) show ?thesis
    by (simp add: fgets_def Let_def)
qed

lemma fgets_shorter: "1 < buffer_size \<Longrightarrow> fgets buffer_size stream = Some (chunk, rest) \<Longrightarrow> length rest < length stream"
  by (auto simp: fgets_def Let_def split: if_splits)

end
