(* ===== verification/Platform.thy ===== *)
theory Platform
  imports CLib "HOL-Library.AList"
begin

text \<open>
  Model of \<^verbatim>\<open>internal/platform/fs.c\<close> over a small file system: a list of path names with
  what they name, in the order a directory scan reports them. A path is identified by its text, as
  the code passes it; there are no links. A system call that the environment lets succeed has its
  POSIX effect, and one that fails leaves the file system as it was.
\<close>


section \<open>The file system and the calls the program makes\<close>

datatype node = Directory | RegularFile bytes | Socket

type_synonym filesystem = "(string \<times> node) list"

text \<open>The bytes of a regular file, if the path names one.\<close>

definition file_contents :: "filesystem \<Rightarrow> string \<Rightarrow> bytes option" where
  "file_contents fs path = (case map_of fs path of Some (RegularFile bs) \<Rightarrow> Some bs | _ \<Rightarrow> None)"

text \<open>\<open>mkdir\<close> reports \<open>EEXIST\<close> as \<open>Inr False\<close>, a new directory as \<open>Inr True\<close>.\<close>

definition posix_mkdir :: "bool \<Rightarrow> filesystem \<Rightarrow> string \<Rightarrow> bool result \<times> filesystem" where
  "posix_mkdir succ fs path =
     (case map_of fs path of
        Some _ \<Rightarrow> (Inr False, fs)
      | None \<Rightarrow> if succ then (Inr True, AList.update path Directory fs) else (Inl EOTHER, fs))"

definition posix_unlink :: "bool \<Rightarrow> filesystem \<Rightarrow> string \<Rightarrow> unit result \<times> filesystem" where
  "posix_unlink succ fs path =
     (case map_of fs path of
        None \<Rightarrow> (Inl ENOENT, fs)
      | Some Directory \<Rightarrow> (Inl EOTHER, fs)
      | Some _ \<Rightarrow> if succ then (Inr (), AList.delete path fs) else (Inl EOTHER, fs))"

definition posix_rename :: "bool \<Rightarrow> filesystem \<Rightarrow> string \<Rightarrow> string \<Rightarrow> unit result \<times> filesystem" where
  "posix_rename succ fs old new =
     (case map_of fs old of
        None \<Rightarrow> (Inl ENOENT, fs)
      | Some node \<Rightarrow>
          if succ \<and> map_of fs new \<noteq> Some Directory then (Inr (), AList.update new node (AList.delete old fs))
          else (Inl EOTHER, fs))"

text \<open>\<open>fopen(path, "r")\<close>: the bytes of the stream.\<close>

definition posix_open_read :: "bool \<Rightarrow> filesystem \<Rightarrow> string \<Rightarrow> bytes result" where
  "posix_open_read succ fs path =
     (case map_of fs path of
        None \<Rightarrow> Inl ENOENT
      | Some (RegularFile bs) \<Rightarrow> if succ then Inr bs else Inl EOTHER
      | Some _ \<Rightarrow> Inl EOTHER)"

text \<open>\<open>fopen(path, "w")\<close> truncates, \<open>fopen(path, "a")\<close> keeps the contents.\<close>

definition posix_open_write :: "bool \<Rightarrow> filesystem \<Rightarrow> string \<Rightarrow> unit result \<times> filesystem" where
  "posix_open_write succ fs path =
     (if succ \<and> map_of fs path \<notin> {Some Directory, Some Socket} then (Inr (), AList.update path (RegularFile []) fs)
      else (Inl EOTHER, fs))"

definition posix_open_append :: "bool \<Rightarrow> filesystem \<Rightarrow> string \<Rightarrow> unit result \<times> filesystem" where
  "posix_open_append succ fs path =
     (if succ \<and> map_of fs path \<notin> {Some Directory, Some Socket}
      then (Inr (), case map_of fs path of Some _ \<Rightarrow> fs | None \<Rightarrow> AList.update path (RegularFile []) fs)
      else (Inl EOTHER, fs))"

text \<open>Bytes written to an open stream go to the end of the file in the modes the code uses.\<close>

definition posix_write :: "filesystem \<Rightarrow> string \<Rightarrow> bytes \<Rightarrow> filesystem" where
  "posix_write fs path bs =
     (case map_of fs path of
        Some (RegularFile old) \<Rightarrow> AList.update path (RegularFile (old @ bs)) fs
      | _ \<Rightarrow> fs)"

text \<open>\<open>bind\<close> of a local socket creates its name, which must be free.\<close>

definition posix_bind :: "bool \<Rightarrow> filesystem \<Rightarrow> string \<Rightarrow> unit result \<times> filesystem" where
  "posix_bind succ fs path =
     (if succ \<and> map_of fs path = None then (Inr (), AList.update path Socket fs) else (Inl EOTHER, fs))"

text \<open>The names \<open>readdir\<close> returns for a directory, \<open>.\<close> and \<open>..\<close> included.\<close>

definition posix_readdir :: "filesystem \<Rightarrow> string \<Rightarrow> string list" where
  "posix_readdir fs dir =
     ''.'' # ''..'' #
     concat (map (\<lambda>(path, node). if starts_with path (dir @ ''/'') \<and> CHR ''/'' \<notin> set (drop (length dir + 1) path)
                                 then [drop (length dir + 1) path] else []) fs)"


section \<open>Directories\<close>

definition MP_CACHE_PATH_CAP :: nat where
  "MP_CACHE_PATH_CAP = 4096"

definition mp_cache_fs_mkdir_single :: "env \<Rightarrow> filesystem \<Rightarrow> string ptr \<Rightarrow> unit result \<times> filesystem" where
  "mp_cache_fs_mkdir_single e fs directory_path =
     (case directory_path of
        None \<Rightarrow> (Inl EINVAL, fs)
      | Some path \<Rightarrow>
          if path = [] then (Inl EINVAL, fs)
          else
            (case (if ok 0 e then map_of fs path else None) of
               Some Directory \<Rightarrow> (Inr (), fs)
             | Some _ \<Rightarrow> (Inl ENOTDIR, fs)
             | None \<Rightarrow>
                 (case posix_mkdir (ok 1 e) fs path of
                    (Inr _, fs') \<Rightarrow> (Inr (), fs')
                  | (Inl err, fs') \<Rightarrow> (Inl err, fs'))))"

text \<open>The loop over the characters of the path; each separator ends a directory name.\<close>

fun ensure_directory_loop :: "env \<Rightarrow> filesystem \<Rightarrow> string \<Rightarrow> nat list \<Rightarrow> unit result \<times> filesystem" where
  "ensure_directory_loop e fs scratch [] = (Inr (), fs)"
| "ensure_directory_loop e fs scratch (index # indices) =
     (if scratch ! index = CHR ''/'' then
        (case mp_cache_fs_mkdir_single (at index e) fs (Some (take index scratch)) of
           (Inl err, fs') \<Rightarrow> (Inl err, fs')
         | (Inr _, fs') \<Rightarrow> ensure_directory_loop e fs' scratch indices)
      else ensure_directory_loop e fs scratch indices)"

definition mp_cache_fs_ensure_directory :: "env \<Rightarrow> filesystem \<Rightarrow> string ptr \<Rightarrow> unit result \<times> filesystem" where
  "mp_cache_fs_ensure_directory e fs filesystem_path =
     (case filesystem_path of
        None \<Rightarrow> (Inl EINVAL, fs)
      | Some path \<Rightarrow>
          if path = [] then (Inl EINVAL, fs)
          else if length path \<ge> MP_CACHE_PATH_CAP then (Inl ENAMETOOLONG, fs)
          else
            (case ensure_directory_loop (at 0 e) fs path [1..<length path] of
               (Inl err, fs') \<Rightarrow> (Inl err, fs')
             | (Inr _, fs') \<Rightarrow> mp_cache_fs_mkdir_single (at 1 e) fs' (Some path)))"

definition mp_cache_fs_ensure_parent_directory :: "env \<Rightarrow> filesystem \<Rightarrow> string ptr \<Rightarrow> unit result \<times> filesystem" where
  "mp_cache_fs_ensure_parent_directory e fs filesystem_path =
     (case filesystem_path of
        None \<Rightarrow> (Inl EINVAL, fs)
      | Some path \<Rightarrow>
          if path = [] then (Inl EINVAL, fs)
          else if length path \<ge> MP_CACHE_PATH_CAP then (Inl ENAMETOOLONG, fs)
          else
            (case strrchr path (CHR ''/'') of
               None \<Rightarrow> (Inr (), fs)
             | Some (parent, _) \<Rightarrow>
                 if parent = [] then (Inr (), fs)
                 else mp_cache_fs_ensure_directory e fs (Some parent)))"

definition mp_cache_fs_remove_path_if_exists :: "env \<Rightarrow> filesystem \<Rightarrow> string ptr \<Rightarrow> unit result \<times> filesystem" where
  "mp_cache_fs_remove_path_if_exists e fs filesystem_path =
     (case filesystem_path of
        None \<Rightarrow> (Inl EINVAL, fs)
      | Some path \<Rightarrow>
          if path = [] then (Inl EINVAL, fs)
          else
            (case posix_unlink (ok 0 e) fs path of
               (Inr _, fs') \<Rightarrow> (Inr (), fs')
             | (Inl ENOENT, fs') \<Rightarrow> (Inr (), fs')
             | (Inl err, fs') \<Rightarrow> (Inl err, fs')))"

text \<open>The pid file: a failing \<open>fprintf\<close> or \<open>fclose\<close> leaves the bytes written so far.\<close>

definition mp_cache_fs_write_pid_file :: "env \<Rightarrow> filesystem \<Rightarrow> string ptr \<Rightarrow> int \<Rightarrow> unit result \<times> filesystem" where
  "mp_cache_fs_write_pid_file e fs pid_file_path pid =
     (case pid_file_path of
        None \<Rightarrow> (Inl EINVAL, fs)
      | Some path \<Rightarrow>
          if path = [] then (Inl EINVAL, fs)
          else
            (case mp_cache_fs_ensure_parent_directory (at 0 e) fs (Some path) of
               (Inl err, fs1) \<Rightarrow> (Inl err, fs1)
             | (Inr _, fs1) \<Rightarrow>
                 (case posix_open_write (ok 1 e) fs1 path of
                    (Inl err, fs2) \<Rightarrow> (Inl err, fs2)
                  | (Inr _, fs2) \<Rightarrow>
                      (let bs = bytes_of (print_int pid @ [LF]) in
                       if \<not> ok 2 e then (Inl EIO, posix_write fs2 path (take (written e [2]) bs))
                       else if \<not> ok 3 e then (Inl EIO, posix_write fs2 path (take (written e [3]) bs))
                       else (Inr (), posix_write fs2 path bs)))))"


section \<open>What these operations leave alone\<close>

text \<open>No directory operation touches a regular file or removes a directory.\<close>

definition grows :: "filesystem \<Rightarrow> filesystem \<Rightarrow> bool" where
  "grows fs fs' \<longleftrightarrow> (\<forall>path node. map_of fs path = Some node \<longrightarrow> map_of fs' path = Some node) \<and>
     (\<forall>path. map_of fs path = None \<longrightarrow> map_of fs' path \<in> {None, Some Directory})"

lemma grows_refl [simp]: "grows fs fs"
  by (simp add: grows_def)

lemma grows_trans: "grows fs fs' \<Longrightarrow> grows fs' fs'' \<Longrightarrow> grows fs fs''"
  unfolding grows_def by (metis insertCI insertE singletonD option.exhaust)

lemma grows_file_contents:
  assumes "grows fs fs'"
  shows "file_contents fs' path = file_contents fs path"
proof (cases "map_of fs path")
  case None
  then have "map_of fs' path = None \<or> map_of fs' path = Some Directory"
    using assms by (auto simp: grows_def)
  with None show ?thesis by (auto simp: file_contents_def)
next
  case (Some node)
  then have "map_of fs' path = Some node"
    using assms by (simp add: grows_def)
  with Some show ?thesis by (simp add: file_contents_def)
qed

lemma posix_mkdir_grows: "posix_mkdir succ fs path = (r, fs') \<Longrightarrow> grows fs fs'"
  by (auto simp: posix_mkdir_def grows_def update_conv' split: option.splits if_splits)

lemma mkdir_single_grows: "mp_cache_fs_mkdir_single e fs p = (r, fs') \<Longrightarrow> grows fs fs'"
  by (auto simp: mp_cache_fs_mkdir_single_def split: option.splits if_splits node.splits prod.splits sum.splits
      dest: posix_mkdir_grows)

lemma ensure_directory_loop_grows: "ensure_directory_loop e fs scratch indices = (r, fs') \<Longrightarrow> grows fs fs'"
  by (induction e fs scratch indices rule: ensure_directory_loop.induct)
    (auto split: if_splits prod.splits sum.splits dest: mkdir_single_grows intro: grows_trans)

lemma ensure_directory_grows: "mp_cache_fs_ensure_directory e fs p = (r, fs') \<Longrightarrow> grows fs fs'"
  by (auto simp: mp_cache_fs_ensure_directory_def split: option.splits if_splits prod.splits sum.splits
      dest!: mkdir_single_grows ensure_directory_loop_grows intro: grows_trans)

lemma ensure_parent_directory_grows:
  "mp_cache_fs_ensure_parent_directory e fs p = (r, fs') \<Longrightarrow> grows fs fs'"
  by (auto simp: mp_cache_fs_ensure_parent_directory_def split: option.splits if_splits prod.splits
      dest!: ensure_directory_grows)

lemma open_read_contents: "file_contents fs path = Some bs \<Longrightarrow> posix_open_read True fs path = Inr bs"
  by (auto simp: file_contents_def posix_open_read_def split: option.splits node.splits)

lemma file_contents_update [simp]:
  "file_contents (AList.update path (RegularFile bs) fs) path' =
     (if path' = path then Some bs else file_contents fs path')"
  by (simp add: file_contents_def update_conv')

lemma file_contents_delete [simp]:
  "file_contents (AList.delete path fs) path' = (if path' = path then None else file_contents fs path')"
  by (simp add: file_contents_def delete_conv')

lemma file_contents_posix_write:
  "file_contents (posix_write fs path bs) path' =
     (if path' = path \<and> file_contents fs path \<noteq> None then Some (the (file_contents fs path) @ bs)
      else file_contents fs path')"
  by (auto simp: posix_write_def file_contents_def update_conv' split: option.splits node.splits)

end
