(* ===== verification/Packet.thy ===== *)
theory Packet
  imports Crypto Platform
begin

text \<open>
  The lower half of \<^verbatim>\<open>internal/storage/storage.c\<close>: the growable buffer, the big-endian field
  readers, and the encrypted and authenticated packet envelope with the routines that write it to a
  file, append it to the journal and read it back. A stream open for reading is the list of the bytes
  that are still to come; a failing write leaves a prefix of its bytes in the file.
\<close>


section \<open>Constants and state\<close>

definition MP_CACHE_STORAGE_STATE_MAGIC :: bytes where
  "MP_CACHE_STORAGE_STATE_MAGIC = bytes_of ''MPCSTAT1''"

text \<open>The eight bytes compared of the seven-character literal include its terminating NUL.\<close>

definition MP_CACHE_STORAGE_JOURNAL_MAGIC :: bytes where
  "MP_CACHE_STORAGE_JOURNAL_MAGIC = bytes_of ''MPCJNL1'' @ [0]"

definition MP_CACHE_STORAGE_EXPORT_MAGIC :: bytes where
  "MP_CACHE_STORAGE_EXPORT_MAGIC = bytes_of ''MPCEXPT1''"

definition MP_CACHE_STORAGE_PACKET_HEADER_SIZE :: nat where
  "MP_CACHE_STORAGE_PACKET_HEADER_SIZE = 64"

definition MP_CACHE_STORAGE_HEADER_MAC_OFFSET :: nat where
  "MP_CACHE_STORAGE_HEADER_MAC_OFFSET = 32"

definition MP_CACHE_STORAGE_BUFFER_INITIAL_CAPACITY :: nat where
  "MP_CACHE_STORAGE_BUFFER_INITIAL_CAPACITY = 256"

record mp_cache_buffer =
  buffer_bytes :: bytes
  buffer_capacity :: nat

record mp_cache_storage =
  storage_checkpoint_path :: string
  storage_journal_path :: string
  storage_export_directory :: string
  storage_key :: bytes
  max_packet_bytes :: u64
  storage_max_export_files :: u32

abbreviation empty_buffer :: mp_cache_buffer where
  "empty_buffer \<equiv> \<lparr>buffer_bytes = [], buffer_capacity = 0\<rparr>"

text \<open>The data pointer of a buffer is NULL until the first allocation.\<close>

definition buffer_data :: "mp_cache_buffer \<Rightarrow> bytes ptr" where
  "buffer_data buffer = (if buffer_capacity buffer = 0 then None else Some (buffer_bytes buffer))"

text \<open>The formatted text, when it fits the array with its terminator.\<close>

definition mp_cache_storage_format_path :: "nat \<Rightarrow> string \<Rightarrow> string result" where
  "mp_cache_storage_format_path out_path_capacity formatted =
     (if out_path_capacity = 0 then Inl EINVAL
      else if length formatted \<ge> out_path_capacity then Inl ENAMETOOLONG
      else Inr formatted)"


section \<open>The growable buffer\<close>

definition mp_cache_buffer_destroy :: "mp_cache_buffer \<Rightarrow> mp_cache_buffer" where
  "mp_cache_buffer_destroy buffer = empty_buffer"

text \<open>Doubling until the need is covered; the loop starts from a positive capacity.\<close>

function grow_capacity :: "nat \<Rightarrow> nat \<Rightarrow> nat" where
  "grow_capacity next_capacity needed =
     (if next_capacity = 0 \<or> needed \<le> next_capacity then next_capacity
      else if next_capacity > SIZE_MAX div 2 then needed
      else grow_capacity (next_capacity * 2) needed)"
  by pat_completeness auto
termination
  by (relation "measure (\<lambda>(next_capacity, needed). needed - next_capacity)") auto

declare grow_capacity.simps [simp del]

definition mp_cache_buffer_reserve :: "env \<Rightarrow> mp_cache_buffer \<Rightarrow> nat \<Rightarrow> unit result \<times> mp_cache_buffer" where
  "mp_cache_buffer_reserve e buffer additional_length =
     (if additional_length > SIZE_MAX - length (buffer_bytes buffer) then (Inl EOVERFLOW, buffer)
      else if length (buffer_bytes buffer) + additional_length \<le> buffer_capacity buffer then (Inr (), buffer)
      else
        let start = (if buffer_capacity buffer = 0 then MP_CACHE_STORAGE_BUFFER_INITIAL_CAPACITY
                     else buffer_capacity buffer);
            next_capacity = grow_capacity start (length (buffer_bytes buffer) + additional_length)
        in if \<not> ok 0 e then (Inl ENOMEM, buffer)
           else (Inr (), buffer\<lparr>buffer_capacity := next_capacity\<rparr>))"

text \<open>A NULL source is only ever passed with length zero and stands for the empty list.\<close>

definition mp_cache_buffer_append :: "env \<Rightarrow> mp_cache_buffer \<Rightarrow> bytes \<Rightarrow> unit result \<times> mp_cache_buffer" where
  "mp_cache_buffer_append e buffer bs =
     (case mp_cache_buffer_reserve e buffer (length bs) of
        (Inl err, buffer') \<Rightarrow> (Inl err, buffer')
      | (Inr _, buffer') \<Rightarrow> (Inr (), buffer'\<lparr>buffer_bytes := buffer_bytes buffer' @ bs\<rparr>))"

definition mp_cache_buffer_append_u32 :: "env \<Rightarrow> mp_cache_buffer \<Rightarrow> u32 \<Rightarrow> unit result \<times> mp_cache_buffer" where
  "mp_cache_buffer_append_u32 e buffer v =
     mp_cache_buffer_append e buffer
       [ucast (drop_bit 24 v), ucast (drop_bit 16 v), ucast (drop_bit 8 v), ucast v]"

definition mp_cache_buffer_append_u64 :: "env \<Rightarrow> mp_cache_buffer \<Rightarrow> u64 \<Rightarrow> unit result \<times> mp_cache_buffer" where
  "mp_cache_buffer_append_u64 e buffer v =
     mp_cache_buffer_append e buffer (rev (map (\<lambda>index. ucast (drop_bit (index * 8) v)) [0..<8]))"

text \<open>
  The serializers append a sequence of fields, joined by \<open>||\<close>: the first failure ends the
  sequence.
\<close>

datatype field = U32 u32 | U64 u64 | Raw bytes

fun append_field :: "env \<Rightarrow> mp_cache_buffer \<Rightarrow> field \<Rightarrow> unit result \<times> mp_cache_buffer" where
  "append_field e buffer (U32 v) = mp_cache_buffer_append_u32 e buffer v"
| "append_field e buffer (U64 v) = mp_cache_buffer_append_u64 e buffer v"
| "append_field e buffer (Raw bs) = mp_cache_buffer_append e buffer bs"

fun append_fields :: "env \<Rightarrow> mp_cache_buffer \<Rightarrow> field list \<Rightarrow> unit result \<times> mp_cache_buffer" where
  "append_fields e buffer [] = (Inr (), buffer)"
| "append_fields e buffer (f # fs) =
     (case append_field (at (length fs) e) buffer f of
        (Inl err, buffer') \<Rightarrow> (Inl err, buffer')
      | (Inr _, buffer') \<Rightarrow> append_fields e buffer' fs)"


section \<open>Bounded readers\<close>

text \<open>Each returns the value with the new offset; failure means too few bytes are left.\<close>

definition mp_cache_consume_u32 :: "bytes \<Rightarrow> nat \<Rightarrow> (u32 \<times> nat) option" where
  "mp_cache_consume_u32 bs offset =
     (if offset > length bs \<or> length bs - offset < 4 then None
      else Some (push_bit 24 (ucast (bs ! offset)) OR push_bit 16 (ucast (bs ! (offset + 1))) OR
                 push_bit 8 (ucast (bs ! (offset + 2))) OR ucast (bs ! (offset + 3)), offset + 4))"

definition mp_cache_consume_u64 :: "bytes \<Rightarrow> nat \<Rightarrow> (u64 \<times> nat) option" where
  "mp_cache_consume_u64 bs offset =
     (if offset > length bs \<or> length bs - offset < 8 then None
      else Some (foldl (\<lambda>v index. push_bit 8 v OR ucast (bs ! (offset + index))) 0 [0..<8], offset + 8))"

definition mp_cache_consume_bytes :: "bytes \<Rightarrow> nat \<Rightarrow> nat \<Rightarrow> (bytes \<times> nat) option" where
  "mp_cache_consume_bytes bs offset value_length =
     (if offset > length bs \<or> length bs - offset < value_length then None
      else Some (take value_length (drop offset bs), offset + value_length))"


section \<open>Streams\<close>

text \<open>
  Writing a whole buffer to a stream opened for writing or appending, then \<open>fflush\<close> and
  \<open>fclose\<close>. When a step fails, some prefix of the bytes has reached the file.
\<close>

definition mp_cache_storage_write_all :: "env \<Rightarrow> filesystem \<Rightarrow> string \<Rightarrow> bytes \<Rightarrow> bool \<times> filesystem" where
  "mp_cache_storage_write_all e fs path bs =
     (if ok 0 e then (True, fs) else (False, posix_write fs path (take (written e [0]) bs)))"

definition flush_and_close :: "env \<Rightarrow> filesystem \<Rightarrow> string \<Rightarrow> bytes \<Rightarrow> bool \<times> filesystem" where
  "flush_and_close e fs path bs =
     (if \<not> ok 0 e then (False, posix_write fs path (take (written e [0]) bs))
      else (ok 1 e, posix_write fs path bs))"

text \<open>Reading exactly \<open>count\<close> bytes; the end of the file before that is \<open>EINVAL\<close>.\<close>

definition mp_cache_storage_read_exact :: "env \<Rightarrow> bytes \<Rightarrow> nat \<Rightarrow> (bytes \<times> bytes) result" where
  "mp_cache_storage_read_exact e stream count =
     (if \<not> ok 0 e then Inl EIO
      else if length stream < count then Inl EINVAL
      else Inr (take count stream, drop count stream))"


section \<open>Packets\<close>

definition packet_header_prefix :: "bytes \<Rightarrow> nat \<Rightarrow> bytes \<Rightarrow> bytes" where
  "packet_header_prefix magic payload_length nonce =
     take 8 magic @ [0, 0, 0, 1] @
     (let n = (of_nat payload_length :: u64) in
      [ucast (drop_bit 24 n), ucast (drop_bit 16 n), ucast (drop_bit 8 n), ucast n]) @ nonce"

definition mp_cache_storage_build_packet ::
  "env \<Rightarrow> mp_cache_storage \<Rightarrow> bytes \<Rightarrow> bytes ptr \<Rightarrow> mp_cache_buffer \<Rightarrow> bytes result \<times> mp_cache_buffer" where
  "mp_cache_storage_build_packet e storage magic payload_data out_packet =
     (case payload_data of
        None \<Rightarrow> (Inl EINVAL, out_packet)
      | Some payload \<Rightarrow>
          if length payload > unat (max_packet_bytes storage) then (Inl EINVAL, out_packet)
          else
            (case mp_cache_random_bytes (at 0 e) MP_CACHE_NONCE_SIZE of
               Inl err \<Rightarrow> (Inl err, out_packet)
             | Inr nonce \<Rightarrow>
                 if \<not> ok 1 e then (Inl ENOMEM, out_packet)
                 else
                   let ciphertext = mp_cache_stream_xor (storage_key storage) nonce payload;
                       prefix = packet_header_prefix magic (length payload) nonce
                   in (case append_fields (at 2 e) empty_buffer [Raw prefix, Raw ciphertext] of
                         (Inl err, _) \<Rightarrow> (Inl err, out_packet)
                       | (Inr _, mac_input) \<Rightarrow>
                           let mac = mp_cache_hmac_sha256 (storage_key storage) (buffer_bytes mac_input)
                           in (case append_fields (at 3 e) out_packet [Raw (prefix @ mac), Raw ciphertext] of
                                 (Inl err, out_packet') \<Rightarrow> (Inl err, out_packet')
                               | (Inr _, out_packet') \<Rightarrow> (Inr mac, out_packet')))))"

definition temp_path :: "env \<Rightarrow> string \<Rightarrow> string" where
  "temp_path e path = path @ ''.tmp.'' @ print_int (getpid e)"

text \<open>
  A packet file is written to a temporary name beside its target and renamed over it. The failing
  branch closes a stream that may already be closed; that undefined behaviour is taken to do nothing.
\<close>

definition mp_cache_storage_write_packet_file ::
  "env \<Rightarrow> mp_cache_storage \<Rightarrow> filesystem \<Rightarrow> string \<Rightarrow> bytes \<Rightarrow> bytes ptr \<Rightarrow> bytes result \<times> filesystem" where
  "mp_cache_storage_write_packet_file e storage fs file_path magic payload_data =
     (if payload_data = None then (Inl EINVAL, fs)
      else
        (case mp_cache_fs_ensure_parent_directory (at 0 e) fs (Some file_path) of
           (Inl err, fs1) \<Rightarrow> (Inl err, fs1)
         | (Inr _, fs1) \<Rightarrow>
             (case mp_cache_storage_format_path MP_CACHE_PATH_CAP (temp_path e file_path) of
                Inl err \<Rightarrow> (Inl err, fs1)
              | Inr tmp \<Rightarrow>
                  (case mp_cache_storage_build_packet (at 1 e) storage magic payload_data empty_buffer of
                     (Inl err, _) \<Rightarrow> (Inl err, fs1)
                   | (Inr mac, packet) \<Rightarrow>
                       (case posix_open_write (ok 2 e) fs1 tmp of
                          (Inl err, fs2) \<Rightarrow> (Inl err, fs2)
                        | (Inr _, fs2) \<Rightarrow>
                            (case mp_cache_storage_write_all (at 3 e) fs2 tmp (buffer_bytes packet) of
                               (False, fs3) \<Rightarrow> (Inl EIO, snd (posix_unlink (ok 6 e) fs3 tmp))
                             | (True, fs3) \<Rightarrow>
                                 (case flush_and_close (at 4 e) fs3 tmp (buffer_bytes packet) of
                                    (False, fs4) \<Rightarrow> (Inl EIO, snd (posix_unlink (ok 6 e) fs4 tmp))
                                  | (True, fs4) \<Rightarrow>
                                      (case posix_rename (ok 5 e) fs4 tmp file_path of
                                         (Inr _, fs5) \<Rightarrow> (Inr mac, fs5)
                                       | (Inl err, fs5) \<Rightarrow>
                                           (Inl err, snd (posix_unlink (ok 6 e) fs5 tmp)))))))))) "

definition mp_cache_storage_append_packet ::
  "env \<Rightarrow> mp_cache_storage \<Rightarrow> filesystem \<Rightarrow> string \<Rightarrow> bytes \<Rightarrow> bytes ptr \<Rightarrow> bool \<times> filesystem" where
  "mp_cache_storage_append_packet e storage fs file_path magic payload_data =
     (if payload_data = None then (False, fs)
      else
        (case mp_cache_fs_ensure_parent_directory (at 0 e) fs (Some file_path) of
           (Inl _, fs1) \<Rightarrow> (False, fs1)
         | (Inr _, fs1) \<Rightarrow>
             (case mp_cache_storage_build_packet (at 1 e) storage magic payload_data empty_buffer of
                (Inl _, _) \<Rightarrow> (False, fs1)
              | (Inr _, packet) \<Rightarrow>
                  (case posix_open_append (ok 2 e) fs1 file_path of
                     (Inl _, fs2) \<Rightarrow> (False, fs2)
                   | (Inr _, fs2) \<Rightarrow>
                       (case mp_cache_storage_write_all (at 3 e) fs2 file_path (buffer_bytes packet) of
                          (False, fs3) \<Rightarrow> (False, fs3)
                        | (True, fs3) \<Rightarrow> flush_and_close (at 4 e) fs3 file_path (buffer_bytes packet))))))"

text \<open>
  The three results of reading: 1 when the stream is at its end (a read error on the first byte is
  taken for the end), -1 on an error, 0 with the payload and the MAC of the packet.
\<close>

datatype packet_read = PacketEnd | PacketError errno | Packet bytes bytes

definition mp_cache_storage_read_packet_stream ::
  "env \<Rightarrow> mp_cache_storage \<Rightarrow> bytes \<Rightarrow> bytes \<Rightarrow> packet_read \<times> bytes" where
  "mp_cache_storage_read_packet_stream e storage stream expected_magic =
     (if stream = [] \<or> \<not> ok 0 e then (PacketEnd, stream)
      else
        (case mp_cache_storage_read_exact (at 1 e) stream MP_CACHE_STORAGE_PACKET_HEADER_SIZE of
           Inl err \<Rightarrow> (PacketError err, [])
         | Inr (header, stream1) \<Rightarrow>
             if take 8 header \<noteq> take 8 expected_magic \<or> header ! 11 \<noteq> 1 then (PacketError EINVAL, stream1)
             else
               let payload_length = unat (push_bit 24 (ucast (header ! 12)) OR push_bit 16 (ucast (header ! 13)) OR
                                          push_bit 8 (ucast (header ! 14)) OR ucast (header ! 15) :: u64)
               in if payload_length > unat (max_packet_bytes storage) then (PacketError EOVERFLOW, stream1)
                  else if \<not> ok 2 e then (PacketError ENOMEM, stream1)
                  else if payload_length \<noteq> 0 \<and> \<not> ok 3 e \<or> length stream1 < payload_length
                  then (PacketError EINVAL, [])
                  else
                    let ciphertext = take payload_length stream1;
                        stream2 = drop payload_length stream1
                    in (case append_fields (at 4 e) empty_buffer
                            [Raw (take MP_CACHE_STORAGE_HEADER_MAC_OFFSET header), Raw ciphertext] of
                          (Inl err, _) \<Rightarrow> (PacketError err, stream2)
                        | (Inr _, mac_input) \<Rightarrow>
                            let computed_mac = mp_cache_hmac_sha256 (storage_key storage) (buffer_bytes mac_input);
                                mac = drop MP_CACHE_STORAGE_HEADER_MAC_OFFSET header
                            in if \<not> mp_cache_constant_time_equals (Some computed_mac) (Some mac) 32
                               then (PacketError EACCES, stream2)
                               else (Packet (mp_cache_stream_xor (storage_key storage)
                                              (take MP_CACHE_NONCE_SIZE (drop 16 header)) ciphertext) mac,
                                     stream2))))"

definition mp_cache_storage_read_packet_file ::
  "env \<Rightarrow> mp_cache_storage \<Rightarrow> filesystem \<Rightarrow> string \<Rightarrow> bytes \<Rightarrow> packet_read" where
  "mp_cache_storage_read_packet_file e storage fs file_path expected_magic =
     (case posix_open_read (ok 0 e) fs file_path of
        Inl err \<Rightarrow> (if err = ENOENT then PacketEnd else PacketError err)
      | Inr stream \<Rightarrow>
          (case mp_cache_storage_read_packet_stream (at 1 e) storage stream expected_magic of
             (Packet payload mac, rest) \<Rightarrow>
               if rest \<noteq> [] \<and> ok 2 e then PacketError EINVAL else Packet payload mac
           | (result, _) \<Rightarrow> result))"



section \<open>Fields\<close>

text \<open>What a field contributes to the buffer.\<close>

fun field_bytes :: "field \<Rightarrow> bytes" where
  "field_bytes (U32 v) = be_bytes 4 v"
| "field_bytes (U64 v) = be_bytes 8 v"
| "field_bytes (Raw bs) = bs"

abbreviation fields_bytes :: "field list \<Rightarrow> bytes" where
  "fields_bytes items \<equiv> concat (map field_bytes items)"

lemma be_bytes_4: "[ucast (drop_bit 24 v), ucast (drop_bit 16 v), ucast (drop_bit 8 v), ucast v] = be_bytes 4 (v :: 'a::len word)"
  by (simp add: be_bytes_def upt_rec)

lemma be_bytes_8: "rev (map (\<lambda>index. ucast (drop_bit (index * 8) v)) [0..<8]) = be_bytes 8 (v :: u64)"
  by (simp add: be_bytes_def rev_map mult.commute)

text \<open>A buffer never holds more bytes than its capacity: each append copies into reserved memory.\<close>

definition buffer_inv :: "mp_cache_buffer \<Rightarrow> bool" where
  "buffer_inv buffer \<longleftrightarrow> length (buffer_bytes buffer) \<le> buffer_capacity buffer \<and>
     length (buffer_bytes buffer) \<le> SIZE_MAX"

lemma grow_capacity_ge: "0 < cap \<Longrightarrow> needed \<le> grow_capacity cap needed"
proof (induction cap needed rule: grow_capacity.induct)
  case (1 cap needed)
  then show ?case
    by (subst grow_capacity.simps) auto
qed

lemma buffer_inv_empty [simp]: "buffer_inv empty_buffer"
  by (simp add: buffer_inv_def)

lemma reserve_result:
  assumes "mp_cache_buffer_reserve e buffer n = (r, buffer')" "buffer_inv buffer"
  shows "buffer_bytes buffer' = buffer_bytes buffer"
    and "buffer_inv buffer'"
    and "r = Inr u \<Longrightarrow> length (buffer_bytes buffer) + n \<le> buffer_capacity buffer' \<and> length (buffer_bytes buffer) + n \<le> SIZE_MAX"
proof -
  let ?need = "length (buffer_bytes buffer) + n"
  let ?start = "if buffer_capacity buffer = 0 then MP_CACHE_STORAGE_BUFFER_INITIAL_CAPACITY else buffer_capacity buffer"
  have grown: "?need \<le> grow_capacity ?start ?need"
    by (rule grow_capacity_ge) (simp add: MP_CACHE_STORAGE_BUFFER_INITIAL_CAPACITY_def)
  show "buffer_bytes buffer' = buffer_bytes buffer"
    using assms(1) by (auto simp: mp_cache_buffer_reserve_def Let_def split: if_splits)
  show "buffer_inv buffer'"
    using assms grown by (auto simp: mp_cache_buffer_reserve_def Let_def buffer_inv_def split: if_splits)
  show "?need \<le> buffer_capacity buffer' \<and> ?need \<le> SIZE_MAX" if "r = Inr u"
    using assms grown that by (auto simp: mp_cache_buffer_reserve_def Let_def buffer_inv_def split: if_splits)
qed

lemma append_result:
  assumes "mp_cache_buffer_append e buffer bs = (r, buffer')" "buffer_inv buffer"
  shows "buffer_bytes buffer' = buffer_bytes buffer @ (case r of Inr _ \<Rightarrow> bs | Inl _ \<Rightarrow> [])"
    and "buffer_inv buffer'"
proof -
  obtain r1 b1 where res: "mp_cache_buffer_reserve e buffer (length bs) = (r1, b1)"
    by (cases "mp_cache_buffer_reserve e buffer (length bs)")
  note facts = reserve_result [OF res assms(2)]
  show "buffer_bytes buffer' = buffer_bytes buffer @ (case r of Inr _ \<Rightarrow> bs | Inl _ \<Rightarrow> [])"
    using assms(1) res facts(1) by (auto simp: mp_cache_buffer_append_def split: sum.splits)
  show "buffer_inv buffer'"
  proof (cases r1)
    case (Inl err)
    with assms(1) res facts(2) show ?thesis
      by (simp add: mp_cache_buffer_append_def)
  next
    case (Inr u)
    with assms(1) res facts(1) facts(3) [OF Inr] show ?thesis
      by (auto simp: mp_cache_buffer_append_def buffer_inv_def)
  qed
qed

lemma append_field_append: "append_field e buffer f = mp_cache_buffer_append e buffer (field_bytes f)"
  by (cases f) (simp_all add: mp_cache_buffer_append_u32_def mp_cache_buffer_append_u64_def be_bytes_4 be_bytes_8)

lemma append_fields_result:
  assumes "append_fields e buffer items = (r, buffer')" "buffer_inv buffer"
  shows "buffer_inv buffer' \<and> (\<forall>u. r = Inr u \<longrightarrow> buffer_bytes buffer' = buffer_bytes buffer @ fields_bytes items)"
  using assms
proof (induction items arbitrary: buffer)
  case (Cons f items)
  obtain r1 b1 where f: "mp_cache_buffer_append (at (length items) e) buffer (field_bytes f) = (r1, b1)"
    by (cases "mp_cache_buffer_append (at (length items) e) buffer (field_bytes f)")
  note facts = append_result [OF f Cons.prems(2)]
  show ?case
  proof (cases r1)
    case (Inl err)
    with Cons.prems(1) f facts(2) show ?thesis by (auto simp: append_field_append)
  next
    case (Inr u)
    with Cons.prems(1) f have "append_fields e b1 items = (r, buffer')"
      by (simp add: append_field_append)
    from Cons.IH [OF this facts(2)] Inr facts(1) show ?thesis by auto
  qed
qed auto

lemma append_succeeds:
  assumes "all_ok e" "length (buffer_bytes buffer) + length bs \<le> SIZE_MAX"
  shows "\<exists>buffer'. mp_cache_buffer_append e buffer bs = (Inr (), buffer')"
proof -
  have "\<not> length bs > SIZE_MAX - length (buffer_bytes buffer)"
    using assms(2) by linarith
  then show ?thesis
    using assms(1) by (auto simp: mp_cache_buffer_append_def mp_cache_buffer_reserve_def Let_def env_simps)
qed

lemma append_fields_succeeds:
  assumes "all_ok e" "buffer_inv buffer" "length (buffer_bytes buffer) + length (fields_bytes items) \<le> SIZE_MAX"
  shows "\<exists>buffer'. append_fields e buffer items = (Inr (), buffer')"
  using assms(2,3)
proof (induction items arbitrary: buffer)
  case (Cons f items)
  have "length (buffer_bytes buffer) + length (field_bytes f) \<le> SIZE_MAX"
    using Cons.prems(2) by simp
  from append_succeeds [OF all_ok_at [OF assms(1)] this] obtain b1
    where f: "mp_cache_buffer_append (at (length items) e) buffer (field_bytes f) = (Inr (), b1)"
    by blast
  note facts = append_result [OF f Cons.prems(1)]
  have "length (buffer_bytes b1) + length (fields_bytes items) \<le> SIZE_MAX"
    using Cons.prems(2) facts(1) by simp
  from Cons.IH [OF facts(2) this] f show ?case
    by (simp add: append_field_append)
qed simp

lemma buffer_data_Some:
  "buffer_inv buffer \<Longrightarrow> buffer_bytes buffer \<noteq> [] \<Longrightarrow> buffer_data buffer = Some (buffer_bytes buffer)"
  by (cases "buffer_bytes buffer") (auto simp: buffer_inv_def buffer_data_def)


subsection \<open>Reading fields back\<close>

lemma consume_u32_be_value:
  "mp_cache_consume_u32 bs offset =
     (if offset > length bs \<or> length bs - offset < 4 then None else Some (be_value (take 4 (drop offset bs)), offset + 4))"
proof (cases "offset > length bs \<or> length bs - offset < 4")
  case False
  then have "take 4 (drop offset bs) = [bs ! offset, bs ! (offset + 1), bs ! (offset + 2), bs ! (offset + 3)]"
    by (intro nth_equalityI) (auto simp: less_Suc_eq numeral_eq_Suc)
  then have "be_value (take 4 (drop offset bs)) =
      (push_bit 24 (ucast (bs ! offset)) OR push_bit 16 (ucast (bs ! (offset + 1))) OR
       push_bit 8 (ucast (bs ! (offset + 2))) OR ucast (bs ! (offset + 3)) :: u32)"
    by (simp add: be_value_def push_bit_or or.assoc)
  with False show ?thesis by (simp add: mp_cache_consume_u32_def)
qed (simp add: mp_cache_consume_u32_def)

lemma consume_u64_be_value:
  "mp_cache_consume_u64 bs offset =
     (if offset > length bs \<or> length bs - offset < 8 then None else Some (be_value (take 8 (drop offset bs)), offset + 8))"
proof (cases "offset > length bs \<or> length bs - offset < 8")
  case False
  then have "take 8 (drop offset bs) = map (\<lambda>index. bs ! (offset + index)) [0..<8]"
    by (intro nth_equalityI) auto
  then have "be_value (take 8 (drop offset bs)) =
      (foldl (\<lambda>v index. push_bit 8 v OR ucast (bs ! (offset + index))) 0 [0..<8] :: u64)"
    by (simp only: be_value_def foldl_map)
  with False show ?thesis by (simp add: mp_cache_consume_u64_def)
qed (simp add: mp_cache_consume_u64_def)

lemma be_value_be_bytes_4 [simp]: "be_value (be_bytes 4 (v :: u32)) = v"
  by (simp add: be_value_be_bytes take_bit_word_eq_self)

lemma be_value_be_bytes_8 [simp]: "be_value (be_bytes 8 (v :: u64)) = v"
  by (simp add: be_value_be_bytes take_bit_word_eq_self)

lemma consume_u32_field [codec_simps]:
  "drop offset bs = be_bytes 4 v @ rest \<Longrightarrow> offset \<le> length bs \<Longrightarrow>
     mp_cache_consume_u32 bs offset = Some (v, offset + 4)"
  using length_drop [of offset bs] by (auto simp: consume_u32_be_value)

lemma consume_u64_field [codec_simps]:
  "drop offset bs = be_bytes 8 v @ rest \<Longrightarrow> offset \<le> length bs \<Longrightarrow>
     mp_cache_consume_u64 bs offset = Some (v, offset + 8)"
  using length_drop [of offset bs] by (auto simp: consume_u64_be_value)

lemma consume_bytes_field [codec_simps]:
  "drop offset bs = v @ rest \<Longrightarrow> offset \<le> length bs \<Longrightarrow> n = length v \<Longrightarrow>
     mp_cache_consume_bytes bs offset n = Some (v, offset + n)"
  using length_drop [of offset bs] by (auto simp: mp_cache_consume_bytes_def)


section \<open>The packet format\<close>

text \<open>The bytes of a packet: the header with its MAC, then the ciphertext.\<close>

definition packet_mac :: "mp_cache_storage \<Rightarrow> bytes \<Rightarrow> bytes \<Rightarrow> bytes \<Rightarrow> bytes" where
  "packet_mac storage magic nonce payload =
     mp_cache_hmac_sha256 (storage_key storage)
       (packet_header_prefix magic (length payload) nonce @ mp_cache_stream_xor (storage_key storage) nonce payload)"

definition packet_bytes :: "mp_cache_storage \<Rightarrow> bytes \<Rightarrow> bytes \<Rightarrow> bytes \<Rightarrow> bytes" where
  "packet_bytes storage magic nonce payload =
     packet_header_prefix magic (length payload) nonce @ packet_mac storage magic nonce payload @
     mp_cache_stream_xor (storage_key storage) nonce payload"

lemma length_stream_xor [simp]: "length (mp_cache_stream_xor k nonce bs) = length bs"
  by (simp add: mp_cache_stream_xor_def)

lemma length_packet_header_prefix:
  "length magic = 8 \<Longrightarrow> length nonce = 16 \<Longrightarrow> length (packet_header_prefix magic n nonce) = 32"
  by (simp add: packet_header_prefix_def Let_def)

lemma length_packet_mac [simp]: "length (packet_mac storage magic nonce payload) = 32"
  by (simp add: packet_mac_def)

lemma length_packet_bytes:
  "length magic = 8 \<Longrightarrow> length nonce = 16 \<Longrightarrow> length (packet_bytes storage magic nonce payload) = 64 + length payload"
  by (simp add: packet_bytes_def length_packet_header_prefix)

lemma length_magics [simp]:
  "length MP_CACHE_STORAGE_STATE_MAGIC = 8" "length MP_CACHE_STORAGE_JOURNAL_MAGIC = 8"
  "length MP_CACHE_STORAGE_EXPORT_MAGIC = 8"
  by (simp_all add: MP_CACHE_STORAGE_STATE_MAGIC_def MP_CACHE_STORAGE_JOURNAL_MAGIC_def MP_CACHE_STORAGE_EXPORT_MAGIC_def)

lemma build_packet_result:
  assumes "mp_cache_storage_build_packet e storage magic (Some payload) buffer = (Inr mac, buffer')" "buffer_inv buffer"
  shows "\<exists>nonce. length nonce = 16 \<and> length payload \<le> unat (max_packet_bytes storage) \<and>
    mac = packet_mac storage magic nonce payload \<and>
    buffer_bytes buffer' = buffer_bytes buffer @ packet_bytes storage magic nonce payload"
proof -
  from assms(1) obtain nonce where nonce: "mp_cache_random_bytes (at 0 e) MP_CACHE_NONCE_SIZE = Inr nonce"
    by (auto simp: mp_cache_storage_build_packet_def split: if_splits sum.splits)
  let ?ct = "mp_cache_stream_xor (storage_key storage) nonce payload"
  let ?prefix = "packet_header_prefix magic (length payload) nonce"
  obtain r1 b1 where mi: "append_fields (at 2 e) empty_buffer [Raw ?prefix, Raw ?ct] = (r1, b1)"
    by (cases "append_fields (at 2 e) empty_buffer [Raw ?prefix, Raw ?ct]")
  with assms(1) nonce have fits: "length payload \<le> unat (max_packet_bytes storage)"
    and r1: "\<exists>u. r1 = Inr u"
    by (auto simp: mp_cache_storage_build_packet_def Let_def split: if_splits sum.splits)
  from r1 append_fields_result [OF mi buffer_inv_empty] have b1: "buffer_bytes b1 = ?prefix @ ?ct"
    by auto
  then have mac_eq: "mp_cache_hmac_sha256 (storage_key storage) (buffer_bytes b1) = packet_mac storage magic nonce payload"
    by (simp add: packet_mac_def)
  obtain r2 b2 where out: "append_fields (at 3 e) buffer
      [Raw (?prefix @ packet_mac storage magic nonce payload), Raw ?ct] = (r2, b2)"
    by (cases "append_fields (at 3 e) buffer [Raw (?prefix @ packet_mac storage magic nonce payload), Raw ?ct]")
  with assms(1) nonce mi r1 mac_eq fits have "\<exists>u. r2 = Inr u" "b2 = buffer'" "mac = packet_mac storage magic nonce payload"
    by (auto simp: mp_cache_storage_build_packet_def Let_def split: if_splits sum.splits simp del: append_fields.simps)
  with append_fields_result [OF out assms(2)]
  have "buffer_bytes buffer' = buffer_bytes buffer @ packet_bytes storage magic nonce payload"
    by (auto simp: packet_bytes_def)
  with random_bytes_length [OF nonce] fits \<open>mac = _\<close> show ?thesis
    by (auto simp: MP_CACHE_NONCE_SIZE_def)
qed

lemma build_packet_succeeds:
  assumes "all_ok e" "mp_cache_random_bytes (at 0 e) MP_CACHE_NONCE_SIZE = Inr nonce"
    and "length payload \<le> unat (max_packet_bytes storage)" "length magic = 8" "length payload < 2 ^ 63"
  shows "\<exists>buffer'. mp_cache_storage_build_packet e storage magic (Some payload) empty_buffer =
    (Inr (packet_mac storage magic nonce payload), buffer')"
proof -
  let ?ct = "mp_cache_stream_xor (storage_key storage) nonce payload"
  let ?prefix = "packet_header_prefix magic (length payload) nonce"
  have nonce_length: "length nonce = 16"
    using random_bytes_length [OF assms(2)] by (simp add: MP_CACHE_NONCE_SIZE_def)
  have prefix_length: "length ?prefix = 32"
    using assms(4) nonce_length by (simp add: length_packet_header_prefix)
  have small: "length (buffer_bytes empty_buffer) + length (fields_bytes [Raw ?prefix, Raw ?ct]) \<le> SIZE_MAX"
    "length (buffer_bytes empty_buffer) +
       length (fields_bytes [Raw (?prefix @ packet_mac storage magic nonce payload), Raw ?ct]) \<le> SIZE_MAX"
    using assms(5) prefix_length by (simp_all add: SIZE_MAX_def)
  from append_fields_succeeds [OF all_ok_at [OF assms(1)] buffer_inv_empty small(1), of 2] obtain b1
    where mi: "append_fields (at 2 e) empty_buffer [Raw ?prefix, Raw ?ct] = (Inr (), b1)" by blast
  have "buffer_bytes b1 = ?prefix @ ?ct"
    using append_fields_result [OF mi buffer_inv_empty] by simp
  then have mac_eq: "mp_cache_hmac_sha256 (storage_key storage) (buffer_bytes b1) = packet_mac storage magic nonce payload"
    by (simp add: packet_mac_def)
  from append_fields_succeeds [OF all_ok_at [OF assms(1)] buffer_inv_empty small(2), of 3] obtain b2
    where out: "append_fields (at 3 e) empty_buffer
      [Raw (?prefix @ packet_mac storage magic nonce payload), Raw ?ct] = (Inr (), b2)" by blast
  show ?thesis
    using assms(1-3) mi out mac_eq
    by (simp add: mp_cache_storage_build_packet_def Let_def env_simps del: append_fields.simps)
qed

text \<open>The length field of the header, read back.\<close>

lemma be_bytes_4_length:
  assumes "n < 2 ^ 32"
  shows "unat (push_bit 24 (ucast (ucast (drop_bit 24 (of_nat n :: u64)) :: byte)) OR
    push_bit 16 (ucast (ucast (drop_bit 16 (of_nat n :: u64)) :: byte)) OR
    push_bit 8 (ucast (ucast (drop_bit 8 (of_nat n :: u64)) :: byte)) OR ucast (ucast (of_nat n :: u64) :: byte) :: u64) = n"
proof -
  have whole: "push_bit 24 (ucast (ucast (drop_bit 24 w) :: byte)) OR push_bit 16 (ucast (ucast (drop_bit 16 w) :: byte)) OR
      push_bit 8 (ucast (ucast (drop_bit 8 w) :: byte)) OR ucast (ucast w :: byte) = take_bit 32 w" for w :: u64
    using be_value_be_bytes [of 4 w, folded be_bytes_4] by (simp add: be_value_def push_bit_or or.assoc)
  show ?thesis
    unfolding whole using assms by (simp add: unsigned_take_bit_eq unsigned_of_nat take_bit_nat_eq_self)
qed

lemma read_packet_bytes:
  assumes "all_ok e" "length magic = 8" "length nonce = 16" "length payload \<le> unat (max_packet_bytes storage)"
    and "length payload < 2 ^ 32"
  shows "mp_cache_storage_read_packet_stream e storage (packet_bytes storage magic nonce payload @ rest) magic =
    (Packet payload (packet_mac storage magic nonce payload), rest)"
proof -
  let ?ct = "mp_cache_stream_xor (storage_key storage) nonce payload"
  let ?prefix = "packet_header_prefix magic (length payload) nonce"
  let ?mac = "packet_mac storage magic nonce payload"
  let ?header = "?prefix @ ?mac"
  have header: "length ?header = 64" "length ?prefix = 32" "take 32 ?header = ?prefix" "drop 32 ?header = ?mac"
    using assms(2,3) by (simp_all add: length_packet_header_prefix)
  have parts: "take 8 ?header = magic" "?header ! 11 = 1" "take 16 (drop 16 ?header) = nonce"
    "?header ! 12 = ucast (drop_bit 24 (of_nat (length payload) :: u64))"
    "?header ! 13 = ucast (drop_bit 16 (of_nat (length payload) :: u64))"
    "?header ! 14 = ucast (drop_bit 8 (of_nat (length payload) :: u64))"
    "?header ! 15 = ucast (of_nat (length payload) :: u64)"
    using assms(2,3) by (simp_all add: packet_header_prefix_def Let_def nth_append numeral_eq_Suc)
  have stream: "packet_bytes storage magic nonce payload @ rest = ?header @ ?ct @ rest"
    by (simp add: packet_bytes_def)
  have len: "unat (push_bit 24 (ucast (?header ! 12)) OR push_bit 16 (ucast (?header ! 13)) OR
      push_bit 8 (ucast (?header ! 14)) OR ucast (?header ! 15) :: u64) = length payload"
    unfolding parts by (rule be_bytes_4_length [OF assms(5)])
  have "length (buffer_bytes empty_buffer) + length (fields_bytes [Raw ?prefix, Raw ?ct]) \<le> SIZE_MAX"
    using assms(5) header(2) by (simp add: SIZE_MAX_def)
  from append_fields_succeeds [OF all_ok_at [OF assms(1)] buffer_inv_empty this, of 4] obtain b1
    where mi: "append_fields (at 4 e) empty_buffer [Raw ?prefix, Raw ?ct] = (Inr (), b1)" by blast
  have b1: "buffer_bytes b1 = ?prefix @ ?ct"
    using append_fields_result [OF mi buffer_inv_empty] by simp
  have eq: "mp_cache_constant_time_equals (Some (mp_cache_hmac_sha256 (storage_key storage) (buffer_bytes b1)))
      (Some ?mac) 32"
    by (simp add: b1 packet_mac_def constant_time_equals_iff)
  have cancel: "mp_cache_stream_xor (storage_key storage) nonce ?ct = payload"
    by (simp add: mp_cache_stream_xor_def stream_xor_loop_cancel)
  have read: "mp_cache_storage_read_exact (at 1 e) (?header @ ?ct @ rest) MP_CACHE_STORAGE_PACKET_HEADER_SIZE =
      Inr (?header, ?ct @ rest)"
    using header(1) assms(1)
    by (simp add: mp_cache_storage_read_exact_def MP_CACHE_STORAGE_PACKET_HEADER_SIZE_def env_simps)
  have "?header @ ?ct @ rest \<noteq> []"
    using header(1) by auto
  then show ?thesis
    unfolding stream
    using assms(1,4) mi read parts(1-3) len eq cancel header(3,4) assms(2)
    by (simp add: mp_cache_storage_read_packet_stream_def Let_def env_simps MP_CACHE_NONCE_SIZE_def
        MP_CACHE_STORAGE_HEADER_MAC_OFFSET_def del: append_fields.simps append_assoc)
qed


text \<open>Whatever the stream holds, an accepted packet is authentic under the storage key.\<close>

lemma read_packet_accepted:
  assumes "mp_cache_storage_read_packet_stream e storage stream magic = (Packet payload mac, rest)"
  shows "\<exists>header ciphertext. stream = header @ ciphertext @ rest \<and> length header = 64 \<and>
    length ciphertext \<le> unat (max_packet_bytes storage) \<and> take 8 header = take 8 magic \<and> header ! 11 = 1 \<and>
    mac = drop 32 header \<and> mac = mp_cache_hmac_sha256 (storage_key storage) (take 32 header @ ciphertext) \<and>
    payload = mp_cache_stream_xor (storage_key storage) (take 16 (drop 16 header)) ciphertext"
proof -
  from assms obtain header stream1
    where read: "mp_cache_storage_read_exact (at 1 e) stream MP_CACHE_STORAGE_PACKET_HEADER_SIZE = Inr (header, stream1)"
    by (auto simp: mp_cache_storage_read_packet_stream_def split: if_splits sum.splits)
  then have header: "stream = header @ stream1" "length header = 64"
    by (auto simp: mp_cache_storage_read_exact_def MP_CACHE_STORAGE_PACKET_HEADER_SIZE_def split: if_splits)
  define n where "n = unat (push_bit 24 (ucast (header ! 12)) OR push_bit 16 (ucast (header ! 13)) OR
    push_bit 8 (ucast (header ! 14)) OR ucast (header ! 15) :: u64)"
  define b where "b = append_fields (at 4 e) empty_buffer [Raw (take 32 header), Raw (take n stream1)]"
  have accepted: "take 8 header = take 8 magic \<and> header ! 11 = 1 \<and> n \<le> unat (max_packet_bytes storage) \<and>
      n \<le> length stream1 \<and> (\<exists>u. fst b = Inr u) \<and> rest = drop n stream1 \<and> mac = drop 32 header \<and>
      mp_cache_constant_time_equals (Some (mp_cache_hmac_sha256 (storage_key storage) (buffer_bytes (snd b))))
        (Some (drop 32 header)) 32 \<and>
      payload = mp_cache_stream_xor (storage_key storage) (take 16 (drop 16 header)) (take n stream1)"
    using assms read
    by (auto simp: mp_cache_storage_read_packet_stream_def Let_def MP_CACHE_STORAGE_HEADER_MAC_OFFSET_def
        MP_CACHE_NONCE_SIZE_def n_def [symmetric] b_def [symmetric] simp del: append_fields.simps
        split: if_splits sum.splits prod.splits)
  obtain r b' where b': "b = (r, b')"
    by (cases b)
  with accepted append_fields_result [OF b' [unfolded b_def] buffer_inv_empty]
  have "buffer_bytes b' = take 32 header @ take n stream1"
    by auto
  with accepted header b' show ?thesis
    by (intro exI [of _ header] exI [of _ "take n stream1"]) (auto simp: constant_time_equals_iff)
qed

lemma read_packet_shorter:
  "mp_cache_storage_read_packet_stream e storage stream magic = (Packet payload mac, rest) \<Longrightarrow>
     length rest + 64 \<le> length stream"
  by (drule read_packet_accepted) auto

text \<open>A packet cut off anywhere, but not to nothing, is an error.\<close>

lemma read_packet_truncated:
  assumes "all_ok e" "length magic = 8" "length nonce = 16" "length payload \<le> unat (max_packet_bytes storage)"
    and "length payload < 2 ^ 32" "0 < k" "k < length (packet_bytes storage magic nonce payload)"
  shows "fst (mp_cache_storage_read_packet_stream e storage (take k (packet_bytes storage magic nonce payload)) magic) =
    PacketError EINVAL"
proof -
  let ?ct = "mp_cache_stream_xor (storage_key storage) nonce payload"
  let ?prefix = "packet_header_prefix magic (length payload) nonce"
  let ?mac = "packet_mac storage magic nonce payload"
  let ?header = "?prefix @ ?mac"
  have header: "length ?header = 64" "length ?prefix = 32"
    using assms(2,3) by (simp_all add: length_packet_header_prefix)
  have packet: "packet_bytes storage magic nonce payload = ?header @ ?ct"
    by (simp add: packet_bytes_def)
  have nonempty: "take k (packet_bytes storage magic nonce payload) \<noteq> []"
    using assms(6,7) by auto
  show ?thesis
  proof (cases "k < 64")
    case True
    then show ?thesis
      using assms(1,7) nonempty
      by (simp add: mp_cache_storage_read_packet_stream_def mp_cache_storage_read_exact_def
          MP_CACHE_STORAGE_PACKET_HEADER_SIZE_def env_simps)
  next
    case False
    then have cut: "take k (packet_bytes storage magic nonce payload) = ?header @ take (k - 64) ?ct"
      using header(1) by (simp add: packet del: append_assoc)
    have parts: "take 8 ?header = magic" "?header ! 11 = 1"
      "?header ! 12 = ucast (drop_bit 24 (of_nat (length payload) :: u64))"
      "?header ! 13 = ucast (drop_bit 16 (of_nat (length payload) :: u64))"
      "?header ! 14 = ucast (drop_bit 8 (of_nat (length payload) :: u64))"
      "?header ! 15 = ucast (of_nat (length payload) :: u64)"
      using assms(2,3) by (simp_all add: packet_header_prefix_def Let_def nth_append numeral_eq_Suc)
    have len: "unat (push_bit 24 (ucast (?header ! 12)) OR push_bit 16 (ucast (?header ! 13)) OR
        push_bit 8 (ucast (?header ! 14)) OR ucast (?header ! 15) :: u64) = length payload"
      unfolding parts by (rule be_bytes_4_length [OF assms(5)])
    have read: "mp_cache_storage_read_exact (at 1 e) (?header @ take (k - 64) ?ct) MP_CACHE_STORAGE_PACKET_HEADER_SIZE =
        Inr (?header, take (k - 64) ?ct)"
      using header(1) assms(1)
      by (simp add: mp_cache_storage_read_exact_def MP_CACHE_STORAGE_PACKET_HEADER_SIZE_def env_simps)
    have short: "k - 64 < length payload"
      using False assms(7) header(1) by (simp add: packet del: append_assoc)
    show ?thesis
      using assms(1,2,4) nonempty read parts(1,2) len short unfolding cut
      by (simp add: mp_cache_storage_read_packet_stream_def Let_def env_simps del: append_assoc)
  qed
qed


section \<open>Files\<close>

lemma write_all_contents:
  "mp_cache_storage_write_all e fs path bs = (r, fs') \<Longrightarrow> path' \<noteq> path \<Longrightarrow> file_contents fs' path' = file_contents fs path'"
  by (auto simp: mp_cache_storage_write_all_def file_contents_posix_write split: if_splits)

lemma flush_and_close_contents:
  "flush_and_close e fs path bs = (r, fs') \<Longrightarrow> path' \<noteq> path \<Longrightarrow> file_contents fs' path' = file_contents fs path'"
  by (auto simp: flush_and_close_def file_contents_posix_write split: if_splits)

lemma unlink_contents:
  "path' \<noteq> path \<Longrightarrow> file_contents (snd (posix_unlink succ fs path)) path' = file_contents fs path'"
  by (auto simp: posix_unlink_def split: option.splits node.splits)

lemma open_write_contents:
  "posix_open_write succ fs path = (r, fs') \<Longrightarrow> path' \<noteq> path \<Longrightarrow> file_contents fs' path' = file_contents fs path'"
  by (auto simp: posix_open_write_def split: if_splits)

lemma open_append_contents:
  "posix_open_append succ fs path = (r, fs') \<Longrightarrow>
     file_contents fs' path' =
       (if path' = path \<and> r = Inr () then Some (case file_contents fs path of None \<Rightarrow> [] | Some bs \<Rightarrow> bs)
        else file_contents fs path')"
  by (auto simp: posix_open_append_def file_contents_def update_conv' split: if_splits option.splits node.splits)

lemma rename_contents:
  assumes "posix_rename succ fs old new = (r, fs')" "old \<noteq> new"
  shows "r = Inr u \<Longrightarrow> file_contents fs' new = file_contents fs old"
    and "path' \<noteq> old \<Longrightarrow> path' \<noteq> new \<Longrightarrow> file_contents fs' path' = file_contents fs path'"
    and "r = Inl err \<Longrightarrow> fs' = fs"
  using assms by (auto simp: posix_rename_def file_contents_def update_conv' delete_conv' split: option.splits if_splits)

lemma temp_path_neq [simp]: "temp_path e path \<noteq> path" "path \<noteq> temp_path e path"
  by (simp_all add: temp_path_def)

text \<open>
  A packet file is replaced as a whole or not at all: on success it holds exactly one packet with the
  payload, on failure it has its old contents; no other file changes, the temporary one apart.
\<close>

lemma write_packet_file_result:
  assumes "mp_cache_storage_write_packet_file e storage fs path magic (Some payload) = (r, fs')"
  shows "r = Inr mac \<Longrightarrow> \<exists>nonce. length nonce = 16 \<and> length payload \<le> unat (max_packet_bytes storage) \<and>
      mac = packet_mac storage magic nonce payload \<and>
      file_contents fs' path = Some (packet_bytes storage magic nonce payload)"
    and "r = Inl err \<Longrightarrow> file_contents fs' path = file_contents fs path"
    and "path' \<noteq> path \<Longrightarrow> path' \<noteq> temp_path e path \<Longrightarrow> file_contents fs' path' = file_contents fs path'"
proof -
  obtain r1 fs1 where parent: "mp_cache_fs_ensure_parent_directory (at 0 e) fs (Some path) = (r1, fs1)"
    by (cases "mp_cache_fs_ensure_parent_directory (at 0 e) fs (Some path)")
  have fs1: "file_contents fs1 p = file_contents fs p" for p
    by (rule grows_file_contents [OF ensure_parent_directory_grows [OF parent]])
  show "file_contents fs' path' = file_contents fs path'" if "path' \<noteq> path" "path' \<noteq> temp_path e path"
    using assms parent that fs1
    by (auto simp: mp_cache_storage_write_packet_file_def mp_cache_storage_format_path_def unlink_contents
        split: if_splits sum.splits prod.splits bool.splits
        dest!: write_all_contents [OF _ that(2)] flush_and_close_contents [OF _ that(2)]
          open_write_contents [OF _ that(2)] rename_contents(2) [OF _ temp_path_neq(1) that(2,1)])
  show "file_contents fs' path = file_contents fs path" if "r = Inl err"
    using assms parent that fs1
    by (auto simp: mp_cache_storage_write_packet_file_def mp_cache_storage_format_path_def unlink_contents
        split: if_splits sum.splits prod.splits bool.splits
        dest!: write_all_contents [OF _ temp_path_neq(2)] flush_and_close_contents [OF _ temp_path_neq(2)]
          open_write_contents [OF _ temp_path_neq(2)] rename_contents(3) [OF _ temp_path_neq(1) refl])
  assume r: "r = Inr mac"
  with assms parent obtain packet fs2 fs3 fs4
    where build: "mp_cache_storage_build_packet (at 1 e) storage magic (Some payload) empty_buffer = (Inr mac, packet)"
      and "open": "posix_open_write (ok 2 e) fs1 (temp_path e path) = (Inr (), fs2)"
      and all: "mp_cache_storage_write_all (at 3 e) fs2 (temp_path e path) (buffer_bytes packet) = (True, fs3)"
      and flush: "flush_and_close (at 4 e) fs3 (temp_path e path) (buffer_bytes packet) = (True, fs4)"
      and rename: "posix_rename (ok 5 e) fs4 (temp_path e path) path = (Inr (), fs')"
    by (auto simp: mp_cache_storage_write_packet_file_def mp_cache_storage_format_path_def
        split: if_splits sum.splits prod.splits bool.splits)
  from "open" have "file_contents fs2 (temp_path e path) = Some []"
    by (auto simp: posix_open_write_def split: if_splits)
  with all flush have "file_contents fs4 (temp_path e path) = Some (buffer_bytes packet)"
    by (auto simp: mp_cache_storage_write_all_def flush_and_close_def file_contents_posix_write split: if_splits)
  with rename_contents(1) [OF rename] have "file_contents fs' path = Some (buffer_bytes packet)"
    by simp
  with build_packet_result [OF build] show "\<exists>nonce. length nonce = 16 \<and> length payload \<le> unat (max_packet_bytes storage) \<and>
      mac = packet_mac storage magic nonce payload \<and>
      file_contents fs' path = Some (packet_bytes storage magic nonce payload)"
    by auto
qed

text \<open>Appending adds one whole packet, or fails and leaves a prefix of a packet behind.\<close>

lemma append_packet_result:
  assumes "mp_cache_storage_append_packet e storage fs path magic (Some payload) = (r, fs')"
  defines "old \<equiv> (case file_contents fs path of None \<Rightarrow> [] | Some bs \<Rightarrow> bs)"
  shows "r \<Longrightarrow> \<exists>nonce. length nonce = 16 \<and> length payload \<le> unat (max_packet_bytes storage) \<and>
      file_contents fs' path = Some (old @ packet_bytes storage magic nonce payload)"
    and "\<not> r \<Longrightarrow> file_contents fs' path = file_contents fs path \<or>
      (\<exists>nonce k. length nonce = 16 \<and> file_contents fs' path = Some (old @ take k (packet_bytes storage magic nonce payload)))"
    and "path' \<noteq> path \<Longrightarrow> file_contents fs' path' = file_contents fs path'"
proof -
  obtain r1 fs1 where parent: "mp_cache_fs_ensure_parent_directory (at 0 e) fs (Some path) = (r1, fs1)"
    by (cases "mp_cache_fs_ensure_parent_directory (at 0 e) fs (Some path)")
  have fs1: "file_contents fs1 p = file_contents fs p" for p
    by (rule grows_file_contents [OF ensure_parent_directory_grows [OF parent]])
  obtain r2 packet where build: "mp_cache_storage_build_packet (at 1 e) storage magic (Some payload) empty_buffer = (r2, packet)"
    by (cases "mp_cache_storage_build_packet (at 1 e) storage magic (Some payload) empty_buffer")
  obtain r3 fs2 where "open": "posix_open_append (ok 2 e) fs1 path = (r3, fs2)"
    by (cases "posix_open_append (ok 2 e) fs1 path")
  note contents = open_append_contents [OF "open", unfolded fs1]
  show "file_contents fs' path' = file_contents fs path'" if "path' \<noteq> path"
    using assms(1) parent build "open" contents [of path'] that fs1
    by (auto simp: mp_cache_storage_append_packet_def
        split: if_splits sum.splits prod.splits bool.splits
        dest!: write_all_contents [OF _ that] flush_and_close_contents [OF _ that])
  show "\<exists>nonce. length nonce = 16 \<and> length payload \<le> unat (max_packet_bytes storage) \<and>
      file_contents fs' path = Some (old @ packet_bytes storage magic nonce payload)" if r
  proof -
    from that assms(1) parent build "open" obtain mac where "r2 = Inr mac" "r3 = Inr ()"
      and out: "file_contents fs' path = Some (old @ buffer_bytes packet)"
      using contents [of path]
      by (auto simp: mp_cache_storage_append_packet_def mp_cache_storage_write_all_def flush_and_close_def
          file_contents_posix_write old_def split: if_splits sum.splits prod.splits bool.splits)
    with build_packet_result [of "at 1 e" storage magic payload empty_buffer mac packet] build show ?thesis
      by auto
  qed
  show "file_contents fs' path = file_contents fs path \<or>
      (\<exists>nonce k. length nonce = 16 \<and> file_contents fs' path = Some (old @ take k (packet_bytes storage magic nonce payload)))"
    if "\<not> r"
  proof (cases "r1 = Inr () \<and> (\<exists>mac. r2 = Inr mac) \<and> r3 = Inr ()")
    case False
    with assms(1) parent build "open" contents [of path] fs1 show ?thesis
      by (auto simp: mp_cache_storage_append_packet_def split: if_splits sum.splits prod.splits bool.splits)
  next
    case True
    then obtain mac nonce where "r2 = Inr mac" "length nonce = 16"
      "buffer_bytes packet = packet_bytes storage magic nonce payload"
      using build_packet_result [of "at 1 e" storage magic payload empty_buffer _ packet] build by auto
    moreover have "\<exists>k. file_contents fs' path = Some (old @ take k (buffer_bytes packet))"
      using that True assms(1) parent build "open" contents [of path]
      by (auto simp: mp_cache_storage_append_packet_def mp_cache_storage_write_all_def flush_and_close_def
          file_contents_posix_write old_def intro: exI [of _ "length (buffer_bytes packet)"]
          split: if_splits sum.splits prod.splits bool.splits)
    ultimately show ?thesis by auto
  qed
qed


section \<open>Properties\<close>

definition sample_storage :: mp_cache_storage where
  "sample_storage =
     \<lparr>storage_checkpoint_path = ''/d/state'', storage_journal_path = ''/d/journal'',
      storage_export_directory = ''/d/exports'', storage_key = replicate 32 7, max_packet_bytes = 16778216,
      storage_max_export_files = 16\<rparr>"

lemma zero_env_random: "n \<le> 32 \<Longrightarrow> mp_cache_random_bytes (at k zero_env) n = Inr (replicate n 0)"
  by (simp add: mp_cache_random_bytes_def env_simps all_ok_zero_env) (simp add: zero_env_def min_absorb1)



text \<open>
  Property C13. Only authentic packets are accepted, whatever the stream holds and whichever calls
  fail: an accepted packet starts with the expected magic and version, its MAC field is the HMAC under
  the storage key of the first 32 header bytes and the ciphertext, its length is within the limit, and
  the payload is the decryption of that ciphertext. So header, length, nonce and ciphertext cannot be
  changed under the same MAC field without a collision of the HMAC.
\<close>

theorem packet_accepted_authentic:
  assumes "mp_cache_storage_read_packet_stream e storage stream magic = (Packet payload mac, rest)"
  shows "\<exists>header ciphertext. stream = header @ ciphertext @ rest \<and> length header = 64 \<and>
    length ciphertext \<le> unat (max_packet_bytes storage) \<and> take 8 header = take 8 magic \<and> header ! 11 = 1 \<and>
    mac = drop 32 header \<and> mac = mp_cache_hmac_sha256 (storage_key storage) (take 32 header @ ciphertext) \<and>
    payload = mp_cache_stream_xor (storage_key storage) (take 16 (drop 16 header)) ciphertext"
  by (rule read_packet_accepted [OF assms])

theorem packet_accepted_authentic_witness:
  "let stream = packet_bytes sample_storage MP_CACHE_STORAGE_STATE_MAGIC (replicate 16 3) [1, 2, 3] in
   \<exists>mac header ciphertext.
     mp_cache_storage_read_packet_stream good_env sample_storage (stream @ [4]) MP_CACHE_STORAGE_STATE_MAGIC =
       (Packet [1, 2, 3] mac, [4]) \<and>
     stream @ [4] = header @ ciphertext @ [4] \<and>
     mac = mp_cache_hmac_sha256 (storage_key sample_storage) (take 32 header @ ciphertext)"
proof -
  have read: "mp_cache_storage_read_packet_stream good_env sample_storage
      (packet_bytes sample_storage MP_CACHE_STORAGE_STATE_MAGIC (replicate 16 3) [1, 2, 3] @ [4])
      MP_CACHE_STORAGE_STATE_MAGIC =
      (Packet [1, 2, 3] (packet_mac sample_storage MP_CACHE_STORAGE_STATE_MAGIC (replicate 16 3) [1, 2, 3]), [4])"
    by (rule read_packet_bytes) (simp_all add: sample_storage_def)
  then show ?thesis
    using packet_accepted_authentic [OF read] unfolding Let_def by blast
qed

text \<open>
  Property C12. A packet file is replaced atomically. When the write reports success the file holds
  exactly one packet with the payload; when it reports an error, at whatever step, the file has its old
  contents; no other file is touched except the temporary one.
\<close>

theorem write_packet_file_atomic:
  assumes "mp_cache_storage_write_packet_file e storage fs path magic (Some payload) = (r, fs')"
  shows "(case r of
      Inr mac \<Rightarrow> (\<exists>nonce. length nonce = 16 \<and> mac = packet_mac storage magic nonce payload \<and>
        file_contents fs' path = Some (packet_bytes storage magic nonce payload))
    | Inl _ \<Rightarrow> file_contents fs' path = file_contents fs path) \<and>
    (\<forall>path'. path' \<noteq> path \<and> path' \<noteq> temp_path e path \<longrightarrow> file_contents fs' path' = file_contents fs path')"
proof (cases r)
  case (Inl err)
  then show ?thesis
    using write_packet_file_result(2) [OF assms Inl] write_packet_file_result(3) [OF assms] by auto
next
  case (Inr mac)
  then show ?thesis
    using write_packet_file_result(1) [OF assms Inr] write_packet_file_result(3) [OF assms] by auto
qed

theorem write_packet_file_atomic_witness:
  "let fs = [(''/d'', Directory), (''/d/state'', RegularFile [5])];
       (r, fs') = mp_cache_storage_write_packet_file (zero_env\<lparr>succeeds := (\<lambda>p. p \<noteq> [5])\<rparr>) sample_storage fs
         ''/d/state'' MP_CACHE_STORAGE_STATE_MAGIC (Some [1, 2, 3])
   in file_contents fs' ''/d/state'' = Some [5] \<or>
      (\<exists>nonce. file_contents fs' ''/d/state'' =
         Some (packet_bytes sample_storage MP_CACHE_STORAGE_STATE_MAGIC nonce [1, 2, 3]))"
proof -
  define fs where "fs = [(''/d'', Directory), (''/d/state'', RegularFile [5])]"
  obtain r fs' where w: "mp_cache_storage_write_packet_file (zero_env\<lparr>succeeds := (\<lambda>p. p \<noteq> [5])\<rparr>) sample_storage fs
      ''/d/state'' MP_CACHE_STORAGE_STATE_MAGIC (Some [1, 2, 3]) = (r, fs')"
    by (cases "mp_cache_storage_write_packet_file (zero_env\<lparr>succeeds := (\<lambda>p. p \<noteq> [5])\<rparr>) sample_storage fs
      ''/d/state'' MP_CACHE_STORAGE_STATE_MAGIC (Some [1, 2, 3])")
  have "file_contents fs ''/d/state'' = Some [5]"
    by (simp add: fs_def file_contents_def)
  with write_packet_file_atomic [OF w] w show ?thesis
    unfolding fs_def [symmetric] Let_def by (auto split: sum.splits)
qed

end
