(* ===== verification/Config.thy ===== *)
theory Config
  imports Platform
begin

text \<open>
  Model of \<^verbatim>\<open>internal/config/config.c\<close>: the configuration record, the parsers of single
  values, the table of sections and keys, validation, the compiled defaults, loading a file line by
  line, and the two printers (the commented template and the diagnostic dump). A text field holds the
  characters before the terminator of its fixed-size array.
\<close>


section \<open>The configuration record\<close>

definition MP_CACHE_TEXT_CAP :: nat where
  "MP_CACHE_TEXT_CAP = 128"

definition MP_CACHE_NAME_CAP :: nat where
  "MP_CACHE_NAME_CAP = 64"

definition MP_CACHE_SECRET_REF_CAP :: nat where
  "MP_CACHE_SECRET_REF_CAP = 256"

definition MP_CACHE_LINE_CAPACITY :: nat where
  "MP_CACHE_LINE_CAPACITY = 2048"

record mp_cache_config =
  service_name :: string
  environment_name :: string
  build_version :: string
  socket_path :: string
  pid_file_path :: string
  data_directory :: string
  export_directory :: string
  checkpoint_path :: string
  journal_path :: string
  log_directory :: string
  logger_bootstrap_path :: string
  logger_format :: string
  logger_file_name_prefix :: string
  logger_backup_file_name_prefix :: string
  logger_active_streams :: string
  logger_stdout_min_level :: string
  logger_stdout_max_level :: string
  logger_stderr_min_level :: string
  logger_stderr_max_level :: string
  logger_file_min_level :: string
  logger_file_max_level :: string
  logger_udp_min_level :: string
  logger_udp_max_level :: string
  logger_udp_host :: string
  bootstrap_admin_token_secret_ref :: string
  storage_key_secret_ref :: string
  memory_limit_bytes :: u64
  default_ttl_seconds :: u32
  min_ttl_seconds :: u32
  max_ttl_seconds :: u32
  max_key_bytes :: u32
  max_value_bytes :: u32
  bucket_count :: u32
  max_export_files :: u32
  shutdown_timeout_millis :: u32
  sweep_interval_seconds :: u32
  max_log_lines :: u32
  logger_buffer_capacity :: u32
  logger_message_capacity :: u32
  logger_context_capacity :: u32
  logger_field_capacity :: u32
  logger_field_key_capacity :: u32
  logger_field_value_capacity :: u32
  logger_pretty_output :: u32
  logger_udp_port :: u32
  rate_limit_requests :: u32
  rate_limit_window_seconds :: u32

datatype mp_cache_config_status =
    MP_CACHE_CONFIG_STATUS_OK
  | MP_CACHE_CONFIG_STATUS_NOT_FOUND
  | MP_CACHE_CONFIG_STATUS_IO_ERROR
  | MP_CACHE_CONFIG_STATUS_PARSE_ERROR
  | MP_CACHE_CONFIG_STATUS_VALIDATION_ERROR
  | MP_CACHE_CONFIG_STATUS_INVALID_ARGUMENT

fun mp_cache_config_status_name :: "mp_cache_config_status \<Rightarrow> string" where
  "mp_cache_config_status_name MP_CACHE_CONFIG_STATUS_OK = ''OK''"
| "mp_cache_config_status_name MP_CACHE_CONFIG_STATUS_NOT_FOUND = ''NOT_FOUND''"
| "mp_cache_config_status_name MP_CACHE_CONFIG_STATUS_IO_ERROR = ''IO_ERROR''"
| "mp_cache_config_status_name MP_CACHE_CONFIG_STATUS_PARSE_ERROR = ''PARSE_ERROR''"
| "mp_cache_config_status_name MP_CACHE_CONFIG_STATUS_VALIDATION_ERROR = ''VALIDATION_ERROR''"
| "mp_cache_config_status_name MP_CACHE_CONFIG_STATUS_INVALID_ARGUMENT = ''INVALID_ARGUMENT''"


section \<open>Single values\<close>

text \<open>The new contents of a text field of the given capacity.\<close>

definition mp_cache_copy_string :: "string \<Rightarrow> nat \<Rightarrow> string ptr \<Rightarrow> string" where
  "mp_cache_copy_string destination destination_capacity source =
     (if destination_capacity = 0 then destination
      else (case source of None \<Rightarrow> [] | Some s \<Rightarrow> snprintf_s destination_capacity s))"

definition mp_cache_unquote :: "string \<Rightarrow> string" where
  "mp_cache_unquote v =
     (if length v \<ge> 2 \<and>
         (hd v = CHR 0x22 \<and> last v = CHR 0x22 \<or> hd v = CHR 0x27 \<and> last v = CHR 0x27)
      then butlast (tl v) else v)"

definition mp_cache_parse_u32 :: "string ptr \<Rightarrow> u32 option" where
  "mp_cache_parse_u32 v =
     (case v of
        None \<Rightarrow> None
      | Some str \<Rightarrow>
          if str = [] then None
          else
            (case strtoul str of
               (parsed, range_error, end_text) \<Rightarrow>
                 if range_error \<or> end_text = str \<or> trim end_text \<noteq> [] \<or> parsed > 0xffffffff then None
                 else Some (ucast parsed)))"

definition mp_cache_parse_u64 :: "string ptr \<Rightarrow> u64 option" where
  "mp_cache_parse_u64 v =
     (case v of
        None \<Rightarrow> None
      | Some str \<Rightarrow>
          if str = [] then None
          else
            (case strtoul str of
               (parsed, range_error, end_text) \<Rightarrow>
                 if range_error \<or> end_text = str \<or> trim end_text \<noteq> [] then None
                 else Some parsed))"

definition mp_cache_parse_bool_u32 :: "string ptr \<Rightarrow> u32 option" where
  "mp_cache_parse_bool_u32 v =
     (case v of
        None \<Rightarrow> None
      | Some str \<Rightarrow>
          if str = ''true'' \<or> str = ''1'' \<or> str = ''yes'' then Some 1
          else if str = ''false'' \<or> str = ''0'' \<or> str = ''no'' then Some 0
          else None)"

text \<open>The loop over the version text keeps the count of dots and whether a digit was seen.\<close>

fun build_version_loop :: "string \<Rightarrow> u32 \<Rightarrow> bool \<Rightarrow> bool" where
  "build_version_loop [] component_count saw_digit = (saw_digit \<and> component_count = 2)"
| "build_version_loop (c # rest) component_count saw_digit =
     (if isdigit c then build_version_loop rest component_count True
      else if c = CHR ''.'' then
        (if \<not> saw_digit then False else build_version_loop rest (component_count + 1) False)
      else False)"

definition mp_cache_is_build_version_valid :: "string ptr \<Rightarrow> bool" where
  "mp_cache_is_build_version_valid v =
     (case v of None \<Rightarrow> False | Some str \<Rightarrow> if str = [] then False else build_version_loop str 0 False)"


section \<open>Sections and keys\<close>

text \<open>
  One parsed tuple applied to the configuration; an unknown section or key, or a value that does not
  parse, is \<open>None\<close>. The code's chain of comparisons is split by section.
\<close>

definition apply_service_value :: "mp_cache_config \<Rightarrow> string \<Rightarrow> string \<Rightarrow> mp_cache_config option" where
  "apply_service_value config key v =
     (if key = ''environment_name'' then
        Some (config\<lparr>environment_name := mp_cache_copy_string (environment_name config) MP_CACHE_TEXT_CAP (Some v)\<rparr>)
      else if key = ''service_name'' then
        Some (config\<lparr>service_name := mp_cache_copy_string (service_name config) MP_CACHE_NAME_CAP (Some v)\<rparr>)
      else if key = ''build_version'' then
        (if mp_cache_is_build_version_valid (Some v)
        then Some (config\<lparr>build_version := mp_cache_copy_string (build_version config) MP_CACHE_TEXT_CAP (Some v)\<rparr>) else None)
      else None)"

definition apply_server_value :: "mp_cache_config \<Rightarrow> string \<Rightarrow> string \<Rightarrow> mp_cache_config option" where
  "apply_server_value config key v =
     (if key = ''socket_path'' then
        Some (config\<lparr>socket_path := mp_cache_copy_string (socket_path config) MP_CACHE_PATH_CAP (Some v)\<rparr>)
      else if key = ''pid_file_path'' then
        Some (config\<lparr>pid_file_path := mp_cache_copy_string (pid_file_path config) MP_CACHE_PATH_CAP (Some v)\<rparr>)
      else if key = ''shutdown_timeout_millis'' then
        map_option (\<lambda>n. config\<lparr>shutdown_timeout_millis := n\<rparr>) (mp_cache_parse_u32 (Some v))
      else None)"

definition apply_cache_value :: "mp_cache_config \<Rightarrow> string \<Rightarrow> string \<Rightarrow> mp_cache_config option" where
  "apply_cache_value config key v =
     (if key = ''memory_limit_bytes'' then
        map_option (\<lambda>n. config\<lparr>memory_limit_bytes := n\<rparr>) (mp_cache_parse_u64 (Some v))
      else if key = ''default_ttl_seconds'' then
        map_option (\<lambda>n. config\<lparr>default_ttl_seconds := n\<rparr>) (mp_cache_parse_u32 (Some v))
      else if key = ''min_ttl_seconds'' then
        map_option (\<lambda>n. config\<lparr>min_ttl_seconds := n\<rparr>) (mp_cache_parse_u32 (Some v))
      else if key = ''max_ttl_seconds'' then
        map_option (\<lambda>n. config\<lparr>max_ttl_seconds := n\<rparr>) (mp_cache_parse_u32 (Some v))
      else if key = ''max_key_bytes'' then
        map_option (\<lambda>n. config\<lparr>max_key_bytes := n\<rparr>) (mp_cache_parse_u32 (Some v))
      else if key = ''max_value_bytes'' then
        map_option (\<lambda>n. config\<lparr>max_value_bytes := n\<rparr>) (mp_cache_parse_u32 (Some v))
      else if key = ''bucket_count'' then
        map_option (\<lambda>n. config\<lparr>bucket_count := n\<rparr>) (mp_cache_parse_u32 (Some v))
      else if key = ''sweep_interval_seconds'' then
        map_option (\<lambda>n. config\<lparr>sweep_interval_seconds := n\<rparr>) (mp_cache_parse_u32 (Some v))
      else None)"

definition apply_storage_value :: "mp_cache_config \<Rightarrow> string \<Rightarrow> string \<Rightarrow> mp_cache_config option" where
  "apply_storage_value config key v =
     (if key = ''data_directory'' then
        Some (config\<lparr>data_directory := mp_cache_copy_string (data_directory config) MP_CACHE_PATH_CAP (Some v)\<rparr>)
      else if key = ''export_directory'' then
        Some (config\<lparr>export_directory := mp_cache_copy_string (export_directory config) MP_CACHE_PATH_CAP (Some v)\<rparr>)
      else if key = ''checkpoint_path'' then
        Some (config\<lparr>checkpoint_path := mp_cache_copy_string (checkpoint_path config) MP_CACHE_PATH_CAP (Some v)\<rparr>)
      else if key = ''journal_path'' then
        Some (config\<lparr>journal_path := mp_cache_copy_string (journal_path config) MP_CACHE_PATH_CAP (Some v)\<rparr>)
      else if key = ''max_export_files'' then
        map_option (\<lambda>n. config\<lparr>max_export_files := n\<rparr>) (mp_cache_parse_u32 (Some v))
      else None)"

definition apply_observability_value :: "mp_cache_config \<Rightarrow> string \<Rightarrow> string \<Rightarrow> mp_cache_config option" where
  "apply_observability_value config key v =
     (if key = ''log_directory'' then
        Some (config\<lparr>log_directory := mp_cache_copy_string (log_directory config) MP_CACHE_PATH_CAP (Some v)\<rparr>)
      else if key = ''max_log_lines'' then
        map_option (\<lambda>n. config\<lparr>max_log_lines := n\<rparr>) (mp_cache_parse_u32 (Some v))
      else None)"

definition apply_mp_logger_value :: "mp_cache_config \<Rightarrow> string \<Rightarrow> string \<Rightarrow> mp_cache_config option" where
  "apply_mp_logger_value config key v =
     (if key = ''bootstrap_path'' then
        Some (config\<lparr>logger_bootstrap_path := mp_cache_copy_string (logger_bootstrap_path config) MP_CACHE_PATH_CAP (Some v)\<rparr>)
      else if key = ''buffer_capacity'' then
        map_option (\<lambda>n. config\<lparr>logger_buffer_capacity := n\<rparr>) (mp_cache_parse_u32 (Some v))
      else if key = ''message_capacity'' then
        map_option (\<lambda>n. config\<lparr>logger_message_capacity := n\<rparr>) (mp_cache_parse_u32 (Some v))
      else if key = ''context_capacity'' then
        map_option (\<lambda>n. config\<lparr>logger_context_capacity := n\<rparr>) (mp_cache_parse_u32 (Some v))
      else if key = ''field_capacity'' then
        map_option (\<lambda>n. config\<lparr>logger_field_capacity := n\<rparr>) (mp_cache_parse_u32 (Some v))
      else if key = ''field_key_capacity'' then
        map_option (\<lambda>n. config\<lparr>logger_field_key_capacity := n\<rparr>) (mp_cache_parse_u32 (Some v))
      else if key = ''field_value_capacity'' then
        map_option (\<lambda>n. config\<lparr>logger_field_value_capacity := n\<rparr>) (mp_cache_parse_u32 (Some v))
      else if key = ''format'' then
        Some (config\<lparr>logger_format := mp_cache_copy_string (logger_format config) MP_CACHE_TEXT_CAP (Some v)\<rparr>)
      else if key = ''pretty_output'' then
        map_option (\<lambda>n. config\<lparr>logger_pretty_output := n\<rparr>) (mp_cache_parse_bool_u32 (Some v))
      else if key = ''log_directory'' then
        Some (config\<lparr>log_directory := mp_cache_copy_string (log_directory config) MP_CACHE_PATH_CAP (Some v)\<rparr>)
      else if key = ''file_name_prefix'' then
        Some (config\<lparr>logger_file_name_prefix := mp_cache_copy_string (logger_file_name_prefix config) MP_CACHE_NAME_CAP (Some v)\<rparr>)
      else if key = ''backup_file_name_prefix'' then
        Some (config\<lparr>logger_backup_file_name_prefix := mp_cache_copy_string (logger_backup_file_name_prefix config) MP_CACHE_NAME_CAP (Some v)\<rparr>)
      else if key = ''active_streams'' then
        Some (config\<lparr>logger_active_streams := mp_cache_copy_string (logger_active_streams config) MP_CACHE_TEXT_CAP (Some v)\<rparr>)
      else if key = ''stdout_min_level'' then
        Some (config\<lparr>logger_stdout_min_level := mp_cache_copy_string (logger_stdout_min_level config) MP_CACHE_TEXT_CAP (Some v)\<rparr>)
      else if key = ''stdout_max_level'' then
        Some (config\<lparr>logger_stdout_max_level := mp_cache_copy_string (logger_stdout_max_level config) MP_CACHE_TEXT_CAP (Some v)\<rparr>)
      else if key = ''stderr_min_level'' then
        Some (config\<lparr>logger_stderr_min_level := mp_cache_copy_string (logger_stderr_min_level config) MP_CACHE_TEXT_CAP (Some v)\<rparr>)
      else if key = ''stderr_max_level'' then
        Some (config\<lparr>logger_stderr_max_level := mp_cache_copy_string (logger_stderr_max_level config) MP_CACHE_TEXT_CAP (Some v)\<rparr>)
      else if key = ''file_min_level'' then
        Some (config\<lparr>logger_file_min_level := mp_cache_copy_string (logger_file_min_level config) MP_CACHE_TEXT_CAP (Some v)\<rparr>)
      else if key = ''file_max_level'' then
        Some (config\<lparr>logger_file_max_level := mp_cache_copy_string (logger_file_max_level config) MP_CACHE_TEXT_CAP (Some v)\<rparr>)
      else if key = ''udp_min_level'' then
        Some (config\<lparr>logger_udp_min_level := mp_cache_copy_string (logger_udp_min_level config) MP_CACHE_TEXT_CAP (Some v)\<rparr>)
      else if key = ''udp_max_level'' then
        Some (config\<lparr>logger_udp_max_level := mp_cache_copy_string (logger_udp_max_level config) MP_CACHE_TEXT_CAP (Some v)\<rparr>)
      else if key = ''udp_host'' then
        Some (config\<lparr>logger_udp_host := mp_cache_copy_string (logger_udp_host config) MP_CACHE_TEXT_CAP (Some v)\<rparr>)
      else if key = ''udp_port'' then
        map_option (\<lambda>n. config\<lparr>logger_udp_port := n\<rparr>) (mp_cache_parse_u32 (Some v))
      else None)"

definition apply_security_value :: "mp_cache_config \<Rightarrow> string \<Rightarrow> string \<Rightarrow> mp_cache_config option" where
  "apply_security_value config key v =
     (if key = ''bootstrap_admin_token_secret_ref'' then
        Some (config\<lparr>bootstrap_admin_token_secret_ref := mp_cache_copy_string (bootstrap_admin_token_secret_ref config) MP_CACHE_SECRET_REF_CAP (Some v)\<rparr>)
      else if key = ''storage_key_secret_ref'' then
        Some (config\<lparr>storage_key_secret_ref := mp_cache_copy_string (storage_key_secret_ref config) MP_CACHE_SECRET_REF_CAP (Some v)\<rparr>)
      else if key = ''rate_limit_requests'' then
        map_option (\<lambda>n. config\<lparr>rate_limit_requests := n\<rparr>) (mp_cache_parse_u32 (Some v))
      else if key = ''rate_limit_window_seconds'' then
        map_option (\<lambda>n. config\<lparr>rate_limit_window_seconds := n\<rparr>) (mp_cache_parse_u32 (Some v))
      else None)"

definition mp_cache_apply_value ::
  "mp_cache_config \<Rightarrow> string \<Rightarrow> string \<Rightarrow> string \<Rightarrow> mp_cache_config option" where
  "mp_cache_apply_value config sect key v =
     (if sect = ''service'' then apply_service_value config key v
      else if sect = ''server'' then apply_server_value config key v
      else if sect = ''cache'' then apply_cache_value config key v
      else if sect = ''storage'' then apply_storage_value config key v
      else if sect = ''observability'' then apply_observability_value config key v
      else if sect = ''mp_logger'' then apply_mp_logger_value config key v
      else if sect = ''security'' then apply_security_value config key v
      else None)"


section \<open>Validation and defaults\<close>

definition mp_cache_validate :: "mp_cache_config \<Rightarrow> mp_cache_config_status" where
  "mp_cache_validate config =
     (if service_name config = [] \<or>
         environment_name config = [] \<or>
         build_version config = [] \<or>
         socket_path config = [] \<or>
         pid_file_path config = [] \<or>
         log_directory config = [] \<or>
         data_directory config = [] \<or>
         export_directory config = [] \<or>
         checkpoint_path config = [] \<or>
         journal_path config = [] \<or>
         logger_bootstrap_path config = [] \<or>
         bootstrap_admin_token_secret_ref config = [] \<or>
         storage_key_secret_ref config = []
      then MP_CACHE_CONFIG_STATUS_VALIDATION_ERROR
      else if \<not> mp_cache_is_build_version_valid (Some (build_version config))
      then MP_CACHE_CONFIG_STATUS_VALIDATION_ERROR
      else if memory_limit_bytes config = 0 \<or>
         default_ttl_seconds config = 0 \<or>
         min_ttl_seconds config = 0 \<or>
         max_ttl_seconds config = 0 \<or>
         max_key_bytes config = 0 \<or>
         max_value_bytes config = 0 \<or>
         bucket_count config = 0 \<or>
         max_export_files config = 0 \<or>
         shutdown_timeout_millis config = 0 \<or>
         sweep_interval_seconds config = 0 \<or>
         max_log_lines config = 0 \<or>
         logger_buffer_capacity config = 0 \<or>
         logger_message_capacity config = 0 \<or>
         logger_context_capacity config = 0 \<or>
         logger_field_capacity config = 0 \<or>
         logger_field_key_capacity config = 0 \<or>
         logger_field_value_capacity config = 0 \<or>
         logger_udp_port config > 65535 \<or>
         rate_limit_requests config = 0 \<or>
         rate_limit_window_seconds config = 0
      then MP_CACHE_CONFIG_STATUS_VALIDATION_ERROR
      else if default_ttl_seconds config < min_ttl_seconds config \<or>
         default_ttl_seconds config > max_ttl_seconds config
      then MP_CACHE_CONFIG_STATUS_VALIDATION_ERROR
      else if min_ttl_seconds config > max_ttl_seconds config then MP_CACHE_CONFIG_STATUS_VALIDATION_ERROR
      else MP_CACHE_CONFIG_STATUS_OK)"

definition mp_cache_config_init_defaults :: mp_cache_config where
  "mp_cache_config_init_defaults = \<lparr>
     service_name = mp_cache_copy_string [] MP_CACHE_NAME_CAP (Some ''mp-cache''),
     environment_name = mp_cache_copy_string [] MP_CACHE_TEXT_CAP (Some ''local''),
     build_version = mp_cache_copy_string [] MP_CACHE_TEXT_CAP (Some ''0.0.0''),
     socket_path = mp_cache_copy_string [] MP_CACHE_PATH_CAP (Some ''.tmp/run/mp-cache.sock''),
     pid_file_path = mp_cache_copy_string [] MP_CACHE_PATH_CAP (Some ''.tmp/run/mp-cache.pid''),
     data_directory = mp_cache_copy_string [] MP_CACHE_PATH_CAP (Some ''.tmp/data''),
     export_directory = mp_cache_copy_string [] MP_CACHE_PATH_CAP (Some ''.tmp/exports''),
     checkpoint_path = mp_cache_copy_string [] MP_CACHE_PATH_CAP (Some ''.tmp/data/state.checkpoint''),
     journal_path = mp_cache_copy_string [] MP_CACHE_PATH_CAP (Some ''.tmp/data/state.journal''),
     log_directory = mp_cache_copy_string [] MP_CACHE_PATH_CAP (Some ''logging''),
     logger_bootstrap_path = mp_cache_copy_string [] MP_CACHE_PATH_CAP (Some ''native/mp_logger/configs/logger.bootstrap.yaml''),
     logger_format = mp_cache_copy_string [] MP_CACHE_TEXT_CAP (Some ''json''),
     logger_file_name_prefix = mp_cache_copy_string [] MP_CACHE_NAME_CAP (Some ''mp-cache''),
     logger_backup_file_name_prefix = mp_cache_copy_string [] MP_CACHE_NAME_CAP (Some ''mp-cache-internal''),
     logger_active_streams = mp_cache_copy_string [] MP_CACHE_TEXT_CAP (Some ''stdout,stderr,file''),
     logger_stdout_min_level = mp_cache_copy_string [] MP_CACHE_TEXT_CAP (Some ''trace''),
     logger_stdout_max_level = mp_cache_copy_string [] MP_CACHE_TEXT_CAP (Some ''info''),
     logger_stderr_min_level = mp_cache_copy_string [] MP_CACHE_TEXT_CAP (Some ''warning''),
     logger_stderr_max_level = mp_cache_copy_string [] MP_CACHE_TEXT_CAP (Some ''fatal''),
     logger_file_min_level = mp_cache_copy_string [] MP_CACHE_TEXT_CAP (Some ''trace''),
     logger_file_max_level = mp_cache_copy_string [] MP_CACHE_TEXT_CAP (Some ''fatal''),
     logger_udp_min_level = mp_cache_copy_string [] MP_CACHE_TEXT_CAP (Some ''error''),
     logger_udp_max_level = mp_cache_copy_string [] MP_CACHE_TEXT_CAP (Some ''fatal''),
     logger_udp_host = mp_cache_copy_string [] MP_CACHE_TEXT_CAP (Some ''127.0.0.1''),
     bootstrap_admin_token_secret_ref = mp_cache_copy_string [] MP_CACHE_SECRET_REF_CAP (Some ''env:MP_SECRET_LOCAL_BOOTSTRAP_ADMIN_TOKEN''),
     storage_key_secret_ref = mp_cache_copy_string [] MP_CACHE_SECRET_REF_CAP (Some ''env:MP_SECRET_LOCAL_STORAGE_KEY''),
     memory_limit_bytes = 256 * 1024 * 1024,
     default_ttl_seconds = 172800,
     min_ttl_seconds = 1,
     max_ttl_seconds = 2592000,
     max_key_bytes = 256,
     max_value_bytes = 1024 * 1024,
     bucket_count = 4096,
     max_export_files = 16,
     shutdown_timeout_millis = 5000,
     sweep_interval_seconds = 5,
     max_log_lines = 200,
     logger_buffer_capacity = 4096,
     logger_message_capacity = 1024,
     logger_context_capacity = 512,
     logger_field_capacity = 8,
     logger_field_key_capacity = 32,
     logger_field_value_capacity = 128,
     logger_pretty_output = 0,
     logger_udp_port = 5514,
     rate_limit_requests = 240,
     rate_limit_window_seconds = 60\<rparr>"


section \<open>Loading a file\<close>

datatype line_result = LineError mp_cache_config | LineContinue mp_cache_config string

text \<open>
  One line of the file, with the current section. After the value is unquoted in place, the byte
  right after the separator is the terminator exactly when the value is empty and no white space
  stands before it; such a line names a section.
\<close>

definition config_load_line :: "mp_cache_config \<Rightarrow> string \<Rightarrow> string \<Rightarrow> line_result" where
  "config_load_line config current_section line_buffer =
     (let line = trim line_buffer in
      if line = [] \<or> hd line = CHR ''#'' \<or> hd line = CHR '';'' then LineContinue config current_section
      else if hd line = CHR ''['' then
        (if length line < 3 \<or> last line \<noteq> CHR '']'' then LineError config
         else LineContinue config
                (mp_cache_copy_string current_section MP_CACHE_TEXT_CAP (Some (tl (butlast line)))))
      else
        (case (case strchr line (CHR ''='') of Some split \<Rightarrow> Some split | None \<Rightarrow> strchr line (CHR '':'')) of
           None \<Rightarrow>
             (if length line > 1 \<and> last line = CHR '':'' then
                LineContinue config
                  (mp_cache_copy_string current_section MP_CACHE_TEXT_CAP (Some (trim (butlast line))))
              else LineError config)
         | Some (before, after) \<Rightarrow>
             (let key = trim before; v = mp_cache_unquote (trim after) in
              if v = [] \<and> (after = [] \<or> \<not> isspace (hd after)) then
                LineContinue config (mp_cache_copy_string current_section MP_CACHE_TEXT_CAP (Some key))
              else if current_section = [] \<or> key = [] then LineError config
              else
                (case mp_cache_apply_value config current_section key v of
                   None \<Rightarrow> LineError config
                 | Some config' \<Rightarrow> LineContinue config' current_section))))"

function config_load_loop :: "mp_cache_config \<Rightarrow> string \<Rightarrow> char list \<Rightarrow> line_result" where
  "config_load_loop config current_section stream =
     (case fgets MP_CACHE_LINE_CAPACITY stream of
        None \<Rightarrow> LineContinue config current_section
      | Some (chunk, rest) \<Rightarrow>
          (case config_load_line config current_section (c_string chunk) of
             LineError config' \<Rightarrow> LineError config'
           | LineContinue config' current_section' \<Rightarrow> config_load_loop config' current_section' rest))"
  by pat_completeness auto
termination
  by (relation "measure (\<lambda>(config, current_section, stream). length stream)")
    (auto simp: MP_CACHE_LINE_CAPACITY_def dest: fgets_shorter [rotated])

declare config_load_loop.simps [simp del]

text \<open>A read error ends the loop early: the stream is cut where \<open>written\<close> says.\<close>

definition mp_cache_config_load_file ::
  "env \<Rightarrow> filesystem \<Rightarrow> string ptr \<Rightarrow> mp_cache_config \<Rightarrow> mp_cache_config_status \<times> mp_cache_config" where
  "mp_cache_config_load_file e fs config_path config =
     (case config_path of
        None \<Rightarrow> (MP_CACHE_CONFIG_STATUS_INVALID_ARGUMENT, config)
      | Some path \<Rightarrow>
          (case posix_open_read (ok 0 e) fs path of
             Inl err \<Rightarrow>
               (if err = ENOENT then MP_CACHE_CONFIG_STATUS_NOT_FOUND else MP_CACHE_CONFIG_STATUS_IO_ERROR, config)
           | Inr bs \<Rightarrow>
               (let stream = (if ok 1 e then chars_of bs else take (written e [1]) (chars_of bs)) in
                (case config_load_loop config [] stream of
                   LineError config' \<Rightarrow> (MP_CACHE_CONFIG_STATUS_PARSE_ERROR, config')
                 | LineContinue config' _ \<Rightarrow>
                     (if \<not> ok 1 e then MP_CACHE_CONFIG_STATUS_IO_ERROR else mp_cache_validate config',
                      config')))))"


section \<open>Printing\<close>

definition template_item :: "string \<Rightarrow> string \<Rightarrow> string" where
  "template_item key v = ''  '' @ key @ '': '' @ v"

definition template_header_lines :: "string list" where
  "template_header_lines =
     [''# mp-cache bootstrap configuration'',
      ''# Generated automatically from compiled defaults.'',
      ''# All TTL values are in seconds and all timestamps are UTC.'',
      '''']"

definition template_service_lines :: "mp_cache_config \<Rightarrow> string list" where
  "template_service_lines config =
     [''service:'',
      ''# Valid values: local, development, qa, staging, production'',
      template_item ''environment_name'' (environment_name config),
      template_item ''service_name'' (service_name config),
      ''# Build artifacts use MAJOR.MINOR.HOTFIX and local builds increment MINOR by default.'',
      template_item ''build_version'' (CHR 0x22 # build_version config @ [CHR 0x22]),
      []]"

definition template_server_lines :: "mp_cache_config \<Rightarrow> string list" where
  "template_server_lines config =
     [''server:'',
      ''# Use an absolute socket path in long-lived deployments.'',
      template_item ''socket_path'' (socket_path config),
      template_item ''pid_file_path'' (pid_file_path config),
      template_item ''shutdown_timeout_millis'' (print_nat (unat (shutdown_timeout_millis config))),
      []]"

definition template_cache_lines :: "mp_cache_config \<Rightarrow> string list" where
  "template_cache_lines config =
     [''cache:'',
      ''# Maximum total in-memory cache footprint in bytes.'',
      template_item ''memory_limit_bytes'' (print_nat (unat (memory_limit_bytes config))),
      ''# Default TTL used when a write does not provide an explicit TTL.'',
      template_item ''default_ttl_seconds'' (print_nat (unat (default_ttl_seconds config))),
      template_item ''min_ttl_seconds'' (print_nat (unat (min_ttl_seconds config))),
      template_item ''max_ttl_seconds'' (print_nat (unat (max_ttl_seconds config))),
      template_item ''max_key_bytes'' (print_nat (unat (max_key_bytes config))),
      template_item ''max_value_bytes'' (print_nat (unat (max_value_bytes config))),
      template_item ''bucket_count'' (print_nat (unat (bucket_count config))),
      template_item ''sweep_interval_seconds'' (print_nat (unat (sweep_interval_seconds config))),
      []]"

definition template_storage_lines :: "mp_cache_config \<Rightarrow> string list" where
  "template_storage_lines config =
     [''storage:'',
      template_item ''data_directory'' (data_directory config),
      template_item ''export_directory'' (export_directory config),
      template_item ''checkpoint_path'' (checkpoint_path config),
      template_item ''journal_path'' (journal_path config),
      template_item ''max_export_files'' (print_nat (unat (max_export_files config))),
      []]"

definition template_observability_lines :: "mp_cache_config \<Rightarrow> string list" where
  "template_observability_lines config =
     [''observability:'',
      template_item ''log_directory'' (log_directory config),
      template_item ''max_log_lines'' (print_nat (unat (max_log_lines config))),
      []]"

definition template_mp_logger_lines :: "mp_cache_config \<Rightarrow> string list" where
  "template_mp_logger_lines config =
     [''mp_logger:'',
      template_item ''bootstrap_path'' (logger_bootstrap_path config),
      template_item ''buffer_capacity'' (print_nat (unat (logger_buffer_capacity config))),
      template_item ''message_capacity'' (print_nat (unat (logger_message_capacity config))),
      template_item ''context_capacity'' (print_nat (unat (logger_context_capacity config))),
      template_item ''field_capacity'' (print_nat (unat (logger_field_capacity config))),
      template_item ''field_key_capacity'' (print_nat (unat (logger_field_key_capacity config))),
      template_item ''field_value_capacity'' (print_nat (unat (logger_field_value_capacity config))),
      template_item ''format'' (logger_format config),
      template_item ''pretty_output'' (if logger_pretty_output config \<noteq> 0 then ''true'' else ''false''),
      template_item ''file_name_prefix'' (logger_file_name_prefix config),
      template_item ''backup_file_name_prefix'' (logger_backup_file_name_prefix config),
      template_item ''active_streams'' (logger_active_streams config),
      template_item ''stdout_min_level'' (logger_stdout_min_level config),
      template_item ''stdout_max_level'' (logger_stdout_max_level config),
      template_item ''stderr_min_level'' (logger_stderr_min_level config),
      template_item ''stderr_max_level'' (logger_stderr_max_level config),
      template_item ''file_min_level'' (logger_file_min_level config),
      template_item ''file_max_level'' (logger_file_max_level config),
      template_item ''udp_min_level'' (logger_udp_min_level config),
      template_item ''udp_max_level'' (logger_udp_max_level config),
      template_item ''udp_host'' (logger_udp_host config),
      template_item ''udp_port'' (print_nat (unat (logger_udp_port config))),
      []]"

definition template_security_lines :: "mp_cache_config \<Rightarrow> string list" where
  "template_security_lines config =
     [''security:'',
      ''# Local development may use env refs. Non-local deployments should prefer file refs.'',
      template_item ''bootstrap_admin_token_secret_ref'' (bootstrap_admin_token_secret_ref config),
      template_item ''storage_key_secret_ref'' (storage_key_secret_ref config),
      template_item ''rate_limit_requests'' (print_nat (unat (rate_limit_requests config))),
      template_item ''rate_limit_window_seconds'' (print_nat (unat (rate_limit_window_seconds config)))]"

definition config_template_lines :: "mp_cache_config \<Rightarrow> string list" where
  "config_template_lines config =
     template_header_lines @ template_service_lines config @ template_server_lines config @ template_cache_lines config @ template_storage_lines config @ template_observability_lines config @ template_mp_logger_lines config @ template_security_lines config"

definition config_template_text :: "mp_cache_config \<Rightarrow> string" where
  "config_template_text config = concat (map (\<lambda>line. line @ [LF]) (config_template_lines config))"

text \<open>
  Writing the template: the result of \<open>fprintf\<close> is not looked at, only that of
  \<open>fclose\<close>. A failing close leaves a part of the text.
\<close>

definition mp_cache_config_write_template ::
  "env \<Rightarrow> filesystem \<Rightarrow> string ptr \<Rightarrow> mp_cache_config \<Rightarrow> mp_cache_config_status \<times> filesystem" where
  "mp_cache_config_write_template e fs template_path config =
     (case template_path of
        None \<Rightarrow> (MP_CACHE_CONFIG_STATUS_INVALID_ARGUMENT, fs)
      | Some path \<Rightarrow>
          (case mp_cache_fs_ensure_parent_directory (at 0 e) fs (Some path) of
             (Inl _, fs1) \<Rightarrow> (MP_CACHE_CONFIG_STATUS_IO_ERROR, fs1)
           | (Inr _, fs1) \<Rightarrow>
               (case posix_open_write (ok 1 e) fs1 path of
                  (Inl _, fs2) \<Rightarrow> (MP_CACHE_CONFIG_STATUS_IO_ERROR, fs2)
                | (Inr _, fs2) \<Rightarrow>
                    (let bs = bytes_of (config_template_text config) in
                     if \<not> ok 2 e
                     then (MP_CACHE_CONFIG_STATUS_IO_ERROR, posix_write fs2 path (take (written e [2]) bs))
                     else (MP_CACHE_CONFIG_STATUS_OK, posix_write fs2 path bs)))))"

definition mp_cache_config_print :: "mp_cache_config \<Rightarrow> string ptr \<Rightarrow> string" where
  "mp_cache_config_print config source_path =
     concat (map (\<lambda>line. line @ [LF])
       [''config_source='' @ (case source_path of None \<Rightarrow> ''(defaults)'' | Some path \<Rightarrow> path),
        ''service.environment_name='' @ environment_name config,
        ''service.service_name='' @ service_name config,
        ''service.build_version='' @ build_version config,
        ''server.socket_path='' @ socket_path config,
        ''server.pid_file_path='' @ pid_file_path config,
        ''server.shutdown_timeout_millis='' @ print_nat (unat (shutdown_timeout_millis config)),
        ''cache.memory_limit_bytes='' @ print_nat (unat (memory_limit_bytes config)),
        ''cache.default_ttl_seconds='' @ print_nat (unat (default_ttl_seconds config)),
        ''cache.min_ttl_seconds='' @ print_nat (unat (min_ttl_seconds config)),
        ''cache.max_ttl_seconds='' @ print_nat (unat (max_ttl_seconds config)),
        ''cache.max_key_bytes='' @ print_nat (unat (max_key_bytes config)),
        ''cache.max_value_bytes='' @ print_nat (unat (max_value_bytes config)),
        ''cache.bucket_count='' @ print_nat (unat (bucket_count config)),
        ''cache.sweep_interval_seconds='' @ print_nat (unat (sweep_interval_seconds config)),
        ''storage.data_directory='' @ data_directory config,
        ''storage.export_directory='' @ export_directory config,
        ''storage.checkpoint_path='' @ checkpoint_path config,
        ''storage.journal_path='' @ journal_path config,
        ''storage.max_export_files='' @ print_nat (unat (max_export_files config)),
        ''observability.log_directory='' @ log_directory config,
        ''observability.max_log_lines='' @ print_nat (unat (max_log_lines config)),
        ''mp_logger.bootstrap_path='' @ logger_bootstrap_path config,
        ''mp_logger.buffer_capacity='' @ print_nat (unat (logger_buffer_capacity config)),
        ''mp_logger.format='' @ logger_format config,
        ''mp_logger.log_directory='' @ log_directory config,
        ''mp_logger.file_name_prefix='' @ logger_file_name_prefix config,
        ''mp_logger.active_streams='' @ logger_active_streams config,
        ''security.bootstrap_admin_token_secret_ref='' @ bootstrap_admin_token_secret_ref config,
        ''security.storage_key_secret_ref='' @ storage_key_secret_ref config,
        ''security.rate_limit_requests='' @ print_nat (unat (rate_limit_requests config)),
        ''security.rate_limit_window_seconds='' @ print_nat (unat (rate_limit_window_seconds config))])"


section \<open>Reading back a printed line\<close>

fun config_load_lines :: "mp_cache_config \<Rightarrow> string \<Rightarrow> string list \<Rightarrow> line_result" where
  "config_load_lines config sect [] = LineContinue config sect"
| "config_load_lines config sect (line # ls) =
     (case config_load_line config sect line of
        LineError config' \<Rightarrow> LineError config'
      | LineContinue config' sect' \<Rightarrow> config_load_lines config' sect' ls)"

definition short_line :: "string \<Rightarrow> bool" where
  "short_line line \<longleftrightarrow> LF \<notin> set line \<and> NUL \<notin> set line \<and> length line + 1 < MP_CACHE_LINE_CAPACITY"

lemma config_load_line_LF: "config_load_line config sect (line @ [LF]) = config_load_line config sect line"
  using trim_append_space(2) [of "[LF]" line] by (simp add: config_load_line_def isspace_def)

lemma config_load_loop_lines:
  "\<forall>line \<in> set ls. short_line line \<Longrightarrow>
     config_load_loop config sect (concat (map (\<lambda>line. line @ [LF]) ls)) = config_load_lines config sect ls"
proof (induction ls arbitrary: config sect)
  case Nil
  then show ?case by (simp add: config_load_loop.simps fgets_def)
next
  case (Cons line ls)
  then have "short_line line" by simp
  then have "fgets MP_CACHE_LINE_CAPACITY (concat (map (\<lambda>line. line @ [LF]) (line # ls))) =
      Some (line @ [LF], concat (map (\<lambda>line. line @ [LF]) ls))" "c_string (line @ [LF]) = line @ [LF]"
    using fgets_line [of line MP_CACHE_LINE_CAPACITY "concat (map (\<lambda>line. line @ [LF]) ls)"]
    by (simp_all add: short_line_def)
  then show ?case
    using Cons.IH Cons.prems
    by (subst config_load_loop.simps) (simp add: config_load_line_LF split: line_result.splits)
qed

lemma config_load_lines_append:
  "config_load_lines config sect (ls @ ls') =
     (case config_load_lines config sect ls of
        LineError config' \<Rightarrow> LineError config'
      | LineContinue config' sect' \<Rightarrow> config_load_lines config' sect' ls')"
  by (induction ls arbitrary: config sect) (auto split: line_result.splits)

lemma trim_Cons: "\<not> isspace c \<Longrightarrow> \<exists>t. trim (c # rest) = c # t"
proof -
  assume c: "\<not> isspace c"
  have "dropWhile isspace (rev rest @ [c]) = dropWhile isspace (rev rest) @ [c]"
    using c by (simp add: dropWhile_append)
  with c show ?thesis by (simp add: trim_def)
qed

lemma config_load_line_comment [simp]:
  "config_load_line config sect (CHR ''#'' # rest) = LineContinue config sect"
  "config_load_line config sect [] = LineContinue config sect"
proof -
  obtain t where "trim (CHR ''#'' # rest) = CHR ''#'' # t"
    using trim_Cons [of "CHR ''#''" rest] by (auto simp: isspace_def)
  then show "config_load_line config sect (CHR ''#'' # rest) = LineContinue config sect"
    by (simp add: config_load_line_def)
qed (simp add: config_load_line_def trim_def)

text \<open>A name that can stand before the separator.\<close>

definition plain_key :: "string \<Rightarrow> bool" where
  "plain_key key \<longleftrightarrow> key \<noteq> [] \<and> length key < MP_CACHE_TEXT_CAP \<and>
     (\<forall>c \<in> set key. \<not> isspace c \<and> c \<notin> set ''#;[=:'' \<and> c \<noteq> LF \<and> c \<noteq> NUL)"

text \<open>A text the format can carry: neither empty nor starting with a quote, no equals sign, no white space at the ends.\<close>

definition plain_text :: "string \<Rightarrow> bool" where
  "plain_text v \<longleftrightarrow> v \<noteq> [] \<and> \<not> isspace (hd v) \<and> \<not> isspace (last v) \<and> CHR ''='' \<notin> set v \<and>
     LF \<notin> set v \<and> NUL \<notin> set v \<and> length v \<le> 1900"

lemma hd_plain_key: "plain_key key \<Longrightarrow> \<not> isspace (hd key) \<and> \<not> isspace (last key) \<and> hd key \<notin> set ''#;[=:''"
  by (auto simp: plain_key_def)

lemma config_load_line_section:
  assumes "plain_key name"
  shows "config_load_line config sect (name @ '':'') = LineContinue config name"
proof -
  have "trim (name @ '':'') = name @ '':''"
    using hd_plain_key [OF assms] assms by (intro trim_id) (auto simp: plain_key_def isspace_def)
  moreover have "strchr (name @ '':'') (CHR ''='') = None" "strchr (name @ '':'') (CHR '':'') = Some (name, [])"
    using assms strchr_append [of "CHR '':''" name "[]"] by (auto simp: plain_key_def strchr_def)
  moreover have "trim name = name" "trim [] = []"
    using hd_plain_key [OF assms] by (auto intro: trim_id)
  ultimately show ?thesis
    using assms hd_plain_key [OF assms]
    by (simp add: config_load_line_def Let_def mp_cache_unquote_def mp_cache_copy_string_def plain_key_def)
qed

lemma config_load_line_item:
  assumes "plain_key key" "plain_text v" "sect \<noteq> []" "mp_cache_unquote v \<noteq> []"
  shows "config_load_line config sect (template_item key v) =
    (case mp_cache_apply_value config sect key (mp_cache_unquote v) of
       None \<Rightarrow> LineError config | Some config' \<Rightarrow> LineContinue config' sect)"
proof -
  note k = hd_plain_key [OF assms(1)]
  have "trim (template_item key v) = trim (key @ '': '' @ v)"
    using trim_append_space(1) [of "''  ''" "key @ '': '' @ v"] by (simp add: template_item_def isspace_def)
  also have "\<dots> = key @ '': '' @ v"
    using assms k by (intro trim_id) (auto simp: plain_key_def plain_text_def)
  finally have t: "trim (template_item key v) = key @ '': '' @ v" .
  moreover have "strchr (key @ '': '' @ v) (CHR ''='') = None"
    "strchr (key @ '': '' @ v) (CHR '':'') = Some (key, CHR '' '' # v)"
    using assms strchr_append [of "CHR '':''" key "CHR '' '' # v"]
    by (auto simp: plain_key_def plain_text_def strchr_def)
  moreover have "trim key = key" "trim (CHR '' '' # v) = v"
    using k assms(2) trim_append_space(1) [of "'' ''" v] by (auto simp: plain_text_def isspace_def intro: trim_id)
  ultimately show ?thesis
    using assms k by (simp add: config_load_line_def Let_def plain_key_def isspace_def split: option.splits)
qed

lemma length_print_nat: "n < 10 ^ k \<Longrightarrow> 0 < k \<Longrightarrow> length (print_nat n) \<le> k"
proof (induction n arbitrary: k rule: print_nat.induct)
  case (1 n)
  show ?case
  proof (cases "n < 10")
    case True
    then show ?thesis using "1.prems" by (simp add: print_nat.simps [of n])
  next
    case False
    with "1.prems" have "k \<noteq> 1"
      by auto
    with "1.prems" obtain j where k: "k = Suc j" "0 < j"
      by (cases k) auto
    then have "n div 10 < 10 ^ j"
      using "1.prems" by (simp add: less_mult_imp_div_less mult.commute)
    with "1.IH" [OF False this k(2)] False k show ?thesis
      by (simp add: print_nat.simps [of n])
  qed
qed

lemma print_nat_plain:
  assumes "n < 2 ^ 64"
  shows "plain_text (print_nat n)" "mp_cache_unquote (print_nat n) = print_nat n"
proof -
  have d: "isdigit (hd (print_nat n))" "isdigit (last (print_nat n))" and all: "\<forall>c \<in> set (print_nat n). isdigit c"
    using print_nat_digits [OF hd_in_set [OF print_nat_not_Nil [of n]]]
      print_nat_digits [OF last_in_set [OF print_nat_not_Nil [of n]]] print_nat_digits [of _ n] by auto
  have "length (print_nat n) \<le> 20"
    using assms by (intro length_print_nat) simp_all
  with d all show "plain_text (print_nat n)"
    by (auto simp: plain_text_def isdigit_not_isspace isdigit_def)
  from d show "mp_cache_unquote (print_nat n) = print_nat n"
    by (auto simp: mp_cache_unquote_def isdigit_def)
qed

lemma unat_u32_bound: "unat (w :: u32) < 2 ^ 64"
  using unsigned_less [where 'a = nat, of w] by simp

lemma unat_u64_bound: "unat (w :: u64) < 2 ^ 64"
  using unsigned_less [where 'a = nat, of w] by simp

lemma parse_u64_print: "mp_cache_parse_u64 (Some (print_nat (unat w))) = Some w"
  using strtoul_print_nat [OF unat_u64_bound, of "[]" w]
  by (simp add: mp_cache_parse_u64_def trim_def print_nat_not_Nil [symmetric])

lemma parse_u32_print: "mp_cache_parse_u32 (Some (print_nat (unat w))) = Some w"
proof -
  have "unat w \<le> 0xffffffff"
    using unsigned_less [where 'a = nat, of w] by simp
  moreover have "of_nat (unat w) = (ucast w :: u64)"
    by simp
  moreover have "(ucast w :: u64) \<le> 0xffffffff"
    using \<open>unat w \<le> 0xffffffff\<close> by (simp add: word_le_nat_alt unsigned_ucast_eq take_bit_nat_eq_self)
  moreover have "(ucast (ucast w :: u64) :: u32) = w"
    by (rule bit_word_eqI) (auto simp: bit_simps)
  ultimately show ?thesis
    using strtoul_print_nat [OF unat_u32_bound, of "[]" w]
    by (simp add: mp_cache_parse_u32_def trim_def not_less print_nat_not_Nil [symmetric])
qed

lemma parse_bool_print:
  "w \<in> {0, 1} \<Longrightarrow> mp_cache_parse_bool_u32 (Some (if w \<noteq> 0 then ''true'' else ''false'')) = Some w"
  by (auto simp: mp_cache_parse_bool_u32_def)

text \<open>A value a text field of the given capacity can hold and the format can carry.\<close>

definition storable :: "nat \<Rightarrow> string \<Rightarrow> bool" where
  "storable capacity v \<longleftrightarrow> plain_text v \<and> length v < capacity \<and> hd v \<noteq> CHR 0x22 \<and> hd v \<noteq> CHR 0x27"

lemma storable_simps:
  assumes "storable capacity v"
  shows "plain_text v" "mp_cache_unquote v = v" "v \<noteq> []" "mp_cache_copy_string old capacity (Some v) = v"
  using assms by (auto simp: storable_def plain_text_def mp_cache_unquote_def mp_cache_copy_string_def)

lemma quoted_simps:
  assumes "storable capacity v"
  shows "plain_text (CHR 0x22 # v @ [CHR 0x22]) \<longleftrightarrow> length v \<le> 1898" "mp_cache_unquote (CHR 0x22 # v @ [CHR 0x22]) = v"
  using assms by (auto simp: storable_def plain_text_def mp_cache_unquote_def isspace_def)

definition plain_config :: "mp_cache_config \<Rightarrow> bool" where
  "plain_config config \<longleftrightarrow>
     storable MP_CACHE_NAME_CAP (service_name config) \<and>
     storable MP_CACHE_TEXT_CAP (environment_name config) \<and>
     storable MP_CACHE_TEXT_CAP (build_version config) \<and>
     storable MP_CACHE_PATH_CAP (socket_path config) \<and>
     storable MP_CACHE_PATH_CAP (pid_file_path config) \<and>
     storable MP_CACHE_PATH_CAP (data_directory config) \<and>
     storable MP_CACHE_PATH_CAP (export_directory config) \<and>
     storable MP_CACHE_PATH_CAP (checkpoint_path config) \<and>
     storable MP_CACHE_PATH_CAP (journal_path config) \<and>
     storable MP_CACHE_PATH_CAP (log_directory config) \<and>
     storable MP_CACHE_PATH_CAP (logger_bootstrap_path config) \<and>
     storable MP_CACHE_TEXT_CAP (logger_format config) \<and>
     storable MP_CACHE_NAME_CAP (logger_file_name_prefix config) \<and>
     storable MP_CACHE_NAME_CAP (logger_backup_file_name_prefix config) \<and>
     storable MP_CACHE_TEXT_CAP (logger_active_streams config) \<and>
     storable MP_CACHE_TEXT_CAP (logger_stdout_min_level config) \<and>
     storable MP_CACHE_TEXT_CAP (logger_stdout_max_level config) \<and>
     storable MP_CACHE_TEXT_CAP (logger_stderr_min_level config) \<and>
     storable MP_CACHE_TEXT_CAP (logger_stderr_max_level config) \<and>
     storable MP_CACHE_TEXT_CAP (logger_file_min_level config) \<and>
     storable MP_CACHE_TEXT_CAP (logger_file_max_level config) \<and>
     storable MP_CACHE_TEXT_CAP (logger_udp_min_level config) \<and>
     storable MP_CACHE_TEXT_CAP (logger_udp_max_level config) \<and>
     storable MP_CACHE_TEXT_CAP (logger_udp_host config) \<and>
     storable MP_CACHE_SECRET_REF_CAP (bootstrap_admin_token_secret_ref config) \<and>
     storable MP_CACHE_SECRET_REF_CAP (storage_key_secret_ref config) \<and>
     mp_cache_is_build_version_valid (Some (build_version config)) \<and> logger_pretty_output config \<in> {0, 1}"

lemma config_load_lines_item:
  assumes "plain_key key" "plain_text v" "sect \<noteq> []" "mp_cache_unquote v \<noteq> []"
    and "mp_cache_apply_value config sect key (mp_cache_unquote v) = Some config'"
  shows "config_load_lines config sect (template_item key v # ls) = config_load_lines config' sect ls"
  using config_load_line_item [OF assms(1-4)] assms(5) by simp

lemma config_load_lines_section:
  "plain_key name \<Longrightarrow> config_load_lines config sect ((name @ '':'') # ls) = config_load_lines config name ls"
  using config_load_line_section [of name config sect] by simp

lemma plain_keys:
  "plain_key ''active_streams''"
  "plain_key ''backup_file_name_prefix''"
  "plain_key ''bootstrap_admin_token_secret_ref''"
  "plain_key ''bootstrap_path''"
  "plain_key ''bucket_count''"
  "plain_key ''buffer_capacity''"
  "plain_key ''build_version''"
  "plain_key ''cache''"
  "plain_key ''checkpoint_path''"
  "plain_key ''context_capacity''"
  "plain_key ''data_directory''"
  "plain_key ''default_ttl_seconds''"
  "plain_key ''environment_name''"
  "plain_key ''export_directory''"
  "plain_key ''field_capacity''"
  "plain_key ''field_key_capacity''"
  "plain_key ''field_value_capacity''"
  "plain_key ''file_max_level''"
  "plain_key ''file_min_level''"
  "plain_key ''file_name_prefix''"
  "plain_key ''format''"
  "plain_key ''journal_path''"
  "plain_key ''log_directory''"
  "plain_key ''max_export_files''"
  "plain_key ''max_key_bytes''"
  "plain_key ''max_log_lines''"
  "plain_key ''max_ttl_seconds''"
  "plain_key ''max_value_bytes''"
  "plain_key ''memory_limit_bytes''"
  "plain_key ''message_capacity''"
  "plain_key ''min_ttl_seconds''"
  "plain_key ''mp_logger''"
  "plain_key ''observability''"
  "plain_key ''pid_file_path''"
  "plain_key ''pretty_output''"
  "plain_key ''rate_limit_requests''"
  "plain_key ''rate_limit_window_seconds''"
  "plain_key ''security''"
  "plain_key ''server''"
  "plain_key ''service''"
  "plain_key ''service_name''"
  "plain_key ''shutdown_timeout_millis''"
  "plain_key ''socket_path''"
  "plain_key ''stderr_max_level''"
  "plain_key ''stderr_min_level''"
  "plain_key ''stdout_max_level''"
  "plain_key ''stdout_min_level''"
  "plain_key ''storage''"
  "plain_key ''storage_key_secret_ref''"
  "plain_key ''sweep_interval_seconds''"
  "plain_key ''udp_host''"
  "plain_key ''udp_max_level''"
  "plain_key ''udp_min_level''"
  "plain_key ''udp_port''"
  by (simp_all add: plain_key_def isspace_def MP_CACHE_TEXT_CAP_def)

lemma section_service: "config_load_line config sect ''service:'' = LineContinue config ''service''"
  using config_load_line_section [of "''service''" config sect] by (simp add: plain_keys)

lemma section_server: "config_load_line config sect ''server:'' = LineContinue config ''server''"
  using config_load_line_section [of "''server''" config sect] by (simp add: plain_keys)

lemma section_cache: "config_load_line config sect ''cache:'' = LineContinue config ''cache''"
  using config_load_line_section [of "''cache''" config sect] by (simp add: plain_keys)

lemma section_storage: "config_load_line config sect ''storage:'' = LineContinue config ''storage''"
  using config_load_line_section [of "''storage''" config sect] by (simp add: plain_keys)

lemma section_observability: "config_load_line config sect ''observability:'' = LineContinue config ''observability''"
  using config_load_line_section [of "''observability''" config sect] by (simp add: plain_keys)

lemma section_mp_logger: "config_load_line config sect ''mp_logger:'' = LineContinue config ''mp_logger''"
  using config_load_line_section [of "''mp_logger''" config sect] by (simp add: plain_keys)

lemma section_security: "config_load_line config sect ''security:'' = LineContinue config ''security''"
  using config_load_line_section [of "''security''" config sect] by (simp add: plain_keys)

lemmas number_simps = print_nat_plain [OF unat_u32_bound] print_nat_plain [OF unat_u64_bound]

lemma bool_text_plain:
  "plain_text (if b then ''true'' else ''false'')"
  "mp_cache_unquote (if b then ''true'' else ''false'') = (if b then ''true'' else ''false'')"
  by (simp_all add: plain_text_def isspace_def mp_cache_unquote_def)

lemma template_service_loads:
  assumes "plain_config c"
  shows "config_load_lines config sect (template_service_lines c) = LineContinue (config\<lparr>environment_name := environment_name c,
      service_name := service_name c,
      build_version := build_version c\<rparr>) ''service''"
proof -
  have s_environment_name: "storable MP_CACHE_TEXT_CAP (environment_name c)"
    using assms by (simp add: plain_config_def)
  have s_service_name: "storable MP_CACHE_NAME_CAP (service_name c)"
    using assms by (simp add: plain_config_def)
  have s_build_version: "storable MP_CACHE_TEXT_CAP (build_version c)"
    using assms by (simp add: plain_config_def)
  have v_build: "mp_cache_is_build_version_valid (Some (build_version c))"
    using assms by (simp add: plain_config_def)
  have b_len: "length (build_version c) \<le> 1898"
    using s_build_version by (simp add: storable_def MP_CACHE_TEXT_CAP_def)
  show ?thesis
    by (simp add: template_service_lines_def section_service config_load_line_item
      plain_keys mp_cache_apply_value_def apply_service_value_def parse_u32_print parse_u64_print number_simps
      storable_simps [OF s_environment_name] storable_simps [OF s_service_name] storable_simps [OF s_build_version] quoted_simps [OF s_build_version] v_build b_len)
qed

lemma template_server_loads:
  assumes "plain_config c"
  shows "config_load_lines config sect (template_server_lines c) = LineContinue (config\<lparr>socket_path := socket_path c,
      pid_file_path := pid_file_path c,
      shutdown_timeout_millis := shutdown_timeout_millis c\<rparr>) ''server''"
proof -
  have s_socket_path: "storable MP_CACHE_PATH_CAP (socket_path c)"
    using assms by (simp add: plain_config_def)
  have s_pid_file_path: "storable MP_CACHE_PATH_CAP (pid_file_path c)"
    using assms by (simp add: plain_config_def)
  show ?thesis
    by (simp add: template_server_lines_def section_server config_load_line_item
      plain_keys mp_cache_apply_value_def apply_server_value_def parse_u32_print parse_u64_print number_simps
      storable_simps [OF s_socket_path] storable_simps [OF s_pid_file_path])
qed

lemma template_cache_loads:
  assumes "plain_config c"
  shows "config_load_lines config sect (template_cache_lines c) = LineContinue (config\<lparr>memory_limit_bytes := memory_limit_bytes c,
      default_ttl_seconds := default_ttl_seconds c,
      min_ttl_seconds := min_ttl_seconds c,
      max_ttl_seconds := max_ttl_seconds c,
      max_key_bytes := max_key_bytes c,
      max_value_bytes := max_value_bytes c,
      bucket_count := bucket_count c,
      sweep_interval_seconds := sweep_interval_seconds c\<rparr>) ''cache''"
proof -
  show ?thesis
    by (simp add: template_cache_lines_def section_cache config_load_line_item
      plain_keys mp_cache_apply_value_def apply_cache_value_def parse_u32_print parse_u64_print number_simps
      )
qed

lemma template_storage_loads:
  assumes "plain_config c"
  shows "config_load_lines config sect (template_storage_lines c) = LineContinue (config\<lparr>data_directory := data_directory c,
      export_directory := export_directory c,
      checkpoint_path := checkpoint_path c,
      journal_path := journal_path c,
      max_export_files := max_export_files c\<rparr>) ''storage''"
proof -
  have s_data_directory: "storable MP_CACHE_PATH_CAP (data_directory c)"
    using assms by (simp add: plain_config_def)
  have s_export_directory: "storable MP_CACHE_PATH_CAP (export_directory c)"
    using assms by (simp add: plain_config_def)
  have s_checkpoint_path: "storable MP_CACHE_PATH_CAP (checkpoint_path c)"
    using assms by (simp add: plain_config_def)
  have s_journal_path: "storable MP_CACHE_PATH_CAP (journal_path c)"
    using assms by (simp add: plain_config_def)
  show ?thesis
    by (simp add: template_storage_lines_def section_storage config_load_line_item
      plain_keys mp_cache_apply_value_def apply_storage_value_def parse_u32_print parse_u64_print number_simps
      storable_simps [OF s_data_directory] storable_simps [OF s_export_directory] storable_simps [OF s_checkpoint_path] storable_simps [OF s_journal_path])
qed

lemma template_observability_loads:
  assumes "plain_config c"
  shows "config_load_lines config sect (template_observability_lines c) = LineContinue (config\<lparr>log_directory := log_directory c,
      max_log_lines := max_log_lines c\<rparr>) ''observability''"
proof -
  have s_log_directory: "storable MP_CACHE_PATH_CAP (log_directory c)"
    using assms by (simp add: plain_config_def)
  show ?thesis
    by (simp add: template_observability_lines_def section_observability config_load_line_item
      plain_keys mp_cache_apply_value_def apply_observability_value_def parse_u32_print parse_u64_print number_simps
      storable_simps [OF s_log_directory])
qed

lemma template_mp_logger_loads:
  assumes "plain_config c"
  shows "config_load_lines config sect (template_mp_logger_lines c) = LineContinue (config\<lparr>logger_bootstrap_path := logger_bootstrap_path c,
      logger_buffer_capacity := logger_buffer_capacity c,
      logger_message_capacity := logger_message_capacity c,
      logger_context_capacity := logger_context_capacity c,
      logger_field_capacity := logger_field_capacity c,
      logger_field_key_capacity := logger_field_key_capacity c,
      logger_field_value_capacity := logger_field_value_capacity c,
      logger_format := logger_format c,
      logger_pretty_output := logger_pretty_output c,
      logger_file_name_prefix := logger_file_name_prefix c,
      logger_backup_file_name_prefix := logger_backup_file_name_prefix c,
      logger_active_streams := logger_active_streams c,
      logger_stdout_min_level := logger_stdout_min_level c,
      logger_stdout_max_level := logger_stdout_max_level c,
      logger_stderr_min_level := logger_stderr_min_level c,
      logger_stderr_max_level := logger_stderr_max_level c,
      logger_file_min_level := logger_file_min_level c,
      logger_file_max_level := logger_file_max_level c,
      logger_udp_min_level := logger_udp_min_level c,
      logger_udp_max_level := logger_udp_max_level c,
      logger_udp_host := logger_udp_host c,
      logger_udp_port := logger_udp_port c\<rparr>) ''mp_logger''"
proof -
  have s_logger_bootstrap_path: "storable MP_CACHE_PATH_CAP (logger_bootstrap_path c)"
    using assms by (simp add: plain_config_def)
  have s_logger_format: "storable MP_CACHE_TEXT_CAP (logger_format c)"
    using assms by (simp add: plain_config_def)
  have s_logger_file_name_prefix: "storable MP_CACHE_NAME_CAP (logger_file_name_prefix c)"
    using assms by (simp add: plain_config_def)
  have s_logger_backup_file_name_prefix: "storable MP_CACHE_NAME_CAP (logger_backup_file_name_prefix c)"
    using assms by (simp add: plain_config_def)
  have s_logger_active_streams: "storable MP_CACHE_TEXT_CAP (logger_active_streams c)"
    using assms by (simp add: plain_config_def)
  have s_logger_stdout_min_level: "storable MP_CACHE_TEXT_CAP (logger_stdout_min_level c)"
    using assms by (simp add: plain_config_def)
  have s_logger_stdout_max_level: "storable MP_CACHE_TEXT_CAP (logger_stdout_max_level c)"
    using assms by (simp add: plain_config_def)
  have s_logger_stderr_min_level: "storable MP_CACHE_TEXT_CAP (logger_stderr_min_level c)"
    using assms by (simp add: plain_config_def)
  have s_logger_stderr_max_level: "storable MP_CACHE_TEXT_CAP (logger_stderr_max_level c)"
    using assms by (simp add: plain_config_def)
  have s_logger_file_min_level: "storable MP_CACHE_TEXT_CAP (logger_file_min_level c)"
    using assms by (simp add: plain_config_def)
  have s_logger_file_max_level: "storable MP_CACHE_TEXT_CAP (logger_file_max_level c)"
    using assms by (simp add: plain_config_def)
  have s_logger_udp_min_level: "storable MP_CACHE_TEXT_CAP (logger_udp_min_level c)"
    using assms by (simp add: plain_config_def)
  have s_logger_udp_max_level: "storable MP_CACHE_TEXT_CAP (logger_udp_max_level c)"
    using assms by (simp add: plain_config_def)
  have s_logger_udp_host: "storable MP_CACHE_TEXT_CAP (logger_udp_host c)"
    using assms by (simp add: plain_config_def)
  have pretty: "logger_pretty_output c \<in> {0, 1}"
    using assms by (simp add: plain_config_def)
  show ?thesis
    by (simp add: template_mp_logger_lines_def section_mp_logger config_load_line_item
      plain_keys mp_cache_apply_value_def apply_mp_logger_value_def parse_u32_print parse_u64_print number_simps
      storable_simps [OF s_logger_bootstrap_path] storable_simps [OF s_logger_format] storable_simps [OF s_logger_file_name_prefix] storable_simps [OF s_logger_backup_file_name_prefix] storable_simps [OF s_logger_active_streams] storable_simps [OF s_logger_stdout_min_level] storable_simps [OF s_logger_stdout_max_level] storable_simps [OF s_logger_stderr_min_level] storable_simps [OF s_logger_stderr_max_level] storable_simps [OF s_logger_file_min_level] storable_simps [OF s_logger_file_max_level] storable_simps [OF s_logger_udp_min_level] storable_simps [OF s_logger_udp_max_level] storable_simps [OF s_logger_udp_host] parse_bool_print [OF pretty] bool_text_plain)
qed

lemma template_security_loads:
  assumes "plain_config c"
  shows "config_load_lines config sect (template_security_lines c) = LineContinue (config\<lparr>bootstrap_admin_token_secret_ref := bootstrap_admin_token_secret_ref c,
      storage_key_secret_ref := storage_key_secret_ref c,
      rate_limit_requests := rate_limit_requests c,
      rate_limit_window_seconds := rate_limit_window_seconds c\<rparr>) ''security''"
proof -
  have s_bootstrap_admin_token_secret_ref: "storable MP_CACHE_SECRET_REF_CAP (bootstrap_admin_token_secret_ref c)"
    using assms by (simp add: plain_config_def)
  have s_storage_key_secret_ref: "storable MP_CACHE_SECRET_REF_CAP (storage_key_secret_ref c)"
    using assms by (simp add: plain_config_def)
  show ?thesis
    by (simp add: template_security_lines_def section_security config_load_line_item
      plain_keys mp_cache_apply_value_def apply_security_value_def parse_u32_print parse_u64_print number_simps
      storable_simps [OF s_bootstrap_admin_token_secret_ref] storable_simps [OF s_storage_key_secret_ref])
qed

lemma template_header_loads:
  "config_load_lines config sect template_header_lines = LineContinue config sect"
  by (simp add: template_header_lines_def)

text \<open>Every line of the template fits into one \<open>fgets\<close>.\<close>

lemma short_item: "plain_key key \<Longrightarrow> plain_text v \<Longrightarrow> short_line (template_item key v)"
  by (auto simp: short_line_def template_item_def plain_key_def plain_text_def MP_CACHE_LINE_CAPACITY_def
      MP_CACHE_TEXT_CAP_def)

lemma template_header_short: "\<forall>line \<in> set template_header_lines. short_line line"
  by (simp add: template_header_lines_def short_line_def MP_CACHE_LINE_CAPACITY_def)

lemma template_service_short:
  assumes "plain_config c"
  shows "\<forall>line \<in> set (template_service_lines c). short_line line"
proof -
  have s_environment_name: "storable MP_CACHE_TEXT_CAP (environment_name c)"
    using assms by (simp add: plain_config_def)
  have s_service_name: "storable MP_CACHE_NAME_CAP (service_name c)"
    using assms by (simp add: plain_config_def)
  have s_build_version: "storable MP_CACHE_TEXT_CAP (build_version c)"
    using assms by (simp add: plain_config_def)
  have b_len: "length (build_version c) \<le> 1898"
    using s_build_version by (simp add: storable_def MP_CACHE_TEXT_CAP_def)
  have literal: "short_line line" if "line \<in> {[], ''service:'', ''# Valid values: local, development, qa, staging, production'', ''# Build artifacts use MAJOR.MINOR.HOTFIX and local builds increment MINOR by default.''}" for line
    using that by (auto simp: short_line_def MP_CACHE_LINE_CAPACITY_def)
  show ?thesis
    by (simp add: template_service_lines_def short_item plain_keys number_simps literal storable_simps [OF s_environment_name] storable_simps [OF s_service_name] storable_simps [OF s_build_version] quoted_simps [OF s_build_version] b_len)
qed

lemma template_server_short:
  assumes "plain_config c"
  shows "\<forall>line \<in> set (template_server_lines c). short_line line"
proof -
  have s_socket_path: "storable MP_CACHE_PATH_CAP (socket_path c)"
    using assms by (simp add: plain_config_def)
  have s_pid_file_path: "storable MP_CACHE_PATH_CAP (pid_file_path c)"
    using assms by (simp add: plain_config_def)
  have literal: "short_line line" if "line \<in> {[], ''server:'', ''# Use an absolute socket path in long-lived deployments.''}" for line
    using that by (auto simp: short_line_def MP_CACHE_LINE_CAPACITY_def)
  show ?thesis
    by (simp add: template_server_lines_def short_item plain_keys number_simps literal storable_simps [OF s_socket_path] storable_simps [OF s_pid_file_path])
qed

lemma template_cache_short:
  assumes "plain_config c"
  shows "\<forall>line \<in> set (template_cache_lines c). short_line line"
proof -
  have literal: "short_line line" if "line \<in> {[], ''cache:'', ''# Maximum total in-memory cache footprint in bytes.'', ''# Default TTL used when a write does not provide an explicit TTL.''}" for line
    using that by (auto simp: short_line_def MP_CACHE_LINE_CAPACITY_def)
  show ?thesis
    by (simp add: template_cache_lines_def short_item plain_keys number_simps literal )
qed

lemma template_storage_short:
  assumes "plain_config c"
  shows "\<forall>line \<in> set (template_storage_lines c). short_line line"
proof -
  have s_data_directory: "storable MP_CACHE_PATH_CAP (data_directory c)"
    using assms by (simp add: plain_config_def)
  have s_export_directory: "storable MP_CACHE_PATH_CAP (export_directory c)"
    using assms by (simp add: plain_config_def)
  have s_checkpoint_path: "storable MP_CACHE_PATH_CAP (checkpoint_path c)"
    using assms by (simp add: plain_config_def)
  have s_journal_path: "storable MP_CACHE_PATH_CAP (journal_path c)"
    using assms by (simp add: plain_config_def)
  have literal: "short_line line" if "line \<in> {[], ''storage:''}" for line
    using that by (auto simp: short_line_def MP_CACHE_LINE_CAPACITY_def)
  show ?thesis
    by (simp add: template_storage_lines_def short_item plain_keys number_simps literal storable_simps [OF s_data_directory] storable_simps [OF s_export_directory] storable_simps [OF s_checkpoint_path] storable_simps [OF s_journal_path])
qed

lemma template_observability_short:
  assumes "plain_config c"
  shows "\<forall>line \<in> set (template_observability_lines c). short_line line"
proof -
  have s_log_directory: "storable MP_CACHE_PATH_CAP (log_directory c)"
    using assms by (simp add: plain_config_def)
  have literal: "short_line line" if "line \<in> {[], ''observability:''}" for line
    using that by (auto simp: short_line_def MP_CACHE_LINE_CAPACITY_def)
  show ?thesis
    by (simp add: template_observability_lines_def short_item plain_keys number_simps literal storable_simps [OF s_log_directory])
qed

lemma template_mp_logger_short:
  assumes "plain_config c"
  shows "\<forall>line \<in> set (template_mp_logger_lines c). short_line line"
proof -
  have s_logger_bootstrap_path: "storable MP_CACHE_PATH_CAP (logger_bootstrap_path c)"
    using assms by (simp add: plain_config_def)
  have s_logger_format: "storable MP_CACHE_TEXT_CAP (logger_format c)"
    using assms by (simp add: plain_config_def)
  have s_logger_file_name_prefix: "storable MP_CACHE_NAME_CAP (logger_file_name_prefix c)"
    using assms by (simp add: plain_config_def)
  have s_logger_backup_file_name_prefix: "storable MP_CACHE_NAME_CAP (logger_backup_file_name_prefix c)"
    using assms by (simp add: plain_config_def)
  have s_logger_active_streams: "storable MP_CACHE_TEXT_CAP (logger_active_streams c)"
    using assms by (simp add: plain_config_def)
  have s_logger_stdout_min_level: "storable MP_CACHE_TEXT_CAP (logger_stdout_min_level c)"
    using assms by (simp add: plain_config_def)
  have s_logger_stdout_max_level: "storable MP_CACHE_TEXT_CAP (logger_stdout_max_level c)"
    using assms by (simp add: plain_config_def)
  have s_logger_stderr_min_level: "storable MP_CACHE_TEXT_CAP (logger_stderr_min_level c)"
    using assms by (simp add: plain_config_def)
  have s_logger_stderr_max_level: "storable MP_CACHE_TEXT_CAP (logger_stderr_max_level c)"
    using assms by (simp add: plain_config_def)
  have s_logger_file_min_level: "storable MP_CACHE_TEXT_CAP (logger_file_min_level c)"
    using assms by (simp add: plain_config_def)
  have s_logger_file_max_level: "storable MP_CACHE_TEXT_CAP (logger_file_max_level c)"
    using assms by (simp add: plain_config_def)
  have s_logger_udp_min_level: "storable MP_CACHE_TEXT_CAP (logger_udp_min_level c)"
    using assms by (simp add: plain_config_def)
  have s_logger_udp_max_level: "storable MP_CACHE_TEXT_CAP (logger_udp_max_level c)"
    using assms by (simp add: plain_config_def)
  have s_logger_udp_host: "storable MP_CACHE_TEXT_CAP (logger_udp_host c)"
    using assms by (simp add: plain_config_def)
  have literal: "short_line line" if "line \<in> {[], ''mp_logger:''}" for line
    using that by (auto simp: short_line_def MP_CACHE_LINE_CAPACITY_def)
  show ?thesis
    by (simp add: template_mp_logger_lines_def short_item plain_keys number_simps literal storable_simps [OF s_logger_bootstrap_path] storable_simps [OF s_logger_format] storable_simps [OF s_logger_file_name_prefix] storable_simps [OF s_logger_backup_file_name_prefix] storable_simps [OF s_logger_active_streams] storable_simps [OF s_logger_stdout_min_level] storable_simps [OF s_logger_stdout_max_level] storable_simps [OF s_logger_stderr_min_level] storable_simps [OF s_logger_stderr_max_level] storable_simps [OF s_logger_file_min_level] storable_simps [OF s_logger_file_max_level] storable_simps [OF s_logger_udp_min_level] storable_simps [OF s_logger_udp_max_level] storable_simps [OF s_logger_udp_host] bool_text_plain)
qed

lemma template_security_short:
  assumes "plain_config c"
  shows "\<forall>line \<in> set (template_security_lines c). short_line line"
proof -
  have s_bootstrap_admin_token_secret_ref: "storable MP_CACHE_SECRET_REF_CAP (bootstrap_admin_token_secret_ref c)"
    using assms by (simp add: plain_config_def)
  have s_storage_key_secret_ref: "storable MP_CACHE_SECRET_REF_CAP (storage_key_secret_ref c)"
    using assms by (simp add: plain_config_def)
  have literal: "short_line line" if "line \<in> {[], ''security:'', ''# Local development may use env refs. Non-local deployments should prefer file refs.''}" for line
    using that by (auto simp: short_line_def MP_CACHE_LINE_CAPACITY_def)
  show ?thesis
    by (simp add: template_security_lines_def short_item plain_keys number_simps literal storable_simps [OF s_bootstrap_admin_token_secret_ref] storable_simps [OF s_storage_key_secret_ref])
qed


lemma template_short:
  "plain_config c \<Longrightarrow> \<forall>line \<in> set (config_template_lines c). short_line line"
  unfolding config_template_lines_def set_append Ball_def Un_iff
  using template_header_short template_service_short [of c] template_server_short [of c] template_cache_short [of c] template_storage_short [of c] template_observability_short [of c] template_mp_logger_short [of c] template_security_short [of c] by blast

lemma template_loads:
  assumes "plain_config c"
  shows "config_load_loop config [] (config_template_text c) = LineContinue c ''security''"
proof -
  have "config_load_loop config [] (config_template_text c) = config_load_lines config [] (config_template_lines c)"
    unfolding config_template_text_def by (rule config_load_loop_lines [OF template_short [OF assms]])
  also have "\<dots> = LineContinue c ''security''"
    unfolding config_template_lines_def
    by (simp add: config_load_lines_append template_header_loads template_service_loads [OF assms] template_server_loads [OF assms] template_cache_loads [OF assms] template_storage_loads [OF assms] template_observability_loads [OF assms] template_mp_logger_loads [OF assms] template_security_loads [OF assms])
  finally show ?thesis .
qed

section \<open>Every text field fits its array\<close>

definition config_fits :: "mp_cache_config \<Rightarrow> bool" where
  "config_fits config \<longleftrightarrow>
     length (service_name config) < MP_CACHE_NAME_CAP \<and>
     length (environment_name config) < MP_CACHE_TEXT_CAP \<and>
     length (build_version config) < MP_CACHE_TEXT_CAP \<and>
     length (socket_path config) < MP_CACHE_PATH_CAP \<and>
     length (pid_file_path config) < MP_CACHE_PATH_CAP \<and>
     length (data_directory config) < MP_CACHE_PATH_CAP \<and>
     length (export_directory config) < MP_CACHE_PATH_CAP \<and>
     length (checkpoint_path config) < MP_CACHE_PATH_CAP \<and>
     length (journal_path config) < MP_CACHE_PATH_CAP \<and>
     length (log_directory config) < MP_CACHE_PATH_CAP \<and>
     length (logger_bootstrap_path config) < MP_CACHE_PATH_CAP \<and>
     length (logger_format config) < MP_CACHE_TEXT_CAP \<and>
     length (logger_file_name_prefix config) < MP_CACHE_NAME_CAP \<and>
     length (logger_backup_file_name_prefix config) < MP_CACHE_NAME_CAP \<and>
     length (logger_active_streams config) < MP_CACHE_TEXT_CAP \<and>
     length (logger_stdout_min_level config) < MP_CACHE_TEXT_CAP \<and>
     length (logger_stdout_max_level config) < MP_CACHE_TEXT_CAP \<and>
     length (logger_stderr_min_level config) < MP_CACHE_TEXT_CAP \<and>
     length (logger_stderr_max_level config) < MP_CACHE_TEXT_CAP \<and>
     length (logger_file_min_level config) < MP_CACHE_TEXT_CAP \<and>
     length (logger_file_max_level config) < MP_CACHE_TEXT_CAP \<and>
     length (logger_udp_min_level config) < MP_CACHE_TEXT_CAP \<and>
     length (logger_udp_max_level config) < MP_CACHE_TEXT_CAP \<and>
     length (logger_udp_host config) < MP_CACHE_TEXT_CAP \<and>
     length (bootstrap_admin_token_secret_ref config) < MP_CACHE_SECRET_REF_CAP \<and>
     length (storage_key_secret_ref config) < MP_CACHE_SECRET_REF_CAP"

lemmas capacity_defs = MP_CACHE_TEXT_CAP_def MP_CACHE_NAME_CAP_def MP_CACHE_SECRET_REF_CAP_def MP_CACHE_PATH_CAP_def

lemma if_some_cases:
  assumes "(if P then x else y) = Some z"
  obtains "P" "x = Some z" | "\<not> P" "y = Some z"
  using assms by (auto split: if_splits)

lemma length_copy_string:
  "length (mp_cache_copy_string old MP_CACHE_TEXT_CAP src) < MP_CACHE_TEXT_CAP"
  "length (mp_cache_copy_string old MP_CACHE_NAME_CAP src) < MP_CACHE_NAME_CAP"
  "length (mp_cache_copy_string old MP_CACHE_SECRET_REF_CAP src) < MP_CACHE_SECRET_REF_CAP"
  "length (mp_cache_copy_string old MP_CACHE_PATH_CAP src) < MP_CACHE_PATH_CAP"
  by (auto simp: mp_cache_copy_string_def capacity_defs snprintf_s_def split: option.splits)

lemma apply_service_fits: "apply_service_value config key v = Some config' \<Longrightarrow> config_fits config \<Longrightarrow> config_fits config'"
  unfolding apply_service_value_def config_fits_def
  by (elim if_some_cases; clarsimp simp: length_copy_string)

lemma apply_server_fits: "apply_server_value config key v = Some config' \<Longrightarrow> config_fits config \<Longrightarrow> config_fits config'"
  unfolding apply_server_value_def config_fits_def
  by (elim if_some_cases; clarsimp simp: length_copy_string)

lemma apply_cache_fits: "apply_cache_value config key v = Some config' \<Longrightarrow> config_fits config \<Longrightarrow> config_fits config'"
  unfolding apply_cache_value_def config_fits_def
  by (elim if_some_cases; clarsimp simp: length_copy_string)

lemma apply_storage_fits: "apply_storage_value config key v = Some config' \<Longrightarrow> config_fits config \<Longrightarrow> config_fits config'"
  unfolding apply_storage_value_def config_fits_def
  by (elim if_some_cases; clarsimp simp: length_copy_string)

lemma apply_observability_fits: "apply_observability_value config key v = Some config' \<Longrightarrow> config_fits config \<Longrightarrow> config_fits config'"
  unfolding apply_observability_value_def config_fits_def
  by (elim if_some_cases; clarsimp simp: length_copy_string)

lemma apply_mp_logger_fits: "apply_mp_logger_value config key v = Some config' \<Longrightarrow> config_fits config \<Longrightarrow> config_fits config'"
  unfolding apply_mp_logger_value_def config_fits_def
  by (elim if_some_cases; clarsimp simp: length_copy_string)

lemma apply_security_fits: "apply_security_value config key v = Some config' \<Longrightarrow> config_fits config \<Longrightarrow> config_fits config'"
  unfolding apply_security_value_def config_fits_def
  by (elim if_some_cases; clarsimp simp: length_copy_string)


lemma apply_value_fits:
  "mp_cache_apply_value config sect key v = Some config' \<Longrightarrow> config_fits config \<Longrightarrow> config_fits config'"
  unfolding mp_cache_apply_value_def
  by (elim if_some_cases; (erule (1) apply_service_fits | erule (1) apply_server_fits | erule (1) apply_cache_fits | erule (1) apply_storage_fits | erule (1) apply_observability_fits | erule (1) apply_mp_logger_fits | erule (1) apply_security_fits | simp))

lemma load_line_fits:
  "config_load_line config sect line = LineContinue config' sect' \<Longrightarrow> config_fits config \<Longrightarrow> config_fits config'"
  by (auto simp: config_load_line_def Let_def split: if_splits option.splits prod.splits intro: apply_value_fits)

lemma load_loop_fits:
  "config_load_loop config sect stream = LineContinue config' sect' \<Longrightarrow> config_fits config \<Longrightarrow> config_fits config'"
proof (induction config sect stream rule: config_load_loop.induct)
  case (1 config sect stream)
  show ?case
  proof (cases "fgets MP_CACHE_LINE_CAPACITY stream")
    case None
    with "1.prems" show ?thesis by (subst (asm) config_load_loop.simps) simp
  next
    case (Some p)
    obtain chunk rest where p: "p = (chunk, rest)" by (cases p)
    from "1.prems" Some p obtain config2 sect2 where
      line: "config_load_line config sect (c_string chunk) = LineContinue config2 sect2"
      and rest: "config_load_loop config2 sect2 rest = LineContinue config' sect'"
      by (subst (asm) config_load_loop.simps) (auto split: line_result.splits)
    from "1.IH" [OF Some p [symmetric] line rest] load_line_fits [OF line] "1.prems" show ?thesis
      by blast
  qed
qed

lemma write_template_contents:
  assumes "mp_cache_config_write_template e fs (Some path) c = (MP_CACHE_CONFIG_STATUS_OK, fs')"
  shows "file_contents fs' path = Some (bytes_of (config_template_text c))"
  using assms
  by (auto simp: mp_cache_config_write_template_def posix_open_write_def file_contents_posix_write Let_def
      split: prod.splits sum.splits if_splits)

lemma defaults_valid: "mp_cache_validate mp_cache_config_init_defaults = MP_CACHE_CONFIG_STATUS_OK"
  by (simp add: mp_cache_validate_def mp_cache_config_init_defaults_def mp_cache_copy_string_def snprintf_s_def
      capacity_defs mp_cache_is_build_version_valid_def isdigit_def)

lemma defaults_plain: "plain_config mp_cache_config_init_defaults"
  by (simp add: plain_config_def storable_def plain_text_def isspace_def mp_cache_config_init_defaults_def
      mp_cache_copy_string_def snprintf_s_def capacity_defs mp_cache_is_build_version_valid_def isdigit_def)

lemma defaults_fit: "config_fits mp_cache_config_init_defaults"
  by (simp add: config_fits_def mp_cache_config_init_defaults_def length_copy_string)

lemma default_template_written:
  "mp_cache_config_write_template good_env [] (Some ''mp.yaml'') mp_cache_config_init_defaults =
     (MP_CACHE_CONFIG_STATUS_OK,
      [(''mp.yaml'', RegularFile (bytes_of (config_template_text mp_cache_config_init_defaults)))])"
  by (simp add: mp_cache_config_write_template_def mp_cache_fs_ensure_parent_directory_def MP_CACHE_PATH_CAP_def
      strrchr_def strchr_def posix_open_write_def posix_write_def env_simps Let_def)

lemma default_template_loads:
  "mp_cache_config_load_file good_env
     [(''mp.yaml'', RegularFile (bytes_of (config_template_text mp_cache_config_init_defaults)))]
     (Some ''mp.yaml'') mp_cache_config_init_defaults =
   (MP_CACHE_CONFIG_STATUS_OK, mp_cache_config_init_defaults)"
  by (simp add: mp_cache_config_load_file_def posix_open_read_def env_simps template_loads [OF defaults_plain] defaults_valid)


section \<open>Properties\<close>







end
