(* ===== verification/Cache.thy ===== *)
theory Cache
  imports Config
begin

text \<open>
  Model of \<^verbatim>\<open>internal/cache/cache.c\<close>: the chained hash table with byte accounting. A bucket is
  the list of its entries in chain order, and a slot (the pointer to a link that the code passes
  around) is a bucket with a position in its chain; the position after the last entry is the link
  that holds NULL. Lengths of keys and values are the lengths of the lists; the two accounting fields
  are 64-bit words and wrap. A released table has no buckets. The theory ends with the invariant, the
  refinement of the table to a finite map from keys to values with expiry times, and the interface
  that the storage component relies on.
\<close>


section \<open>Data\<close>

record mp_cache_entry =
  entry_key :: bytes
  entry_value :: bytes
  entry_expires_at :: int

record mp_cache_store =
  buckets :: "mp_cache_entry list list"
  store_bucket_count :: nat
  entry_count :: u64
  bytes_used :: u64
  store_memory_limit :: u64
  store_max_key_bytes :: u32
  store_max_value_bytes :: u32

record mp_cache_store_stats =
  stats_entry_count :: u64
  stats_bytes_used :: u64
  stats_memory_limit :: u64

datatype mp_cache_store_status =
    MP_CACHE_STORE_STATUS_OK
  | MP_CACHE_STORE_STATUS_NOT_FOUND
  | MP_CACHE_STORE_STATUS_EXPIRED
  | MP_CACHE_STORE_STATUS_INVALID_ARGUMENT
  | MP_CACHE_STORE_STATUS_LIMIT_EXCEEDED
  | MP_CACHE_STORE_STATUS_NO_MEMORY

fun mp_cache_store_status_name :: "mp_cache_store_status \<Rightarrow> string" where
  "mp_cache_store_status_name MP_CACHE_STORE_STATUS_OK = ''OK''"
| "mp_cache_store_status_name MP_CACHE_STORE_STATUS_NOT_FOUND = ''NOT_FOUND''"
| "mp_cache_store_status_name MP_CACHE_STORE_STATUS_EXPIRED = ''EXPIRED''"
| "mp_cache_store_status_name MP_CACHE_STORE_STATUS_INVALID_ARGUMENT = ''INVALID_ARGUMENT''"
| "mp_cache_store_status_name MP_CACHE_STORE_STATUS_LIMIT_EXCEEDED = ''LIMIT_EXCEEDED''"
| "mp_cache_store_status_name MP_CACHE_STORE_STATUS_NO_MEMORY = ''NO_MEMORY''"


section \<open>Hashing, cost and slots\<close>

definition mp_cache_hash_bytes :: "bytes \<Rightarrow> u64" where
  "mp_cache_hash_bytes bs = foldl (\<lambda>hash b. (hash XOR ucast b) * 1099511628211) 1469598103934665603 bs"

text \<open>The size of the entry structure on the 64-bit targets: three 8-byte fields and three pointers.\<close>

definition sizeof_entry :: nat where
  "sizeof_entry = 48"

definition mp_cache_entry_cost :: "mp_cache_entry option \<Rightarrow> u64" where
  "mp_cache_entry_cost entry =
     (case entry of
        None \<Rightarrow> 0
      | Some en \<Rightarrow> of_nat sizeof_entry + of_nat (length (entry_key en)) + 1 + of_nat (length (entry_value en)))"

definition bucket_index :: "mp_cache_store \<Rightarrow> bytes \<Rightarrow> nat" where
  "bucket_index store key = unat (mp_cache_hash_bytes key) mod store_bucket_count store"

definition chain_position :: "bytes \<Rightarrow> mp_cache_entry list \<Rightarrow> nat" where
  "chain_position key chain = length (takeWhile (\<lambda>en. entry_key en \<noteq> key) chain)"

definition mp_cache_find_slot :: "mp_cache_store \<Rightarrow> bytes \<Rightarrow> nat \<times> nat" where
  "mp_cache_find_slot store key =
     (bucket_index store key, chain_position key (buckets store ! bucket_index store key))"

text \<open>What the slot points to, and the two ways the code assigns to it.\<close>

definition slot_entry :: "mp_cache_store \<Rightarrow> nat \<times> nat \<Rightarrow> mp_cache_entry option" where
  "slot_entry store slot =
     (case slot of (b, p) \<Rightarrow> if p < length (buckets store ! b) then Some (buckets store ! b ! p) else None)"

definition slot_put :: "mp_cache_store \<Rightarrow> nat \<times> nat \<Rightarrow> mp_cache_entry \<Rightarrow> mp_cache_store" where
  "slot_put store slot entry =
     (case slot of (b, p) \<Rightarrow>
        let chain = buckets store ! b in
        store\<lparr>buckets := (buckets store)[b := (if p < length chain then chain[p := entry] else chain @ [entry])]\<rparr>)"

definition slot_unlink :: "mp_cache_store \<Rightarrow> nat \<times> nat \<Rightarrow> mp_cache_store" where
  "slot_unlink store slot =
     (case slot of (b, p) \<Rightarrow>
        let chain = buckets store ! b in
        store\<lparr>buckets := (buckets store)[b := take p chain @ drop (Suc p) chain]\<rparr>)"


section \<open>Operations\<close>

definition mp_cache_store_write_entry ::
  "env \<Rightarrow> mp_cache_store \<Rightarrow> bytes ptr \<Rightarrow> bytes ptr \<Rightarrow> int \<Rightarrow> mp_cache_store_status \<times> mp_cache_store" where
  "mp_cache_store_write_entry e store cache_key cache_value expires_at =
     (case (cache_key, cache_value) of
        (Some key, Some v) \<Rightarrow>
          if length key = 0 \<or> length key > unat (store_max_key_bytes store) \<or>
             length v > unat (store_max_value_bytes store)
          then (MP_CACHE_STORE_STATUS_LIMIT_EXCEEDED, store)
          else
            let slot = mp_cache_find_slot store key;
                entry = slot_entry store slot;
                previous_cost = mp_cache_entry_cost entry;
                next_cost = of_nat sizeof_entry + of_nat (length key) + 1 + of_nat (length v)
            in if bytes_used store - previous_cost + next_cost > store_memory_limit store
               then (MP_CACHE_STORE_STATUS_LIMIT_EXCEEDED, store)
               else if \<not> ok 0 e \<or> \<not> ok 1 e then (MP_CACHE_STORE_STATUS_NO_MEMORY, store)
               else if entry = None \<and> \<not> ok 2 e then (MP_CACHE_STORE_STATUS_NO_MEMORY, store)
               else
                 let store1 = slot_put store slot
                       \<lparr>entry_key = key, entry_value = v, entry_expires_at = expires_at\<rparr>;
                     store2 = (if entry = None then store1\<lparr>entry_count := entry_count store1 + 1\<rparr> else store1)
                 in (MP_CACHE_STORE_STATUS_OK,
                     store2\<lparr>bytes_used := bytes_used store - previous_cost + next_cost\<rparr>)
      | _ \<Rightarrow> (MP_CACHE_STORE_STATUS_INVALID_ARGUMENT, store))"

definition mp_cache_store_init :: "env \<Rightarrow> mp_cache_config \<Rightarrow> mp_cache_store option" where
  "mp_cache_store_init e config =
     (if bucket_count config = 0 then None
      else if \<not> ok 0 e then None
      else Some \<lparr>buckets = replicate (unat (bucket_count config)) [],
                 store_bucket_count = unat (bucket_count config), entry_count = 0, bytes_used = 0,
                 store_memory_limit = memory_limit_bytes config,
                 store_max_key_bytes = max_key_bytes config, store_max_value_bytes = max_value_bytes config\<rparr>)"

definition mp_cache_store_destroy :: "mp_cache_store \<Rightarrow> mp_cache_store" where
  "mp_cache_store_destroy store =
     (if buckets store = [] then store
      else \<lparr>buckets = [], store_bucket_count = 0, entry_count = 0, bytes_used = 0, store_memory_limit = 0,
            store_max_key_bytes = 0, store_max_value_bytes = 0\<rparr>)"

definition mp_cache_store_set ::
  "env \<Rightarrow> mp_cache_store \<Rightarrow> bytes ptr \<Rightarrow> bytes ptr \<Rightarrow> u32 \<Rightarrow> int \<Rightarrow> mp_cache_store_status \<times> mp_cache_store" where
  "mp_cache_store_set e store cache_key cache_value ttl_seconds now =
     (if cache_key = None \<or> cache_value = None \<or> ttl_seconds = 0
      then (MP_CACHE_STORE_STATUS_INVALID_ARGUMENT, store)
      else mp_cache_store_write_entry e store cache_key cache_value (now + uint ttl_seconds))"

definition mp_cache_store_get_copy ::
  "env \<Rightarrow> mp_cache_store \<Rightarrow> bytes ptr \<Rightarrow> int \<Rightarrow>
     mp_cache_store_status \<times> (bytes \<times> int) option \<times> mp_cache_store" where
  "mp_cache_store_get_copy e store cache_key now =
     (case cache_key of
        None \<Rightarrow> (MP_CACHE_STORE_STATUS_INVALID_ARGUMENT, None, store)
      | Some key \<Rightarrow>
          let slot = mp_cache_find_slot store key in
          (case slot_entry store slot of
             None \<Rightarrow> (MP_CACHE_STORE_STATUS_NOT_FOUND, None, store)
           | Some entry \<Rightarrow>
               if entry_expires_at entry \<le> now then
                 (MP_CACHE_STORE_STATUS_EXPIRED, None,
                  (slot_unlink store slot)\<lparr>bytes_used := bytes_used store - mp_cache_entry_cost (Some entry),
                     entry_count := entry_count store - 1\<rparr>)
               else if \<not> ok 0 e then (MP_CACHE_STORE_STATUS_NO_MEMORY, None, store)
               else (MP_CACHE_STORE_STATUS_OK, Some (entry_value entry, entry_expires_at entry), store)))"

definition mp_cache_store_delete :: "mp_cache_store \<Rightarrow> bytes ptr \<Rightarrow> mp_cache_store_status \<times> mp_cache_store" where
  "mp_cache_store_delete store cache_key =
     (case cache_key of
        None \<Rightarrow> (MP_CACHE_STORE_STATUS_INVALID_ARGUMENT, store)
      | Some key \<Rightarrow>
          let slot = mp_cache_find_slot store key in
          (case slot_entry store slot of
             None \<Rightarrow> (MP_CACHE_STORE_STATUS_NOT_FOUND, store)
           | Some entry \<Rightarrow>
               (MP_CACHE_STORE_STATUS_OK,
                (slot_unlink store slot)\<lparr>bytes_used := bytes_used store - mp_cache_entry_cost (Some entry),
                   entry_count := entry_count store - 1\<rparr>)))"

definition mp_cache_store_restore_entry ::
  "env \<Rightarrow> mp_cache_store \<Rightarrow> bytes ptr \<Rightarrow> bytes ptr \<Rightarrow> int \<Rightarrow> mp_cache_store_status \<times> mp_cache_store" where
  "mp_cache_store_restore_entry e store cache_key cache_value expires_at =
     (if expires_at \<le> 0 then (MP_CACHE_STORE_STATUS_INVALID_ARGUMENT, store)
      else mp_cache_store_write_entry e store cache_key cache_value expires_at)"

definition mp_cache_store_clear :: "mp_cache_store \<Rightarrow> mp_cache_store" where
  "mp_cache_store_clear store =
     (if buckets store = [] then store
      else store\<lparr>buckets := map (\<lambda>_. []) (buckets store), entry_count := 0, bytes_used := 0\<rparr>)"

text \<open>The sweep of one chain, with the accounting threaded through, and of the whole table.\<close>

fun purge_chain :: "int \<Rightarrow> mp_cache_entry list \<Rightarrow> u64 \<times> u64 \<times> u64 \<Rightarrow> mp_cache_entry list \<times> u64 \<times> u64 \<times> u64" where
  "purge_chain now [] acct = ([], acct)"
| "purge_chain now (entry # chain) (used, count, removed_count) =
     (if entry_expires_at entry > now
      then (case purge_chain now chain (used, count, removed_count) of (chain', acct) \<Rightarrow> (entry # chain', acct))
      else purge_chain now chain (used - mp_cache_entry_cost (Some entry), count - 1, removed_count + 1))"

fun purge_buckets :: "int \<Rightarrow> mp_cache_entry list list \<Rightarrow> u64 \<times> u64 \<times> u64 \<Rightarrow>
    mp_cache_entry list list \<times> u64 \<times> u64 \<times> u64" where
  "purge_buckets now [] acct = ([], acct)"
| "purge_buckets now (chain # rest) acct =
     (case purge_chain now chain acct of
        (chain', acct1) \<Rightarrow> (case purge_buckets now rest acct1 of (rest', acct2) \<Rightarrow> (chain' # rest', acct2)))"

definition mp_cache_store_purge_expired :: "mp_cache_store \<Rightarrow> int \<Rightarrow> u64 \<times> mp_cache_store" where
  "mp_cache_store_purge_expired store now =
     (case purge_buckets now (buckets store) (bytes_used store, entry_count store, 0) of
        (buckets', used, count, removed_count) \<Rightarrow>
          (removed_count, store\<lparr>buckets := buckets', bytes_used := used, entry_count := count\<rparr>))"

text \<open>
  The walk: the visitor returns whether it reports success and its context; the walk stops at the
  first failure and reports it, without the visitor's value.
\<close>

type_synonym 'c visitor = "mp_cache_entry \<Rightarrow> 'c \<Rightarrow> bool \<times> 'c"

fun visit_entries :: "'c visitor \<Rightarrow> mp_cache_entry list \<Rightarrow> 'c \<Rightarrow> bool \<times> 'c" where
  "visit_entries visit [] ctx = (True, ctx)"
| "visit_entries visit (entry # entries) ctx =
     (case visit entry ctx of
        (True, ctx') \<Rightarrow> visit_entries visit entries ctx'
      | (False, ctx') \<Rightarrow> (False, ctx'))"

definition mp_cache_store_for_each :: "mp_cache_store \<Rightarrow> 'c visitor \<Rightarrow> 'c \<Rightarrow> bool \<times> 'c" where
  "mp_cache_store_for_each store visit ctx = visit_entries visit (concat (buckets store)) ctx"

definition mp_cache_store_get_stats :: "mp_cache_store \<Rightarrow> mp_cache_store_stats" where
  "mp_cache_store_get_stats store =
     \<lparr>stats_entry_count = entry_count store, stats_bytes_used = bytes_used store,
      stats_memory_limit = store_memory_limit store\<rparr>"


section \<open>Chains as association lists\<close>

abbreviation chain_map :: "mp_cache_entry list \<Rightarrow> bytes \<rightharpoonup> mp_cache_entry" where
  "chain_map chain \<equiv> map_of (map (\<lambda>en. (entry_key en, en)) chain)"

abbreviation chain_keys :: "mp_cache_entry list \<Rightarrow> bytes list" where
  "chain_keys chain \<equiv> map entry_key chain"

definition entry_size :: "mp_cache_entry \<Rightarrow> nat" where
  "entry_size en = sizeof_entry + length (entry_key en) + 1 + length (entry_value en)"

lemma entry_cost_size: "mp_cache_entry_cost (Some en) = of_nat (entry_size en)"
  by (simp add: mp_cache_entry_cost_def entry_size_def)

lemma entry_size_pos: "0 < entry_size en"
  by (simp add: entry_size_def)

lemma chain_position_le: "chain_position key chain \<le> length chain"
  by (simp add: chain_position_def length_takeWhile_le)

lemma chain_split:
  assumes "chain_position key chain < length chain"
  obtains before en after where "chain = before @ en # after" "length before = chain_position key chain"
    "entry_key en = key" "key \<notin> set (chain_keys before)"
proof
  let ?p = "chain_position key chain"
  have lt: "length (takeWhile (\<lambda>en. entry_key en \<noteq> key) chain) < length chain"
    using assms by (simp add: chain_position_def)
  show "chain = take ?p chain @ chain ! ?p # drop (Suc ?p) chain"
    by (rule id_take_nth_drop [OF assms])
  show "length (take ?p chain) = ?p"
    using assms by simp
  show "entry_key (chain ! ?p) = key"
    using nth_length_takeWhile [OF lt] by (simp add: chain_position_def)
  have "take ?p chain = takeWhile (\<lambda>en. entry_key en \<noteq> key) chain"
    unfolding chain_position_def by (rule takeWhile_eq_take [symmetric])
  then show "key \<notin> set (chain_keys (take ?p chain))"
    by (auto dest: set_takeWhileD)
qed

lemma chain_absent:
  "\<not> chain_position key chain < length chain \<Longrightarrow> key \<notin> set (chain_keys chain)"
  using chain_position_le [of key chain] takeWhile_length_eq_iff [of "\<lambda>en. entry_key en \<noteq> key" chain]
  by (auto simp: chain_position_def)

lemma chain_map_None: "key \<notin> set (chain_keys chain) \<Longrightarrow> chain_map chain key = None"
  by (auto simp: map_of_eq_None_iff)

lemma chain_map_position:
  "chain_map chain key =
     (if chain_position key chain < length chain then Some (chain ! chain_position key chain) else None)"
proof (cases "chain_position key chain < length chain")
  case True
  then show ?thesis
  proof (rule chain_split)
    fix before en after
    assume s: "chain = before @ en # after" "length before = chain_position key chain"
      "entry_key en = key" "key \<notin> set (chain_keys before)"
    have "chain_map chain key = Some en"
      using s chain_map_None [of key before] by (simp add: map_add_def)
    moreover have "chain ! chain_position key chain = en"
      using s(1) s(2) [symmetric] by simp
    ultimately show ?thesis using True by simp
  qed
next
  case False
  then show ?thesis
    using chain_map_None [OF chain_absent [OF False]] by simp
qed

definition chain_put :: "mp_cache_entry \<Rightarrow> mp_cache_entry list \<Rightarrow> mp_cache_entry list" where
  "chain_put en chain =
     (let p = chain_position (entry_key en) chain in if p < length chain then chain[p := en] else chain @ [en])"

definition chain_remove :: "bytes \<Rightarrow> mp_cache_entry list \<Rightarrow> mp_cache_entry list" where
  "chain_remove key chain = take (chain_position key chain) chain @ drop (Suc (chain_position key chain)) chain"

lemma chain_put_facts:
  assumes "distinct (chain_keys chain)"
  shows "chain_map (chain_put en chain) = (chain_map chain)(entry_key en \<mapsto> en)"
    and "distinct (chain_keys (chain_put en chain))"
    and "set (chain_put en chain) \<subseteq> insert en (set chain)"
proof -
  let ?key = "entry_key en"
  have all: "chain_map (chain_put en chain) = (chain_map chain)(?key \<mapsto> en) \<and>
      distinct (chain_keys (chain_put en chain)) \<and> set (chain_put en chain) \<subseteq> insert en (set chain)"
  proof (cases "chain_position ?key chain < length chain")
    case True
    then show ?thesis
    proof (rule chain_split)
      fix before old after
      assume s: "chain = before @ old # after" "length before = chain_position ?key chain"
        "entry_key old = ?key" "?key \<notin> set (chain_keys before)"
      have put: "chain_put en chain = before @ en # after"
        using True s(1) s(2) [symmetric] by (simp add: chain_put_def Let_def)
      have "chain_map (before @ en # after) k = ((chain_map chain)(?key \<mapsto> en)) k" for k
        using s chain_map_None [of ?key before] by (auto simp: map_add_def split: option.splits)
      with put assms s show ?thesis by auto
    qed
  next
    case False
    have "?key \<notin> set (chain_keys chain)"
      by (rule chain_absent [OF False])
    moreover have "chain_map (chain @ [en]) k = ((chain_map chain)(?key \<mapsto> en)) k" for k
      using chain_map_None [OF chain_absent [OF False]] by (auto simp: map_add_def split: option.splits)
    ultimately show ?thesis
      using False assms by (auto simp: chain_put_def Let_def)
  qed
  then show "chain_map (chain_put en chain) = (chain_map chain)(?key \<mapsto> en)"
    "distinct (chain_keys (chain_put en chain))" "set (chain_put en chain) \<subseteq> insert en (set chain)"
    by auto
qed

lemma chain_remove_facts:
  assumes "distinct (chain_keys chain)"
  shows "chain_map (chain_remove key chain) = (chain_map chain)(key := None)"
    and "distinct (chain_keys (chain_remove key chain))"
    and "set (chain_remove key chain) \<subseteq> set chain"
proof -
  have all: "chain_map (chain_remove key chain) = (chain_map chain)(key := None) \<and>
      distinct (chain_keys (chain_remove key chain)) \<and> set (chain_remove key chain) \<subseteq> set chain"
  proof (cases "chain_position key chain < length chain")
    case True
    then show ?thesis
    proof (rule chain_split)
      fix before old after
      assume s: "chain = before @ old # after" "length before = chain_position key chain"
        "entry_key old = key" "key \<notin> set (chain_keys before)"
      have rm: "chain_remove key chain = before @ after"
        using s(1) s(2) [symmetric] by (simp add: chain_remove_def)
      have "key \<notin> set (chain_keys after)"
        using s assms by auto
      then have "chain_map (before @ after) k = ((chain_map chain)(key := None)) k" for k
        using s chain_map_None [of key before] chain_map_None [of key after] by (auto simp: map_add_def split: option.splits)
      with rm assms s show ?thesis by auto
    qed
  next
    case False
    then have "chain_remove key chain = chain"
      using chain_position_le [of key chain] by (simp add: chain_remove_def)
    with assms chain_map_None [OF chain_absent [OF False]] show ?thesis
      by auto
  qed
  then show "chain_map (chain_remove key chain) = (chain_map chain)(key := None)"
    "distinct (chain_keys (chain_remove key chain))" "set (chain_remove key chain) \<subseteq> set chain"
    by auto
qed

abbreviation chain_size :: "mp_cache_entry list \<Rightarrow> nat" where
  "chain_size chain \<equiv> sum_list (map entry_size chain)"

definition option_size :: "mp_cache_entry option \<Rightarrow> nat" where
  "option_size entry = (case entry of None \<Rightarrow> 0 | Some en \<Rightarrow> entry_size en)"

lemma entry_cost_option_size: "mp_cache_entry_cost entry = of_nat (option_size entry)"
  by (cases entry) (simp_all add: option_size_def entry_cost_size, simp add: mp_cache_entry_cost_def)

lemma chain_put_size:
  "chain_size (chain_put en chain) + option_size (chain_map chain (entry_key en)) = chain_size chain + entry_size en"
  "length (chain_put en chain) = length chain + (if chain_map chain (entry_key en) = None then 1 else 0)"
proof -
  have "chain_size (chain_put en chain) + option_size (chain_map chain (entry_key en)) = chain_size chain + entry_size en \<and>
    length (chain_put en chain) = length chain + (if chain_map chain (entry_key en) = None then 1 else 0)"
  proof (cases "chain_position (entry_key en) chain < length chain")
    case True
    with sum_list_update [of "chain_position (entry_key en) chain" "map entry_size chain" "entry_size en"]
    show ?thesis by (simp add: chain_put_def chain_map_position option_size_def map_update)
  next
    case False
    then show ?thesis by (simp add: chain_put_def chain_map_position option_size_def)
  qed
  then show "chain_size (chain_put en chain) + option_size (chain_map chain (entry_key en)) = chain_size chain + entry_size en"
    "length (chain_put en chain) = length chain + (if chain_map chain (entry_key en) = None then 1 else 0)"
    by auto
qed

lemma chain_remove_size:
  assumes "chain_map chain key = Some en"
  shows "chain_size (chain_remove key chain) + entry_size en = chain_size chain"
    "length (chain_remove key chain) + 1 = length chain"
proof -
  from assms have p: "chain_position key chain < length chain" "chain ! chain_position key chain = en"
    by (auto simp: chain_map_position split: if_splits)
  from id_take_nth_drop [OF p(1)] p(2)
  have "chain = take (chain_position key chain) chain @ en # drop (Suc (chain_position key chain)) chain"
    by simp
  then have "chain_size chain = chain_size (take (chain_position key chain) chain @ en # drop (Suc (chain_position key chain)) chain)"
    by simp
  then show "chain_size (chain_remove key chain) + entry_size en = chain_size chain"
    by (simp add: chain_remove_def)
  show "length (chain_remove key chain) + 1 = length chain"
    using p(1) by (simp add: chain_remove_def)
qed


section \<open>The invariant\<close>

definition store_size :: "mp_cache_store \<Rightarrow> nat" where
  "store_size store = sum_list (map chain_size (buckets store))"

definition store_length :: "mp_cache_store \<Rightarrow> nat" where
  "store_length store = sum_list (map length (buckets store))"

definition entry_ok :: "mp_cache_store \<Rightarrow> mp_cache_entry \<Rightarrow> bool" where
  "entry_ok store en \<longleftrightarrow> 0 < length (entry_key en) \<and> length (entry_key en) \<le> unat (store_max_key_bytes store) \<and>
     length (entry_value en) \<le> unat (store_max_value_bytes store)"

text \<open>
  The table is well formed: one chain per bucket, every entry in the bucket its key hashes to, no key
  twice, all lengths within the limits, and the two counters equal to the number of entries and the
  sum of their costs, which does not exceed the memory limit. The limit is at most \<open>2^63\<close>, so
  that the projected use of a write cannot wrap.
\<close>

definition store_inv :: "mp_cache_store \<Rightarrow> bool" where
  "store_inv store \<longleftrightarrow>
     0 < store_bucket_count store \<and> length (buckets store) = store_bucket_count store \<and>
     (\<forall>b < store_bucket_count store. distinct (chain_keys (buckets store ! b)) \<and>
        (\<forall>en \<in> set (buckets store ! b). bucket_index store (entry_key en) = b \<and> entry_ok store en)) \<and>
     entry_count store = of_nat (store_length store) \<and> bytes_used store = of_nat (store_size store) \<and>
     store_size store \<le> unat (store_memory_limit store) \<and> unat (store_memory_limit store) \<le> 2 ^ 63"

definition store_lookup :: "mp_cache_store \<Rightarrow> bytes \<Rightarrow> mp_cache_entry option" where
  "store_lookup store key = slot_entry store (mp_cache_find_slot store key)"

text \<open>The abstraction: a finite map from keys to the value and its expiry time.\<close>

definition store_abs :: "mp_cache_store \<Rightarrow> bytes \<rightharpoonup> bytes \<times> int" where
  "store_abs store key = map_option (\<lambda>en. (entry_value en, entry_expires_at en)) (store_lookup store key)"

lemma store_lookup_chain: "store_lookup store key = chain_map (buckets store ! bucket_index store key) key"
  by (simp add: store_lookup_def slot_entry_def mp_cache_find_slot_def chain_map_position)

lemma bucket_index_less: "store_inv store \<Longrightarrow> bucket_index store key < length (buckets store)"
  by (simp add: store_inv_def bucket_index_def)

lemma slot_put_chain:
  "entry_key en = key \<Longrightarrow> slot_put store (mp_cache_find_slot store key) en =
     store\<lparr>buckets := (buckets store)[bucket_index store key := chain_put en (buckets store ! bucket_index store key)]\<rparr>"
  by (simp add: slot_put_def mp_cache_find_slot_def chain_put_def Let_def)

lemma slot_unlink_chain:
  "slot_unlink store (mp_cache_find_slot store key) =
     store\<lparr>buckets := (buckets store)[bucket_index store key := chain_remove key (buckets store ! bucket_index store key)]\<rparr>"
  by (simp add: slot_unlink_def mp_cache_find_slot_def chain_remove_def Let_def)

lemma bucket_index_cong:
  "store_bucket_count store' = store_bucket_count store \<Longrightarrow> bucket_index store' key = bucket_index store key"
  by (simp add: bucket_index_def)

text \<open>Replacing the chain of one bucket.\<close>

definition with_chain :: "mp_cache_store \<Rightarrow> nat \<Rightarrow> mp_cache_entry list \<Rightarrow> u64 \<Rightarrow> u64 \<Rightarrow> mp_cache_store" where
  "with_chain store b chain count used =
     store\<lparr>buckets := (buckets store)[b := chain], entry_count := count, bytes_used := used\<rparr>"

lemma with_chain_size:
  assumes "b < length (buckets store)"
  shows "store_size (with_chain store b chain count used) + chain_size (buckets store ! b) = store_size store + chain_size chain"
    "store_length (with_chain store b chain count used) + length (buckets store ! b) = store_length store + length chain"
  using assms sum_list_update [of b "map chain_size (buckets store)" "chain_size chain"]
    sum_list_update [of b "map length (buckets store)" "length chain"]
  by (simp_all add: store_size_def store_length_def with_chain_def map_update)

lemma with_chain_lookup:
  assumes "store_inv store" "b = bucket_index store key"
    and "chain_map chain = (chain_map (buckets store ! b))(key := entry)"
    and "\<forall>en \<in> set chain. bucket_index store (entry_key en) = b"
  shows "store_lookup (with_chain store b chain count used) = (store_lookup store)(key := entry)"
proof
  fix k
  have b: "b < length (buckets store)"
    using assms(1,2) bucket_index_less by simp
  show "store_lookup (with_chain store b chain count used) k = ((store_lookup store)(key := entry)) k"
  proof (cases "bucket_index store k = b")
    case True
    with b assms(2,3) show ?thesis
      by (simp add: store_lookup_chain with_chain_def bucket_index_def)
  next
    case False
    with assms(2) have "k \<noteq> key" by auto
    with False b show ?thesis
      by (simp add: store_lookup_chain with_chain_def bucket_index_def)
  qed
qed

lemma store_abs_cong:
  "store_lookup store' = (store_lookup store)(key := entry) \<Longrightarrow>
     store_abs store' = (store_abs store)(key := map_option (\<lambda>en. (entry_value en, entry_expires_at en)) entry)"
  by (auto simp: store_abs_def fun_eq_iff)

lemma chain_size_le_store: "b < length (buckets store) \<Longrightarrow> chain_size (buckets store ! b) \<le> store_size store"
  unfolding store_size_def by (simp add: member_le_sum_list)

lemma option_size_le_chain: "option_size (chain_map chain key) \<le> chain_size chain"
proof (cases "chain_map chain key")
  case None
  then show ?thesis by (simp add: option_size_def)
next
  case (Some en)
  then have "en \<in> set chain"
    by (auto dest: map_of_SomeD)
  with Some show ?thesis by (simp add: option_size_def member_le_sum_list)
qed

lemma store_length_le_size: "store_length store \<le> store_size store"
proof -
  have "length chain \<le> chain_size chain" for chain
    by (induction chain) (auto simp: entry_size_def)
  then show ?thesis
    unfolding store_length_def store_size_def by (simp add: sum_list_mono)
qed

lemma with_chain_inv:
  assumes inv: "store_inv store" and b: "b < length (buckets store)"
    and chain: "distinct (chain_keys chain)" "\<forall>en \<in> set chain. bucket_index store (entry_key en) = b \<and> entry_ok store en"
    and acct: "count = of_nat (store_length (with_chain store b chain count used))"
      "used = of_nat (store_size (with_chain store b chain count used))"
      "store_size (with_chain store b chain count used) \<le> unat (store_memory_limit store)"
  shows "store_inv (with_chain store b chain count used)"
proof -
  let ?s = "with_chain store b chain count used"
  have "distinct (chain_keys (buckets ?s ! i)) \<and>
      (\<forall>en \<in> set (buckets ?s ! i). bucket_index ?s (entry_key en) = i \<and> entry_ok ?s en)"
    if "i < store_bucket_count store" for i
    using that inv b chain
    by (cases "i = b") (auto simp: with_chain_def store_inv_def bucket_index_def entry_ok_def)
  with inv acct show ?thesis
    unfolding store_inv_def [of ?s] by (simp add: with_chain_def store_inv_def)
qed

section \<open>Writing\<close>

lemma entry_size_bound:
  assumes "entry_ok store en"
  shows "entry_size en \<le> 2 ^ 34"
proof -
  have "unat (store_max_key_bytes store) < 2 ^ 32" "unat (store_max_value_bytes store) < 2 ^ 32"
    using unsigned_less [where 'a = nat, of "store_max_key_bytes store"]
      unsigned_less [where 'a = nat, of "store_max_value_bytes store"] by simp_all
  with assms show ?thesis
    by (simp add: entry_ok_def entry_size_def sizeof_entry_def)
qed

lemma of_nat_diff_add:
  fixes a b c d :: nat
  assumes "d + b = a + c"
  shows "(of_nat a - of_nat b + of_nat c :: u64) = of_nat d"
proof -
  have "(of_nat d + of_nat b :: u64) = of_nat a + of_nat c"
    using arg_cong [OF assms, of "of_nat :: nat \<Rightarrow> u64"] by simp
  then have "of_nat d = (of_nat a + of_nat c :: u64) - of_nat b"
    by (simp only: eq_diff_eq)
  then show ?thesis
    by simp
qed

lemma write_entry_result:
  assumes "mp_cache_store_write_entry e store (Some key) (Some v) expires = (st, store')"
  defines "en \<equiv> \<lparr>entry_key = key, entry_value = v, entry_expires_at = expires\<rparr>"
  defines "b \<equiv> bucket_index store key"
  defines "used \<equiv> bytes_used store - mp_cache_entry_cost (store_lookup store key) + of_nat (entry_size en)"
  shows "st = MP_CACHE_STORE_STATUS_OK \<and> entry_ok store en \<and> used \<le> store_memory_limit store \<and>
      store' = with_chain store b (chain_put en (buckets store ! b))
        (entry_count store + (if store_lookup store key = None then 1 else 0)) used
    \<or> st \<in> {MP_CACHE_STORE_STATUS_LIMIT_EXCEEDED, MP_CACHE_STORE_STATUS_NO_MEMORY} \<and> store' = store"
  using assms(1)
  unfolding mp_cache_store_write_entry_def Let_def store_lookup_def [symmetric]
  by (simp split: if_splits
      add: slot_put_chain with_chain_def en_def b_def used_def entry_ok_def entry_size_def not_less not_le algebra_simps)
    auto

lemma write_entry_ok:
  assumes inv: "store_inv store"
    and w: "mp_cache_store_write_entry e store (Some key) (Some v) expires = (MP_CACHE_STORE_STATUS_OK, store')"
  shows "store_inv store' \<and> store_abs store' = (store_abs store)(key \<mapsto> (v, expires))"
proof -
  define en where "en = \<lparr>entry_key = key, entry_value = v, entry_expires_at = expires\<rparr>"
  define b where "b = bucket_index store key"
  define chain where "chain = buckets store ! b"
  define count where "count = entry_count store + (if store_lookup store key = None then 1 else 0)"
  define used where "used = bytes_used store - mp_cache_entry_cost (store_lookup store key) + of_nat (entry_size en)"
  from write_entry_result [OF w] have ok: "entry_ok store en" "used \<le> store_memory_limit store"
    and store': "store' = with_chain store b (chain_put en chain) count used"
    by (simp_all add: en_def b_def chain_def count_def used_def)
  have b: "b < length (buckets store)"
    using bucket_index_less [OF inv] by (simp add: b_def)
  have lookup: "store_lookup store key = chain_map chain (entry_key en)"
    by (simp add: store_lookup_chain chain_def b_def en_def)
  have d: "distinct (chain_keys chain)" and es: "\<forall>x \<in> set chain. bucket_index store (entry_key x) = b \<and> entry_ok store x"
    using inv b by (auto simp: store_inv_def chain_def)
  have es': "\<forall>x \<in> set (chain_put en chain). bucket_index store (entry_key x) = b \<and> entry_ok store x"
    using chain_put_facts(3) [OF d, of en] es ok(1) by (auto simp: en_def b_def)
  let ?size = "store_size store'"
  have size: "?size + option_size (store_lookup store key) = store_size store + entry_size en"
    using with_chain_size(1) [OF b, of "chain_put en chain" count used] chain_put_size(1) [of en chain] lookup
    by (simp add: store' chain_def)
  have used: "used = of_nat ?size"
    using of_nat_diff_add [OF size] inv by (simp add: used_def store_inv_def entry_cost_option_size)
  have "store_size store \<le> 2 ^ 63"
    using inv by (simp add: store_inv_def)
  then have "?size < 2 ^ 64"
    using size entry_size_bound [OF ok(1)] by simp
  then have "unat used = ?size"
    by (simp add: used unat_of_nat)
  then have limit: "?size \<le> unat (store_memory_limit store)"
    using ok(2) by (simp add: word_le_nat_alt)
  have "store_length store' = store_length store + (if store_lookup store key = None then 1 else 0)"
    using with_chain_size(2) [OF b, of "chain_put en chain" count used] chain_put_size(2) [of en chain] lookup
    by (simp add: store' chain_def split: if_splits)
  then have count: "count = of_nat (store_length store')"
    using inv by (simp add: count_def store_inv_def)
  have "store_inv store'"
    unfolding store'
    by (rule with_chain_inv [OF inv b chain_put_facts(2) [OF d] es' count [unfolded store'] used [unfolded store']
          limit [unfolded store']])
  moreover have "store_lookup store' = (store_lookup store)(key := Some en)"
    unfolding store' by (rule with_chain_lookup [OF inv b_def])
      (use chain_put_facts(1) [OF d, of en] es' in \<open>simp_all add: chain_def en_def\<close>)
  ultimately show ?thesis
    using store_abs_cong [of store' store key "Some en"] by (simp add: en_def)
qed

lemma write_entry_succeeds:
  assumes inv: "store_inv store" and e: "all_ok e"
    and len: "0 < length key" "length key \<le> unat (store_max_key_bytes store)" "length v \<le> unat (store_max_value_bytes store)"
    and fits: "store_size store + sizeof_entry + length key + 1 + length v \<le> unat (store_memory_limit store)"
  shows "\<exists>store'. mp_cache_store_write_entry e store (Some key) (Some v) t = (MP_CACHE_STORE_STATUS_OK, store')"
proof -
  let ?prev = "option_size (store_lookup store key)"
  let ?next = "sizeof_entry + length key + 1 + length v"
  have "?prev \<le> store_size store"
    using option_size_le_chain [of "buckets store ! bucket_index store key" key]
      chain_size_le_store [OF bucket_index_less [OF inv, of key]]
    by (simp add: store_lookup_chain)
  define m where "m = store_size store - ?prev + ?next"
  have d: "m + ?prev = store_size store + ?next" and m: "m \<le> unat (store_memory_limit store)"
    using \<open>?prev \<le> store_size store\<close> fits by (simp_all add: m_def)
  have "unat (store_memory_limit store) \<le> 2 ^ 63"
    using inv by (simp add: store_inv_def)
  with m have "unat (of_nat m :: u64) = m"
    by (simp add: unat_of_nat)
  with m have "(of_nat m :: u64) \<le> store_memory_limit store"
    by (simp add: word_le_nat_alt)
  moreover have "bytes_used store - mp_cache_entry_cost (store_lookup store key) +
      (of_nat sizeof_entry + of_nat (length key) + 1 + of_nat (length v)) = of_nat m"
    using of_nat_diff_add [OF d] inv by (simp add: store_inv_def entry_cost_option_size add_ac)
  ultimately show ?thesis
    using len e
    by (simp add: mp_cache_store_write_entry_def Let_def store_lookup_def [symmetric] env_simps not_less)
qed

lemma write_entry_failed:
  assumes "mp_cache_store_write_entry e store key v expires = (st, store')" "st \<noteq> MP_CACHE_STORE_STATUS_OK"
  shows "store' = store"
proof (cases "key = None \<or> v = None")
  case True
  with assms show ?thesis
    by (auto simp: mp_cache_store_write_entry_def split: option.splits)
next
  case False
  then obtain k w where "key = Some k" "v = Some w"
    by auto
  with assms write_entry_result [of e store k w expires st store'] show ?thesis
    by auto
qed


section \<open>Removing\<close>

definition removed_store :: "mp_cache_store \<Rightarrow> bytes \<Rightarrow> mp_cache_entry \<Rightarrow> mp_cache_store" where
  "removed_store store key en =
     (slot_unlink store (mp_cache_find_slot store key))
       \<lparr>bytes_used := bytes_used store - mp_cache_entry_cost (Some en), entry_count := entry_count store - 1\<rparr>"

lemma removed_store_facts:
  assumes inv: "store_inv store" and lookup: "store_lookup store key = Some en"
  shows "store_inv (removed_store store key en)"
    and "store_abs (removed_store store key en) = (store_abs store)(key := None)"
proof -
  define b where "b = bucket_index store key"
  define chain where "chain = buckets store ! b"
  define count where "count = entry_count store - 1"
  define used where "used = bytes_used store - mp_cache_entry_cost (Some en)"
  let ?s = "removed_store store key en"
  have s: "?s = with_chain store b (chain_remove key chain) count used"
    by (simp add: removed_store_def slot_unlink_chain with_chain_def b_def chain_def count_def used_def)
  have b: "b < length (buckets store)"
    using bucket_index_less [OF inv] by (simp add: b_def)
  have m: "chain_map chain key = Some en"
    using lookup by (simp add: store_lookup_chain chain_def b_def)
  have d: "distinct (chain_keys chain)" and es: "\<forall>x \<in> set chain. bucket_index store (entry_key x) = b \<and> entry_ok store x"
    using inv b by (auto simp: store_inv_def chain_def)
  have es': "\<forall>x \<in> set (chain_remove key chain). bucket_index store (entry_key x) = b \<and> entry_ok store x"
    using chain_remove_facts(3) [OF d, of key] es by auto
  have size: "store_size ?s + entry_size en = store_size store"
    using with_chain_size(1) [OF b, of "chain_remove key chain" count used] chain_remove_size(1) [OF m]
    by (simp add: s chain_def)
  then have used: "used = of_nat (store_size ?s)"
    using of_nat_diff_add [of "store_size ?s" "entry_size en" "store_size store" 0] inv
    by (simp add: used_def store_inv_def entry_cost_size)
  have "store_length ?s + 1 = store_length store"
    using with_chain_size(2) [OF b, of "chain_remove key chain" count used] chain_remove_size(2) [OF m]
    by (simp add: s chain_def)
  then have count: "count = of_nat (store_length ?s)"
    using of_nat_diff_add [of "store_length ?s" 1 "store_length store" 0] inv by (simp add: count_def store_inv_def)
  have limit: "store_size ?s \<le> unat (store_memory_limit store)"
    using inv size by (simp add: store_inv_def)
  show "store_inv ?s"
    unfolding s
    by (rule with_chain_inv [OF inv b chain_remove_facts(2) [OF d] es' count [unfolded s] used [unfolded s] limit [unfolded s]])
  have "store_lookup ?s = (store_lookup store)(key := None)"
    unfolding s by (rule with_chain_lookup [OF inv b_def])
      (use chain_remove_facts(1) [OF d, of key] es' in \<open>simp_all add: chain_def\<close>)
  then show "store_abs ?s = (store_abs store)(key := None)"
    using store_abs_cong [of ?s store key None] by simp
qed

lemma store_delete_result:
  "mp_cache_store_delete store (Some key) =
     (case store_lookup store key of
        None \<Rightarrow> (MP_CACHE_STORE_STATUS_NOT_FOUND, store)
      | Some en \<Rightarrow> (MP_CACHE_STORE_STATUS_OK, removed_store store key en))"
  by (simp add: mp_cache_store_delete_def store_lookup_def removed_store_def Let_def split: option.split)

lemma store_get_result:
  "mp_cache_store_get_copy e store (Some key) now =
     (case store_lookup store key of
        None \<Rightarrow> (MP_CACHE_STORE_STATUS_NOT_FOUND, None, store)
      | Some en \<Rightarrow>
          if entry_expires_at en \<le> now then (MP_CACHE_STORE_STATUS_EXPIRED, None, removed_store store key en)
          else if \<not> ok 0 e then (MP_CACHE_STORE_STATUS_NO_MEMORY, None, store)
          else (MP_CACHE_STORE_STATUS_OK, Some (entry_value en, entry_expires_at en), store))"
  by (simp add: mp_cache_store_get_copy_def store_lookup_def removed_store_def Let_def split: option.split)

lemma store_abs_None: "store_abs store key = None \<longleftrightarrow> store_lookup store key = None"
  by (simp add: store_abs_def)

lemma store_abs_Some:
  "store_abs store key = Some (v, t) \<longleftrightarrow>
     (\<exists>en. store_lookup store key = Some en \<and> entry_value en = v \<and> entry_expires_at en = t)"
  by (auto simp: store_abs_def)


section \<open>Emptying and sweeping\<close>

lemma store_clear_facts:
  assumes "store_inv store"
  shows "store_inv (mp_cache_store_clear store)" "store_abs (mp_cache_store_clear store) = Map.empty"
proof -
  have ne: "buckets store \<noteq> []"
    using assms by (auto simp: store_inv_def)
  then have "store_size (mp_cache_store_clear store) = 0" "store_length (mp_cache_store_clear store) = 0"
    by (simp_all add: store_size_def store_length_def mp_cache_store_clear_def comp_def)
  with assms ne show "store_inv (mp_cache_store_clear store)"
    by (simp add: store_inv_def) (simp add: mp_cache_store_clear_def)
  have "store_lookup (mp_cache_store_clear store) key = None" for key
    using bucket_index_less [OF assms, of key] ne
    by (simp add: store_lookup_chain mp_cache_store_clear_def bucket_index_def)
  then show "store_abs (mp_cache_store_clear store) = Map.empty"
    by (simp add: store_abs_def fun_eq_iff)
qed

abbreviation live :: "int \<Rightarrow> mp_cache_entry \<Rightarrow> bool" where
  "live now en \<equiv> entry_expires_at en > now"

lemma purge_chain_result:
  "purge_chain now chain (used, count, removed) =
     (filter (live now) chain,
      used - of_nat (chain_size (filter (\<lambda>en. \<not> live now en) chain)),
      count - of_nat (length (filter (\<lambda>en. \<not> live now en) chain)),
      removed + of_nat (length (filter (\<lambda>en. \<not> live now en) chain)))"
  by (induction chain arbitrary: used count removed) (auto simp: entry_cost_size algebra_simps)

lemma purge_buckets_result:
  "purge_buckets now bs (used, count, removed) =
     (map (filter (live now)) bs,
      used - of_nat (chain_size (filter (\<lambda>en. \<not> live now en) (concat bs))),
      count - of_nat (length (filter (\<lambda>en. \<not> live now en) (concat bs))),
      removed + of_nat (length (filter (\<lambda>en. \<not> live now en) (concat bs))))"
  by (induction bs arbitrary: used count removed) (auto simp: purge_chain_result algebra_simps)

lemma chain_map_filter:
  "distinct (chain_keys chain) \<Longrightarrow>
     chain_map (filter P chain) key = (case chain_map chain key of Some en \<Rightarrow> if P en then Some en else None | None \<Rightarrow> None)"
proof (induction chain)
  case (Cons x chain)
  then show ?case
    using chain_map_None [of "entry_key x" chain] by (auto simp: map_of_eq_None_iff split: option.splits)
qed simp

lemma filter_sizes:
  "chain_size (filter P chain) + chain_size (filter (\<lambda>en. \<not> P en) chain) = chain_size chain"
  "length (filter P chain) + length (filter (\<lambda>en. \<not> P en) chain) = length chain"
  by (induction chain) auto

lemma sum_chain_size_concat: "sum_list (map chain_size bs) = chain_size (concat bs)"
  by (induction bs) auto

lemma sum_length_concat: "sum_list (map length bs) = length (concat bs)"
  by (induction bs) auto

lemma concat_map_filter: "concat (map (filter P) bs) = filter P (concat bs)"
  by (induction bs) auto

lemma purge_expired_facts:
  assumes inv: "store_inv store" and r: "mp_cache_store_purge_expired store now = (removed, store')"
  shows "store_inv store'"
    and "store_abs store' = (\<lambda>key. case store_abs store key of Some (v, t) \<Rightarrow> if now < t then Some (v, t) else None | None \<Rightarrow> None)"
    and "removed = of_nat (store_length store - store_length store')"
proof -
  let ?dead = "\<lambda>en. \<not> live now en"
  let ?all = "concat (buckets store)"
  have s: "store' = store\<lparr>buckets := map (filter (live now)) (buckets store),
        bytes_used := bytes_used store - of_nat (chain_size (filter ?dead ?all)),
        entry_count := entry_count store - of_nat (length (filter ?dead ?all))\<rparr>"
    and rm: "removed = of_nat (length (filter ?dead ?all))"
    using r by (auto simp: mp_cache_store_purge_expired_def purge_buckets_result)
  have size: "store_size store' + chain_size (filter ?dead ?all) = store_size store"
    using filter_sizes(1) [of "live now" ?all] unfolding store_size_def sum_chain_size_concat
    by (simp add: s concat_map_filter)
  have len: "store_length store' + length (filter ?dead ?all) = store_length store"
    using filter_sizes(2) [of "live now" ?all] unfolding store_length_def sum_length_concat
    by (simp add: s concat_map_filter)
  have chains: "distinct (chain_keys (filter (live now) (buckets store ! b))) \<and>
      (\<forall>en \<in> set (filter (live now) (buckets store ! b)). bucket_index store (entry_key en) = b \<and> entry_ok store en)"
    if "b < store_bucket_count store" for b
    using inv that by (auto simp: store_inv_def distinct_map_filter)
  have "(of_nat (store_size store) - of_nat (chain_size (filter ?dead ?all)) :: u64) = of_nat (store_size store')"
    using of_nat_diff_add [of "store_size store'" "chain_size (filter ?dead ?all)" "store_size store" 0] size by simp
  then have "bytes_used store' = of_nat (store_size store')"
    using inv by (simp add: s store_inv_def)
  moreover have "(of_nat (store_length store) - of_nat (length (filter ?dead ?all)) :: u64) = of_nat (store_length store')"
    using of_nat_diff_add [of "store_length store'" "length (filter ?dead ?all)" "store_length store" 0] len by simp
  then have "entry_count store' = of_nat (store_length store')"
    using inv by (simp add: s store_inv_def)
  moreover have "store_size store' \<le> unat (store_memory_limit store)"
    using inv size by (simp add: store_inv_def)
  ultimately show "store_inv store'"
    using inv chains unfolding store_inv_def by (simp add: s bucket_index_def entry_ok_def)
  show "removed = of_nat (store_length store - store_length store')"
    using len rm by (metis add_diff_cancel_left')
  have "store_lookup store' key = (case store_lookup store key of Some en \<Rightarrow> if live now en then Some en else None | None \<Rightarrow> None)" for key
    using inv bucket_index_less [OF inv, of key]
    by (simp add: store_lookup_chain s bucket_index_def chain_map_filter store_inv_def)
  then show "store_abs store' = (\<lambda>key. case store_abs store key of Some (v, t) \<Rightarrow> if now < t then Some (v, t) else None | None \<Rightarrow> None)"
    by (auto simp: store_abs_def fun_eq_iff split: option.splits)
qed

section \<open>The interface of the table\<close>

text \<open>
  What the storage component relies on: writing with an absolute expiry, deleting and clearing act on
  the abstract map as stated, keep the invariant, and leave the store unchanged when they do not
  report success.
\<close>

datatype kv_op = Put bytes bytes int | Del bytes | Clear

fun kv_effect :: "(bytes \<rightharpoonup> bytes \<times> int) \<Rightarrow> kv_op \<Rightarrow> (bytes \<rightharpoonup> bytes \<times> int)" where
  "kv_effect m (Put k v t) = m(k \<mapsto> (v, t))"
| "kv_effect m (Del k) = m(k := None)"
| "kv_effect m Clear = Map.empty"

locale kv_store =
  fixes inv :: "'s \<Rightarrow> bool"
    and abs :: "'s \<Rightarrow> bytes \<rightharpoonup> bytes \<times> int"
    and put :: "env \<Rightarrow> 's \<Rightarrow> bytes ptr \<Rightarrow> bytes ptr \<Rightarrow> int \<Rightarrow> mp_cache_store_status \<times> 's"
    and del :: "'s \<Rightarrow> bytes ptr \<Rightarrow> mp_cache_store_status \<times> 's"
    and clear :: "'s \<Rightarrow> 's"
  assumes put_ok: "inv s \<Longrightarrow> put e s (Some k) (Some v) t = (MP_CACHE_STORE_STATUS_OK, s') \<Longrightarrow>
        inv s' \<and> abs s' = (abs s)(k \<mapsto> (v, t))"
    and put_failed: "put e s key val t = (st, s') \<Longrightarrow> st \<noteq> MP_CACHE_STORE_STATUS_OK \<Longrightarrow> s' = s"
    and del_result: "inv s \<Longrightarrow> del s (Some k) = (st, s') \<Longrightarrow>
        inv s' \<and> abs s' = (abs s)(k := None) \<and>
        st = (if abs s k = None then MP_CACHE_STORE_STATUS_NOT_FOUND else MP_CACHE_STORE_STATUS_OK)"
    and clear_result: "inv s \<Longrightarrow> inv (clear s) \<and> abs (clear s) = Map.empty"
begin

text \<open>One mutation, which must succeed (a delete may find nothing), and a sequence of them.\<close>

fun kv_step :: "env \<Rightarrow> 's \<Rightarrow> kv_op \<Rightarrow> 's option" where
  "kv_step e s (Put k v t) = (case put e s (Some k) (Some v) t of (MP_CACHE_STORE_STATUS_OK, s') \<Rightarrow> Some s' | _ \<Rightarrow> None)"
| "kv_step e s (Del k) =
     (case del s (Some k) of
        (MP_CACHE_STORE_STATUS_OK, s') \<Rightarrow> Some s'
      | (MP_CACHE_STORE_STATUS_NOT_FOUND, s') \<Rightarrow> Some s'
      | _ \<Rightarrow> None)"
| "kv_step e s Clear = Some (clear s)"

lemma kv_step_abs:
  assumes "inv s" "kv_step e s op = Some s'"
  shows "inv s' \<and> abs s' = kv_effect (abs s) op"
proof (cases op)
  case (Put k v t)
  with assms show ?thesis
    using put_ok [OF assms(1), of e k v t s'] by (auto split: prod.splits mp_cache_store_status.splits)
next
  case (Del k)
  with assms show ?thesis
    using del_result [OF assms(1), of k _ s'] by (auto split: prod.splits mp_cache_store_status.splits)
next
  case Clear
  with assms show ?thesis
    using clear_result by auto
qed

lemma kv_delete_total: "inv s \<Longrightarrow> \<exists>s'. kv_step e s (Del k) = Some s'"
  using del_result [of s k] by (cases "del s (Some k)") (auto split: mp_cache_store_status.splits)

end

lemma restore_ok:
  assumes "store_inv store" "mp_cache_store_restore_entry e store (Some k) (Some v) t = (MP_CACHE_STORE_STATUS_OK, store')"
  shows "store_inv store' \<and> store_abs store' = (store_abs store)(k \<mapsto> (v, t))"
  using assms write_entry_ok [OF assms(1)] by (auto simp: mp_cache_store_restore_entry_def split: if_splits)

lemma restore_failed:
  "mp_cache_store_restore_entry e store key v t = (st, store') \<Longrightarrow> st \<noteq> MP_CACHE_STORE_STATUS_OK \<Longrightarrow> store' = store"
  by (auto simp: mp_cache_store_restore_entry_def split: if_splits dest: write_entry_failed)

lemma delete_result:
  assumes "store_inv store" "mp_cache_store_delete store (Some k) = (st, store')"
  shows "store_inv store' \<and> store_abs store' = (store_abs store)(k := None) \<and>
    st = (if store_abs store k = None then MP_CACHE_STORE_STATUS_NOT_FOUND else MP_CACHE_STORE_STATUS_OK)"
proof (cases "store_lookup store k")
  case None
  with assms show ?thesis by (auto simp: store_delete_result store_abs_None [symmetric])
next
  case (Some en)
  with assms removed_store_facts [OF assms(1) Some] show ?thesis
    by (auto simp: store_delete_result store_abs_None)
qed

interpretation store_kv: kv_store store_inv store_abs mp_cache_store_restore_entry mp_cache_store_delete
  mp_cache_store_clear
  by unfold_locales
    (erule (1) restore_ok restore_failed delete_result | (intro conjI; erule store_clear_facts))+


section \<open>Runs of the table\<close>

text \<open>One call of the table's interface, with any arguments and any environment.\<close>

inductive store_step :: "mp_cache_store \<Rightarrow> mp_cache_store \<Rightarrow> bool" where
  step_set: "mp_cache_store_set e store key v ttl now = (st, store') \<Longrightarrow> store_step store store'"
| step_get: "mp_cache_store_get_copy e store key now = (st, copied, store') \<Longrightarrow> store_step store store'"
| step_delete: "mp_cache_store_delete store key = (st, store') \<Longrightarrow> store_step store store'"
| step_restore: "mp_cache_store_restore_entry e store key v t = (st, store') \<Longrightarrow> store_step store store'"
| step_purge: "mp_cache_store_purge_expired store now = (removed, store') \<Longrightarrow> store_step store store'"
| step_clear: "store_step store (mp_cache_store_clear store)"

lemma set_is_write:
  "mp_cache_store_set e store key v ttl now = (st, store') \<Longrightarrow>
     store' = store \<or> mp_cache_store_write_entry e store key v (now + uint ttl) = (st, store')"
  by (auto simp: mp_cache_store_set_def split: if_splits)

lemma write_entry_inv:
  assumes "store_inv store" "mp_cache_store_write_entry e store key v t = (st, store')"
  shows "store_inv store'"
proof (cases "st = MP_CACHE_STORE_STATUS_OK")
  case True
  then obtain k w where "key = Some k" "v = Some w"
    using assms(2) by (auto simp: mp_cache_store_write_entry_def split: option.splits)
  with True assms write_entry_ok [OF assms(1)] show ?thesis by blast
next
  case False
  with assms write_entry_failed show ?thesis by metis
qed

lemma get_inv:
  assumes "store_inv store" "mp_cache_store_get_copy e store key now = (st, copied, store')"
  shows "store_inv store'"
proof (cases key)
  case None
  with assms show ?thesis by (simp add: mp_cache_store_get_copy_def)
next
  case (Some k)
  with assms removed_store_facts(1) [OF assms(1)] show ?thesis
    by (auto simp: store_get_result split: option.splits if_splits)
qed

lemma delete_inv:
  assumes "store_inv store" "mp_cache_store_delete store key = (st, store')"
  shows "store_inv store'"
proof (cases key)
  case None
  with assms show ?thesis by (simp add: mp_cache_store_delete_def)
next
  case (Some k)
  with assms delete_result [OF assms(1)] show ?thesis by blast
qed

lemma store_step_inv: "store_step store store' \<Longrightarrow> store_inv store \<Longrightarrow> store_inv store'"
proof (induction rule: store_step.induct)
  case (step_set e store key v ttl now st store')
  then show ?case using set_is_write write_entry_inv by metis
next
  case (step_get e store key now st copied store')
  then show ?case using get_inv by blast
next
  case (step_delete store key st store')
  then show ?case using delete_inv by blast
next
  case (step_restore e store key v t st store')
  then show ?case
    by (auto simp: mp_cache_store_restore_entry_def split: if_splits intro: write_entry_inv)
next
  case (step_purge store now removed store')
  then show ?case using purge_expired_facts(1) by blast
next
  case (step_clear store)
  then show ?case using store_clear_facts(1) by blast
qed

lemma init_inv:
  assumes "mp_cache_store_init e config = Some store" "unat (memory_limit_bytes config) \<le> 2 ^ 63"
  shows "store_inv store" "store_abs store = Map.empty"
proof -
  have s: "store = \<lparr>buckets = replicate (unat (bucket_count config)) [],
      store_bucket_count = unat (bucket_count config), entry_count = 0, bytes_used = 0,
      store_memory_limit = memory_limit_bytes config,
      store_max_key_bytes = max_key_bytes config, store_max_value_bytes = max_value_bytes config\<rparr>"
    and ne: "0 < unat (bucket_count config)"
    using assms(1) by (auto simp: mp_cache_store_init_def unat_gt_0 split: if_splits)
  show inv: "store_inv store"
    using assms(2) ne by (simp add: store_inv_def s store_size_def store_length_def sum_list_replicate)
  show "store_abs store = Map.empty"
    using bucket_index_less [OF inv]
    by (auto simp: store_abs_def store_lookup_chain fun_eq_iff s)
qed

lemma store_inv_bytes_used:
  assumes "store_inv store"
  shows "unat (bytes_used store) = store_size store" "unat (entry_count store) = store_length store"
proof -
  have "store_size store < 2 ^ 64" "store_length store < 2 ^ 64"
    using assms store_length_le_size [of store] by (auto simp: store_inv_def)
  with assms show "unat (bytes_used store) = store_size store" "unat (entry_count store) = store_length store"
    by (simp_all add: store_inv_def unat_of_nat)
qed


text \<open>No operation changes the configured limits.\<close>

definition same_limits :: "mp_cache_store \<Rightarrow> mp_cache_store \<Rightarrow> bool" where
  "same_limits store store' \<longleftrightarrow> store_memory_limit store' = store_memory_limit store \<and>
     store_bucket_count store' = store_bucket_count store \<and>
     store_max_key_bytes store' = store_max_key_bytes store \<and> store_max_value_bytes store' = store_max_value_bytes store"

lemma slot_limits [simp]:
  "store_memory_limit (slot_put store slot en) = store_memory_limit store"
  "store_bucket_count (slot_put store slot en) = store_bucket_count store"
  "store_max_key_bytes (slot_put store slot en) = store_max_key_bytes store"
  "store_max_value_bytes (slot_put store slot en) = store_max_value_bytes store"
  "store_memory_limit (slot_unlink store slot) = store_memory_limit store"
  "store_bucket_count (slot_unlink store slot) = store_bucket_count store"
  "store_max_key_bytes (slot_unlink store slot) = store_max_key_bytes store"
  "store_max_value_bytes (slot_unlink store slot) = store_max_value_bytes store"
  by (simp_all add: slot_put_def slot_unlink_def Let_def split: prod.splits)

lemma write_limits: "mp_cache_store_write_entry e store key v t = (st, store') \<Longrightarrow> same_limits store store'"
  by (auto simp: mp_cache_store_write_entry_def same_limits_def Let_def split: option.splits if_splits)

lemma store_step_limits: "store_step store store' \<Longrightarrow> same_limits store store'"
proof (induction rule: store_step.induct)
  case (step_set e store key v ttl now st store')
  then show ?case
    using set_is_write write_limits by (metis same_limits_def)
next
  case (step_restore e store key v t st store')
  then show ?case
    using write_limits by (auto simp: mp_cache_store_restore_entry_def same_limits_def split: if_splits)
qed (auto simp: same_limits_def mp_cache_store_get_copy_def mp_cache_store_delete_def Let_def
    mp_cache_store_purge_expired_def mp_cache_store_clear_def split: option.splits if_splits prod.splits)

interpretation store_run: transition_invariant store_step store_inv
  by unfold_locales (rule store_step_inv)

interpretation limits_run: transition_invariant store_step "same_limits store0" for store0
  by unfold_locales (auto simp: same_limits_def dest: store_step_limits)

lemma store_steps_facts:
  "store_step\<^sup>*\<^sup>* store store' \<Longrightarrow> store_inv store \<Longrightarrow> store_inv store' \<and> same_limits store store'"
  using store_run.run_keeps limits_run.run_keeps [of store store' store] by (auto simp: same_limits_def)

lemma for_each_append:
  "visit_entries (\<lambda>en acc. (True, acc @ [en])) entries ctx = (True, ctx @ entries)"
  by (induction entries arbitrary: ctx) auto


text \<open>A small table with one entry, on which the statements below are evaluated.\<close>

definition sample_store :: mp_cache_store where
  "sample_store =
     \<lparr>buckets = [[\<lparr>entry_key = [1], entry_value = [2, 3], entry_expires_at = 500\<rparr>], []],
      store_bucket_count = 2, entry_count = 1, bytes_used = 52, store_memory_limit = 1000,
      store_max_key_bytes = 16, store_max_value_bytes = 64\<rparr>"

lemma sample_hash: "unat (mp_cache_hash_bytes [1]) mod 2 = 0"
  by (simp add: mp_cache_hash_bytes_def)

lemma sample_store_inv: "store_inv sample_store"
  by (simp add: store_inv_def sample_store_def store_size_def store_length_def entry_size_def sizeof_entry_def
      entry_ok_def bucket_index_def sample_hash less_2_cases_iff all_conj_distrib)

lemma sample_store_abs: "store_abs sample_store [1] = Some ([2, 3], 500)"
  by (simp add: store_abs_def store_lookup_chain sample_store_def bucket_index_def sample_hash)


section \<open>Properties\<close>

text \<open>
  Property C5. Whatever sequence of calls is made on a table created from a configuration with a
  memory limit of at most \<open>2^63\<close> bytes, and whichever allocations fail: the chains stay well
  formed with no key twice, the two counters are exactly the number of entries and the sum of
  their costs, without wrap-around, and the bytes used never exceed the configured limit.
\<close>
theorem store_runs_keep_invariant:
  assumes "mp_cache_store_init e config = Some store0" "unat (memory_limit_bytes config) \<le> 2 ^ 63"
    and "store_step\<^sup>*\<^sup>* store0 store"
  shows "store_inv store \<and> unat (entry_count store) = length (concat (buckets store)) \<and>
     unat (bytes_used store) = sum_list (map entry_size (concat (buckets store))) \<and>
     unat (bytes_used store) \<le> unat (memory_limit_bytes config)"
proof -
  have "store_memory_limit store0 = memory_limit_bytes config"
    using assms(1) by (auto simp: mp_cache_store_init_def split: if_splits)
  with store_steps_facts [OF assms(3) init_inv(1) [OF assms(1,2)]] have inv: "store_inv store"
    and "store_memory_limit store = memory_limit_bytes config"
    by (auto simp: same_limits_def)
  with store_inv_bytes_used [OF inv] show ?thesis
    by (simp add: store_inv_def) (simp add: store_size_def store_length_def sum_chain_size_concat sum_length_concat)
qed

theorem store_runs_keep_invariant_witness:
  "\<exists>store0. mp_cache_store_init good_env mp_cache_config_init_defaults = Some store0 \<and> store_inv store0 \<and>
     store_step\<^sup>*\<^sup>* store0 (mp_cache_store_clear store0) \<and> store_inv (mp_cache_store_clear store0)"
proof -
  obtain store0 where i: "mp_cache_store_init good_env mp_cache_config_init_defaults = Some store0"
    by (simp add: mp_cache_store_init_def mp_cache_config_init_defaults_def env_simps)
  have m: "unat (memory_limit_bytes mp_cache_config_init_defaults) \<le> 2 ^ 63"
    by (simp add: mp_cache_config_init_defaults_def)
  have "store_step\<^sup>*\<^sup>* store0 (mp_cache_store_clear store0)"
    by (rule r_into_rtranclp) (rule step_clear)
  with store_runs_keep_invariant [OF i m] i show ?thesis
    by blast
qed

text \<open>
  Property C6. A successful write is the update of the abstract map: the key has the value and the
  expiry \<open>now + ttl\<close>, every other key is as before; a write that reports anything else leaves
  the table untouched, and it reports success whenever the arguments are within the limits, the new
  total fits the memory limit and the allocations succeed.
\<close>
theorem store_set_refines:
  assumes "store_inv store" "mp_cache_store_set e store (Some key) (Some v) ttl now = (st, store')"
  shows "(st = MP_CACHE_STORE_STATUS_OK \<longrightarrow> store_abs store' = (store_abs store)(key \<mapsto> (v, now + uint ttl))) \<and>
     (st \<noteq> MP_CACHE_STORE_STATUS_OK \<longrightarrow> store' = store) \<and>
     (all_ok e \<and> 0 < ttl \<and> 0 < length key \<and> length key \<le> unat (store_max_key_bytes store) \<and>
      length v \<le> unat (store_max_value_bytes store) \<and>
      store_size store + sizeof_entry + length key + 1 + length v \<le> unat (store_memory_limit store) \<longrightarrow>
      st = MP_CACHE_STORE_STATUS_OK)"
proof -
  have "st = MP_CACHE_STORE_STATUS_OK"
    if "all_ok e" "0 < ttl" "0 < length key" "length key \<le> unat (store_max_key_bytes store)"
      "length v \<le> unat (store_max_value_bytes store)"
      "store_size store + sizeof_entry + length key + 1 + length v \<le> unat (store_memory_limit store)"
    using write_entry_succeeds [OF assms(1) that(1,3-6), of "now + uint ttl"] that(2) assms(2)
    by (auto simp: mp_cache_store_set_def split: if_splits)
  moreover have "store_abs store' = (store_abs store)(key \<mapsto> (v, now + uint ttl))" if "st = MP_CACHE_STORE_STATUS_OK"
    using write_entry_ok [OF assms(1)] assms(2) that by (auto simp: mp_cache_store_set_def split: if_splits)
  moreover have "store' = store" if "st \<noteq> MP_CACHE_STORE_STATUS_OK"
    using assms(2) that write_entry_failed by (auto simp: mp_cache_store_set_def split: if_splits)
  ultimately show ?thesis
    by blast
qed

theorem store_set_refines_witness:
  "\<exists>store'. mp_cache_store_set good_env sample_store (Some [7]) (Some [5, 6]) 60 100 = (MP_CACHE_STORE_STATUS_OK, store') \<and>
     store_abs store' [7] = Some ([5, 6], 160)"
proof -
  obtain st store' where r: "mp_cache_store_set good_env sample_store (Some [7]) (Some [5, 6]) 60 100 = (st, store')"
    by (cases "mp_cache_store_set good_env sample_store (Some [7]) (Some [5, 6]) 60 100")
  have "store_size sample_store + sizeof_entry + 1 + 1 + 2 \<le> unat (store_memory_limit sample_store)"
    by (simp add: sample_store_def store_size_def entry_size_def sizeof_entry_def)
  with store_set_refines [OF sample_store_inv r] r show ?thesis
    by (simp add: sample_store_def)
qed

text \<open>
  Property C7. Reading follows the abstract map and the clock: a live key returns its value and expiry
  and changes nothing; a key whose expiry is not after \<open>now\<close> reports expiry and is removed; an
  unknown key is not found. A value is never returned at or after its expiry.
\<close>
theorem store_get_refines:
  assumes "store_inv store" "all_ok e"
  shows "mp_cache_store_get_copy e store (Some key) now =
     (case store_abs store key of
        None \<Rightarrow> (MP_CACHE_STORE_STATUS_NOT_FOUND, None, store)
      | Some (v, t) \<Rightarrow>
          if now < t then (MP_CACHE_STORE_STATUS_OK, Some (v, t), store)
          else (MP_CACHE_STORE_STATUS_EXPIRED, None, snd (mp_cache_store_delete store (Some key)))) \<and>
     store_abs (snd (snd (mp_cache_store_get_copy e store (Some key) now))) =
       (case store_abs store key of
          Some (v, t) \<Rightarrow> if now < t then store_abs store else (store_abs store)(key := None)
        | None \<Rightarrow> store_abs store)"
proof (cases "store_lookup store key")
  case None
  then show ?thesis by (simp add: store_get_result store_abs_def)
next
  case (Some en)
  with removed_store_facts(2) [OF assms(1) Some] assms(2) show ?thesis
    by (auto simp: store_get_result store_delete_result store_abs_def env_simps)
qed

theorem store_get_refines_witness:
  "mp_cache_store_get_copy good_env sample_store (Some [1]) 499 = (MP_CACHE_STORE_STATUS_OK, Some ([2, 3], 500), sample_store) \<and>
   fst (mp_cache_store_get_copy good_env sample_store (Some [1]) 500) = MP_CACHE_STORE_STATUS_EXPIRED"
  using store_get_refines [OF sample_store_inv all_ok_good_env, of "[1]" 499]
    store_get_refines [OF sample_store_inv all_ok_good_env, of "[1]" 500]
  by (simp add: sample_store_abs)

text \<open>
  Property C8. Deleting removes exactly the key from the abstract map and says whether it was
  there; sweeping keeps exactly the entries that are still live and returns how many were removed;
  clearing leaves the empty map.
\<close>
theorem store_removals_refine:
  assumes "store_inv store"
  shows "store_abs (snd (mp_cache_store_delete store (Some key))) = (store_abs store)(key := None) \<and>
     fst (mp_cache_store_delete store (Some key)) =
       (if store_abs store key = None then MP_CACHE_STORE_STATUS_NOT_FOUND else MP_CACHE_STORE_STATUS_OK) \<and>
     store_abs (snd (mp_cache_store_purge_expired store now)) =
       (\<lambda>k. case store_abs store k of Some (v, t) \<Rightarrow> if now < t then Some (v, t) else None | None \<Rightarrow> None) \<and>
     fst (mp_cache_store_purge_expired store now) =
       entry_count store - entry_count (snd (mp_cache_store_purge_expired store now)) \<and>
     store_abs (mp_cache_store_clear store) = Map.empty"
proof -
  obtain st store1 where d: "mp_cache_store_delete store (Some key) = (st, store1)"
    by (cases "mp_cache_store_delete store (Some key)")
  obtain removed store2 where p: "mp_cache_store_purge_expired store now = (removed, store2)"
    by (cases "mp_cache_store_purge_expired store now")
  note p' = purge_expired_facts [OF assms p]
  have "store_length store2 \<le> store_length store"
    using p unfolding store_length_def
    by (auto simp: mp_cache_store_purge_expired_def purge_buckets_result comp_def intro!: sum_list_mono)
  then have "removed = entry_count store - entry_count store2"
    using p'(1,3) assms of_nat_diff_add [of "store_length store - store_length store2" "store_length store2" "store_length store" 0]
    by (simp add: store_inv_def)
  then show ?thesis
    using delete_result [OF assms d] d p p'(2) store_clear_facts(2) [OF assms] by simp
qed

theorem store_removals_refine_witness:
  "store_abs (snd (mp_cache_store_purge_expired sample_store 500)) [1] = None \<and>
   fst (mp_cache_store_delete sample_store (Some [1])) = MP_CACHE_STORE_STATUS_OK"
  using store_removals_refine [OF sample_store_inv, of "[1]" 500] by (simp add: sample_store_abs)

end
