(* ===== verification/Security.thy ===== *)
theory Security
  imports Crypto Config
begin

text \<open>
  Model of \<^verbatim>\<open>internal/security/security.c\<close>: resolving secret references, the registered
  clients with the hashes of their bearer tokens, authentication and the role order. A role is a
  32-bit word, since the restore path casts unchecked numbers to the enumeration. The \<open>count\<close>
  of the client array is the length of the list; \<open>capacity\<close> is the allocated size. The output
  buffer of a token is a pointer to a buffer of some capacity.
\<close>


section \<open>Data\<close>

definition MP_CACHE_ROLE_NONE :: u32 where "MP_CACHE_ROLE_NONE = 0"
definition MP_CACHE_ROLE_CLIENT :: u32 where "MP_CACHE_ROLE_CLIENT = 1"
definition MP_CACHE_ROLE_OPERATOR :: u32 where "MP_CACHE_ROLE_OPERATOR = 2"
definition MP_CACHE_ROLE_ADMIN :: u32 where "MP_CACHE_ROLE_ADMIN = 3"

definition MP_CACHE_CLIENT_ID_CAP :: nat where "MP_CACHE_CLIENT_ID_CAP = 64"
definition MP_CACHE_TOKEN_HASH_SIZE :: nat where "MP_CACHE_TOKEN_HASH_SIZE = 32"
definition MP_CACHE_TOKEN_TEXT_CAP :: nat where "MP_CACHE_TOKEN_TEXT_CAP = MP_CACHE_TOKEN_HASH_SIZE * 2 + 1"
definition MP_CACHE_MAX_CLIENTS :: nat where "MP_CACHE_MAX_CLIENTS = 1024"
definition MP_CACHE_INITIAL_CLIENT_CAPACITY :: nat where "MP_CACHE_INITIAL_CLIENT_CAPACITY = 8"
definition MP_CACHE_BOOTSTRAP_ADMIN_ID :: string where "MP_CACHE_BOOTSTRAP_ADMIN_ID = ''bootstrap-admin''"

datatype mp_cache_security_status =
    MP_CACHE_SECURITY_STATUS_OK
  | MP_CACHE_SECURITY_STATUS_NOT_FOUND
  | MP_CACHE_SECURITY_STATUS_CONFLICT
  | MP_CACHE_SECURITY_STATUS_INVALID_ARGUMENT
  | MP_CACHE_SECURITY_STATUS_SECRET_ERROR
  | MP_CACHE_SECURITY_STATUS_NO_MEMORY
  | MP_CACHE_SECURITY_STATUS_IO_ERROR
  | MP_CACHE_SECURITY_STATUS_UNAUTHORIZED
  | MP_CACHE_SECURITY_STATUS_LIMIT_EXCEEDED

record mp_cache_client_record =
  client_id :: string
  client_role :: u32
  token_active :: bool
  token_hash :: bytes

record mp_cache_security =
  client_records :: "mp_cache_client_record list"
  client_capacity :: nat
  bootstrap_admin_hash :: bytes
  bootstrap_admin_loaded :: bool

record mp_cache_principal =
  principal_role :: u32
  principal_id :: string


section \<open>Secrets and tokens\<close>

definition mp_cache_client_id_is_valid :: "string ptr \<Rightarrow> bool" where
  "mp_cache_client_id_is_valid cid =
     (case cid of
        None \<Rightarrow> False
      | Some s \<Rightarrow>
          s \<noteq> [] \<and> length s < MP_CACHE_CLIENT_ID_CAP \<and>
          list_all (\<lambda>c. isalnum c \<or> c = CHR ''-'' \<or> c = CHR ''_'' \<or> c = CHR ''.'') s)"

definition mp_cache_hash_token :: "string ptr \<Rightarrow> bytes" where
  "mp_cache_hash_token auth_token =
     mp_cache_sha256 (case auth_token of None \<Rightarrow> [] | Some s \<Rightarrow> bytes_of s)"

text \<open>A fresh token for a buffer of the given capacity.\<close>

definition mp_cache_security_issue_token :: "env \<Rightarrow> nat ptr \<Rightarrow> mp_cache_security_status \<times> string option" where
  "mp_cache_security_issue_token e out_client_token =
     (case out_client_token of
        None \<Rightarrow> (MP_CACHE_SECURITY_STATUS_INVALID_ARGUMENT, None)
      | Some capacity \<Rightarrow>
          if capacity < MP_CACHE_TOKEN_TEXT_CAP then (MP_CACHE_SECURITY_STATUS_INVALID_ARGUMENT, None)
          else
            (case mp_cache_random_bytes (at 0 e) MP_CACHE_TOKEN_HASH_SIZE of
               Inl _ \<Rightarrow> (MP_CACHE_SECURITY_STATUS_IO_ERROR, None)
             | Inr random_bytes \<Rightarrow>
                 (case mp_cache_hex_encode random_bytes capacity of
                    Inl _ \<Rightarrow> (MP_CACHE_SECURITY_STATUS_IO_ERROR, None)
                  | Inr hex \<Rightarrow> (MP_CACHE_SECURITY_STATUS_OK, Some hex))))"

text \<open>A reference \<open>env:NAME\<close> or \<open>file:/path\<close>; a file contributes its first line, trimmed.\<close>

definition mp_cache_secret_resolve :: "env \<Rightarrow> filesystem \<Rightarrow> string ptr \<Rightarrow> nat \<Rightarrow> string result" where
  "mp_cache_secret_resolve e fs secret_ref out_capacity =
     (case secret_ref of
        None \<Rightarrow> Inl EINVAL
      | Some ref \<Rightarrow>
          if out_capacity = 0 then Inl EINVAL
          else if starts_with ref ''env:'' then
            (case environ e (drop 4 ref) of
               None \<Rightarrow> Inl ENOENT
             | Some v \<Rightarrow> if v = [] then Inl ENOENT else Inr (snprintf_s out_capacity v))
          else if starts_with ref ''file:'' then
            (let path = drop 5 ref in
             if \<not> starts_with path ''/'' then Inl EINVAL
             else
               (case posix_open_read (ok 0 e) fs path of
                  Inl err \<Rightarrow> Inl err
                | Inr bs \<Rightarrow>
                    (case (if ok 1 e then fgets out_capacity (chars_of bs) else None) of
                       None \<Rightarrow> Inl EIO
                     | Some (line, _) \<Rightarrow>
                         (let secret = snprintf_s out_capacity (trim (c_string line)) in
                          if secret = [] then Inl EINVAL else Inr secret))))
          else Inl EINVAL)"

definition mp_cache_secret_derive_key :: "string ptr \<Rightarrow> bytes" where
  "mp_cache_secret_derive_key secret = mp_cache_sha256 (case secret of None \<Rightarrow> [] | Some s \<Rightarrow> bytes_of s)"


section \<open>The client array\<close>

text \<open>The index of the first record with the id.\<close>

definition mp_cache_security_find_record :: "mp_cache_security \<Rightarrow> string ptr \<Rightarrow> nat option" where
  "mp_cache_security_find_record security cid =
     (case cid of
        None \<Rightarrow> None
      | Some s \<Rightarrow>
          (let index = length (takeWhile (\<lambda>r. client_id r \<noteq> s) (client_records security)) in
           if index < length (client_records security) then Some index else None))"

definition mp_cache_security_ensure_capacity ::
  "env \<Rightarrow> mp_cache_security \<Rightarrow> mp_cache_security_status \<times> mp_cache_security" where
  "mp_cache_security_ensure_capacity e security =
     (if length (client_records security) < client_capacity security then (MP_CACHE_SECURITY_STATUS_OK, security)
      else if client_capacity security \<ge> MP_CACHE_MAX_CLIENTS then (MP_CACHE_SECURITY_STATUS_LIMIT_EXCEEDED, security)
      else
        let doubled = (if client_capacity security = 0 then MP_CACHE_INITIAL_CLIENT_CAPACITY
                       else client_capacity security * 2);
            next_capacity = (if doubled > MP_CACHE_MAX_CLIENTS then MP_CACHE_MAX_CLIENTS else doubled)
        in if \<not> ok 0 e then (MP_CACHE_SECURITY_STATUS_NO_MEMORY, security)
           else (MP_CACHE_SECURITY_STATUS_OK, security\<lparr>client_capacity := next_capacity\<rparr>))"

definition mp_cache_security_init :: "env \<Rightarrow> filesystem \<Rightarrow> mp_cache_config \<Rightarrow> mp_cache_security result" where
  "mp_cache_security_init e fs config =
     (case mp_cache_secret_resolve (at 0 e) fs (Some (bootstrap_admin_token_secret_ref config)) MP_CACHE_SECRET_REF_CAP of
        Inl err \<Rightarrow> Inl err
      | Inr bootstrap_admin_token \<Rightarrow>
          Inr \<lparr>client_records = [], client_capacity = 0,
               bootstrap_admin_hash = mp_cache_hash_token (Some bootstrap_admin_token),
               bootstrap_admin_loaded = True\<rparr>)"

definition mp_cache_security_destroy :: "mp_cache_security \<Rightarrow> mp_cache_security" where
  "mp_cache_security_destroy security =
     \<lparr>client_records = [], client_capacity = 0, bootstrap_admin_hash = replicate MP_CACHE_TOKEN_HASH_SIZE 0,
      bootstrap_admin_loaded = False\<rparr>"


section \<open>Authentication\<close>

fun authenticate_loop :: "bytes \<Rightarrow> mp_cache_client_record list \<Rightarrow> mp_cache_security_status \<times> mp_cache_principal option" where
  "authenticate_loop hash [] = (MP_CACHE_SECURITY_STATUS_UNAUTHORIZED, None)"
| "authenticate_loop hash (r # rs) =
     (if token_active r \<and> mp_cache_constant_time_equals (Some hash) (Some (token_hash r)) MP_CACHE_TOKEN_HASH_SIZE
      then (MP_CACHE_SECURITY_STATUS_OK, Some \<lparr>principal_role = client_role r, principal_id = client_id r\<rparr>)
      else authenticate_loop hash rs)"

definition mp_cache_security_authenticate ::
  "mp_cache_security \<Rightarrow> string ptr \<Rightarrow> mp_cache_security_status \<times> mp_cache_principal option" where
  "mp_cache_security_authenticate security auth_token =
     (case auth_token of
        None \<Rightarrow> (MP_CACHE_SECURITY_STATUS_INVALID_ARGUMENT, None)
      | Some tok \<Rightarrow>
          if tok = [] then (MP_CACHE_SECURITY_STATUS_INVALID_ARGUMENT, None)
          else
            let hash = mp_cache_hash_token (Some tok) in
            if bootstrap_admin_loaded security \<and>
               mp_cache_constant_time_equals (Some hash) (Some (bootstrap_admin_hash security)) MP_CACHE_TOKEN_HASH_SIZE
            then (MP_CACHE_SECURITY_STATUS_OK,
                  Some \<lparr>principal_role = MP_CACHE_ROLE_ADMIN, principal_id = MP_CACHE_BOOTSTRAP_ADMIN_ID\<rparr>)
            else authenticate_loop hash (client_records security))"


section \<open>Managing clients\<close>

definition mp_cache_security_register_client ::
  "env \<Rightarrow> mp_cache_security \<Rightarrow> string ptr \<Rightarrow> u32 \<Rightarrow> nat ptr \<Rightarrow>
     mp_cache_security_status \<times> string option \<times> mp_cache_security" where
  "mp_cache_security_register_client e security cid role out_client_token =
     (if out_client_token = None \<or> role = MP_CACHE_ROLE_NONE \<or> \<not> mp_cache_client_id_is_valid cid
      then (MP_CACHE_SECURITY_STATUS_INVALID_ARGUMENT, None, security)
      else if mp_cache_security_find_record security cid \<noteq> None
      then (MP_CACHE_SECURITY_STATUS_CONFLICT, None, security)
      else
        (case mp_cache_security_ensure_capacity (at 0 e) security of
           (MP_CACHE_SECURITY_STATUS_OK, security1) \<Rightarrow>
             (case mp_cache_security_issue_token (at 1 e) out_client_token of
                (MP_CACHE_SECURITY_STATUS_OK, Some tok) \<Rightarrow>
                  (MP_CACHE_SECURITY_STATUS_OK, Some tok,
                   security1\<lparr>client_records := client_records security1 @
                     [\<lparr>client_id = snprintf_s MP_CACHE_CLIENT_ID_CAP (the cid), client_role = role,
                       token_active = True, token_hash = mp_cache_hash_token (Some tok)\<rparr>]\<rparr>)
              | (st, _) \<Rightarrow> (st, None, security1))
         | (st, security1) \<Rightarrow> (st, None, security1)))"

definition mp_cache_security_rotate_client_token ::
  "env \<Rightarrow> mp_cache_security \<Rightarrow> string ptr \<Rightarrow> nat ptr \<Rightarrow>
     mp_cache_security_status \<times> string option \<times> mp_cache_security" where
  "mp_cache_security_rotate_client_token e security cid out_client_token =
     (if out_client_token = None \<or> \<not> mp_cache_client_id_is_valid cid
      then (MP_CACHE_SECURITY_STATUS_INVALID_ARGUMENT, None, security)
      else
        (case mp_cache_security_find_record security cid of
           None \<Rightarrow> (MP_CACHE_SECURITY_STATUS_NOT_FOUND, None, security)
         | Some index \<Rightarrow>
             (case mp_cache_security_issue_token (at 0 e) out_client_token of
                (MP_CACHE_SECURITY_STATUS_OK, Some tok) \<Rightarrow>
                  (MP_CACHE_SECURITY_STATUS_OK, Some tok,
                   security\<lparr>client_records := (client_records security)[index :=
                     (client_records security ! index)\<lparr>token_active := True,
                        token_hash := mp_cache_hash_token (Some tok)\<rparr>]\<rparr>)
              | (st, _) \<Rightarrow> (st, None, security))))"

definition mp_cache_security_invalidate_client_token ::
  "mp_cache_security \<Rightarrow> string ptr \<Rightarrow> mp_cache_security_status \<times> mp_cache_security" where
  "mp_cache_security_invalidate_client_token security cid =
     (if \<not> mp_cache_client_id_is_valid cid then (MP_CACHE_SECURITY_STATUS_INVALID_ARGUMENT, security)
      else
        (case mp_cache_security_find_record security cid of
           None \<Rightarrow> (MP_CACHE_SECURITY_STATUS_NOT_FOUND, security)
         | Some index \<Rightarrow>
             (MP_CACHE_SECURITY_STATUS_OK,
              security\<lparr>client_records := (client_records security)[index :=
                (client_records security ! index)\<lparr>token_active := False,
                   token_hash := replicate MP_CACHE_TOKEN_HASH_SIZE 0\<rparr>]\<rparr>)))"

text \<open>The fields the import writes into the record at the index.\<close>

definition import_fields :: "mp_cache_security \<Rightarrow> nat \<Rightarrow> u32 \<Rightarrow> bytes ptr \<Rightarrow> bool \<Rightarrow> mp_cache_security" where
  "import_fields security index role hash is_token_active =
     security\<lparr>client_records := (client_records security)[index :=
       (client_records security ! index)\<lparr>client_role := role, token_active := is_token_active,
          token_hash := (if is_token_active then take MP_CACHE_TOKEN_HASH_SIZE (the hash)
                         else replicate MP_CACHE_TOKEN_HASH_SIZE 0)\<rparr>]\<rparr>"

definition mp_cache_security_import_client_hash ::
  "env \<Rightarrow> mp_cache_security \<Rightarrow> string ptr \<Rightarrow> u32 \<Rightarrow> bytes ptr \<Rightarrow> bool \<Rightarrow>
     mp_cache_security_status \<times> mp_cache_security" where
  "mp_cache_security_import_client_hash e security cid role hash is_token_active =
     (if role = MP_CACHE_ROLE_NONE \<or> \<not> mp_cache_client_id_is_valid cid
      then (MP_CACHE_SECURITY_STATUS_INVALID_ARGUMENT, security)
      else if is_token_active \<and> hash = None then (MP_CACHE_SECURITY_STATUS_INVALID_ARGUMENT, security)
      else
        (case mp_cache_security_find_record security cid of
           Some index \<Rightarrow> (MP_CACHE_SECURITY_STATUS_OK, import_fields security index role hash is_token_active)
         | None \<Rightarrow>
             (case mp_cache_security_ensure_capacity (at 0 e) security of
                (MP_CACHE_SECURITY_STATUS_OK, security1) \<Rightarrow>
                  (let index = length (client_records security1);
                       security2 = security1\<lparr>client_records := client_records security1 @
                         [\<lparr>client_id = snprintf_s MP_CACHE_CLIENT_ID_CAP (the cid), client_role = 0,
                           token_active = False, token_hash = replicate MP_CACHE_TOKEN_HASH_SIZE 0\<rparr>]\<rparr>
                   in (MP_CACHE_SECURITY_STATUS_OK, import_fields security2 index role hash is_token_active))
              | (st, security1) \<Rightarrow> (st, security1))))"

definition mp_cache_security_clear_clients :: "mp_cache_security \<Rightarrow> mp_cache_security" where
  "mp_cache_security_clear_clients security = security\<lparr>client_records := []\<rparr>"

definition mp_cache_security_client_count :: "mp_cache_security \<Rightarrow> nat" where
  "mp_cache_security_client_count security = length (client_records security)"

fun visit_clients :: "(mp_cache_client_record \<Rightarrow> 'c \<Rightarrow> bool \<times> 'c) \<Rightarrow> mp_cache_client_record list \<Rightarrow> 'c \<Rightarrow> bool \<times> 'c" where
  "visit_clients visit [] ctx = (True, ctx)"
| "visit_clients visit (r # rs) ctx =
     (case visit r ctx of (True, ctx') \<Rightarrow> visit_clients visit rs ctx' | (False, ctx') \<Rightarrow> (False, ctx'))"

definition mp_cache_security_for_each_client ::
  "mp_cache_security \<Rightarrow> (mp_cache_client_record \<Rightarrow> 'c \<Rightarrow> bool \<times> 'c) \<Rightarrow> 'c \<Rightarrow> bool \<times> 'c" where
  "mp_cache_security_for_each_client security visit ctx = visit_clients visit (client_records security) ctx"

definition mp_cache_security_find_client :: "mp_cache_security \<Rightarrow> string ptr \<Rightarrow> mp_cache_client_record option" where
  "mp_cache_security_find_client security cid =
     map_option (\<lambda>index. client_records security ! index) (mp_cache_security_find_record security cid)"


section \<open>Roles\<close>

definition mp_cache_role_allows :: "u32 \<Rightarrow> u32 \<Rightarrow> bool" where
  "mp_cache_role_allows actual_role required_role \<longleftrightarrow> required_role \<le> actual_role"

definition mp_cache_role_name :: "u32 \<Rightarrow> string" where
  "mp_cache_role_name role =
     (if role = MP_CACHE_ROLE_CLIENT then ''client''
      else if role = MP_CACHE_ROLE_OPERATOR then ''operator''
      else if role = MP_CACHE_ROLE_ADMIN then ''admin''
      else ''none'')"

definition mp_cache_role_from_string :: "string ptr \<Rightarrow> u32" where
  "mp_cache_role_from_string role_text =
     (case role_text of
        None \<Rightarrow> MP_CACHE_ROLE_NONE
      | Some s \<Rightarrow>
          if s = ''client'' then MP_CACHE_ROLE_CLIENT
          else if s = ''operator'' then MP_CACHE_ROLE_OPERATOR
          else if s = ''admin'' then MP_CACHE_ROLE_ADMIN
          else MP_CACHE_ROLE_NONE)"

fun mp_cache_security_status_name :: "mp_cache_security_status \<Rightarrow> string" where
  "mp_cache_security_status_name MP_CACHE_SECURITY_STATUS_OK = ''OK''"
| "mp_cache_security_status_name MP_CACHE_SECURITY_STATUS_NOT_FOUND = ''NOT_FOUND''"
| "mp_cache_security_status_name MP_CACHE_SECURITY_STATUS_CONFLICT = ''CONFLICT''"
| "mp_cache_security_status_name MP_CACHE_SECURITY_STATUS_INVALID_ARGUMENT = ''INVALID_ARGUMENT''"
| "mp_cache_security_status_name MP_CACHE_SECURITY_STATUS_SECRET_ERROR = ''SECRET_ERROR''"
| "mp_cache_security_status_name MP_CACHE_SECURITY_STATUS_NO_MEMORY = ''NO_MEMORY''"
| "mp_cache_security_status_name MP_CACHE_SECURITY_STATUS_IO_ERROR = ''IO_ERROR''"
| "mp_cache_security_status_name MP_CACHE_SECURITY_STATUS_UNAUTHORIZED = ''UNAUTHORIZED''"
| "mp_cache_security_status_name MP_CACHE_SECURITY_STATUS_LIMIT_EXCEEDED = ''LIMIT_EXCEEDED''"


section \<open>The invariant\<close>

definition client_ok :: "mp_cache_client_record \<Rightarrow> bool" where
  "client_ok r \<longleftrightarrow> mp_cache_client_id_is_valid (Some (client_id r)) \<and> client_role r \<noteq> MP_CACHE_ROLE_NONE \<and>
     length (token_hash r) = MP_CACHE_TOKEN_HASH_SIZE \<and>
     (\<not> token_active r \<longrightarrow> token_hash r = replicate MP_CACHE_TOKEN_HASH_SIZE 0)"

text \<open>
  Client ids are valid and pairwise different, hashes have their fixed width, a revoked client holds
  no hash, and the array never outgrows its capacity or the hard cap.
\<close>

definition security_inv :: "mp_cache_security \<Rightarrow> bool" where
  "security_inv security \<longleftrightarrow>
     distinct (map client_id (client_records security)) \<and> list_all client_ok (client_records security) \<and>
     length (client_records security) \<le> client_capacity security \<and> client_capacity security \<le> MP_CACHE_MAX_CLIENTS \<and>
     length (bootstrap_admin_hash security) = MP_CACHE_TOKEN_HASH_SIZE"

lemma length_hash_token [simp]: "length (mp_cache_hash_token tok) = MP_CACHE_TOKEN_HASH_SIZE"
  by (simp add: mp_cache_hash_token_def MP_CACHE_TOKEN_HASH_SIZE_def)

lemma find_record_None:
  "mp_cache_security_find_record security (Some cid) = None \<longleftrightarrow> cid \<notin> client_id ` set (client_records security)"
proof -
  let ?rs = "client_records security"
  have "mp_cache_security_find_record security (Some cid) = None \<longleftrightarrow>
      length (takeWhile (\<lambda>r. client_id r \<noteq> cid) ?rs) = length ?rs"
    using length_takeWhile_le [of "\<lambda>r. client_id r \<noteq> cid" ?rs]
    by (auto simp: mp_cache_security_find_record_def Let_def)
  then show ?thesis
    unfolding takeWhile_length_eq_iff by auto
qed

lemma find_record_Some:
  assumes "mp_cache_security_find_record security (Some cid) = Some index"
  shows "index < length (client_records security)" "client_id (client_records security ! index) = cid"
proof -
  let ?rs = "client_records security"
  from assms have i: "index = length (takeWhile (\<lambda>r. client_id r \<noteq> cid) ?rs)" "index < length ?rs"
    by (auto simp: mp_cache_security_find_record_def Let_def split: if_splits)
  then show "index < length ?rs" by simp
  show "client_id (?rs ! index) = cid"
    using nth_length_takeWhile [of "\<lambda>r. client_id r \<noteq> cid" ?rs] i by simp
qed

lemma valid_id_fits: "mp_cache_client_id_is_valid (Some cid) \<Longrightarrow> snprintf_s MP_CACHE_CLIENT_ID_CAP cid = cid"
  by (simp add: mp_cache_client_id_is_valid_def)

lemma ensure_capacity_result:
  assumes "mp_cache_security_ensure_capacity e security = (st, security')"
  shows "security' = security \<or> (\<exists>n. security' = security\<lparr>client_capacity := n\<rparr>)"
    and "security_inv security \<Longrightarrow> security_inv security'"
    and "st = MP_CACHE_SECURITY_STATUS_OK \<Longrightarrow> security_inv security \<Longrightarrow>
      length (client_records security') < client_capacity security'"
  using assms
  by (auto simp: mp_cache_security_ensure_capacity_def Let_def security_inv_def MP_CACHE_MAX_CLIENTS_def
      MP_CACHE_INITIAL_CLIENT_CAPACITY_def split: if_splits)

lemma ensure_capacity_records:
  "mp_cache_security_ensure_capacity e security = (st, security') \<Longrightarrow>
     client_records security' = client_records security \<and> bootstrap_admin_hash security' = bootstrap_admin_hash security \<and>
     bootstrap_admin_loaded security' = bootstrap_admin_loaded security"
  using ensure_capacity_result(1) by fastforce

lemma append_client_inv:
  assumes "security_inv security" "length (client_records security) < client_capacity security"
    and "client_ok r" "client_id r \<notin> client_id ` set (client_records security)"
  shows "security_inv (security\<lparr>client_records := client_records security @ [r]\<rparr>)"
  using assms by (auto simp: security_inv_def)

lemma update_client_inv:
  assumes inv: "security_inv security" and i: "index < length (client_records security)"
    and r: "client_ok r" "client_id r = client_id (client_records security ! index)"
  shows "security_inv (security\<lparr>client_records := (client_records security)[index := r]\<rparr>)"
proof -
  have "map client_id ((client_records security)[index := r]) = map client_id (client_records security)"
    using i r(2) by (simp add: map_update list_update_same_conv)
  moreover have "list_all client_ok ((client_records security)[index := r])"
    using inv r(1) set_update_subset_insert [of "client_records security" index r]
    by (auto simp: security_inv_def list_all_iff)
  ultimately show ?thesis
    using inv by (simp add: security_inv_def)
qed

lemma client_ok_nth: "security_inv security \<Longrightarrow> index < length (client_records security) \<Longrightarrow> client_ok (client_records security ! index)"
  by (simp add: security_inv_def list_all_length)

lemma issue_token_ok:
  assumes "mp_cache_security_issue_token e (Some capacity) = (MP_CACHE_SECURITY_STATUS_OK, tok)"
  shows "\<exists>bs s. tok = Some s \<and> length bs = MP_CACHE_TOKEN_HASH_SIZE \<and> mp_cache_hex_encode bs capacity = Inr s \<and> length s = 64"
proof -
  from assms obtain bs s where "mp_cache_random_bytes (at 0 e) MP_CACHE_TOKEN_HASH_SIZE = Inr bs"
    "mp_cache_hex_encode bs capacity = Inr s" "tok = Some s"
    by (auto simp: mp_cache_security_issue_token_def split: if_splits sum.splits)
  moreover then have "length bs = MP_CACHE_TOKEN_HASH_SIZE"
    using random_bytes_length by blast
  moreover from calculation have "length s = 64"
    using length_hex_encode [of bs] by (auto simp: mp_cache_hex_encode_def MP_CACHE_TOKEN_HASH_SIZE_def split: if_splits)
  ultimately show ?thesis by blast
qed

lemma register_result:
  assumes "mp_cache_security_register_client e security (Some cid) role out = (st, tok, security')"
  shows "st = MP_CACHE_SECURITY_STATUS_OK \<and> mp_cache_client_id_is_valid (Some cid) \<and> role \<noteq> MP_CACHE_ROLE_NONE \<and>
      cid \<notin> client_id ` set (client_records security) \<and>
      (\<exists>s security1. tok = Some s \<and> length s = 64 \<and> mp_cache_security_ensure_capacity (at 0 e) security = (MP_CACHE_SECURITY_STATUS_OK, security1) \<and>
        security' = security1\<lparr>client_records := client_records security @
          [\<lparr>client_id = cid, client_role = role, token_active = True, token_hash = mp_cache_hash_token (Some s)\<rparr>]\<rparr>)
    \<or> st \<noteq> MP_CACHE_SECURITY_STATUS_OK \<and> tok = None \<and>
      (security' = security \<or> (\<exists>st1. mp_cache_security_ensure_capacity (at 0 e) security = (st1, security')))"
proof (cases "out = None \<or> role = MP_CACHE_ROLE_NONE \<or> \<not> mp_cache_client_id_is_valid (Some cid) \<or>
    mp_cache_security_find_record security (Some cid) \<noteq> None")
  case True
  with assms show ?thesis
    by (auto simp: mp_cache_security_register_client_def split: if_splits)
next
  case False
  then obtain capacity where out: "out = Some capacity" by auto
  obtain st1 security1 where c: "mp_cache_security_ensure_capacity (at 0 e) security = (st1, security1)"
    by (cases "mp_cache_security_ensure_capacity (at 0 e) security")
  obtain st2 tok2 where t: "mp_cache_security_issue_token (at 1 e) out = (st2, tok2)"
    by (cases "mp_cache_security_issue_token (at 1 e) out")
  show ?thesis
  proof (cases "st1 = MP_CACHE_SECURITY_STATUS_OK \<and> st2 = MP_CACHE_SECURITY_STATUS_OK")
    case True
    with t out issue_token_ok obtain s where "tok2 = Some s" "length s = 64" by blast
    with assms False c t True ensure_capacity_records [OF c] show ?thesis
      by (auto simp: mp_cache_security_register_client_def find_record_None valid_id_fits)
  next
    case nok: False
    with assms False c t show ?thesis
      by (auto simp: mp_cache_security_register_client_def split: mp_cache_security_status.splits option.splits)
  qed
qed

lemma register_inv:
  assumes "security_inv security" "mp_cache_security_register_client e security cid role out = (st, tok, security')"
  shows "security_inv security'"
proof (cases cid)
  case None
  with assms show ?thesis
    by (auto simp: mp_cache_security_register_client_def mp_cache_client_id_is_valid_def)
next
  case (Some c)
  from register_result [OF assms(2) [unfolded Some]] show ?thesis
  proof (elim disjE conjE exE)
    fix s security1
    assume v: "mp_cache_client_id_is_valid (Some c)" "role \<noteq> MP_CACHE_ROLE_NONE"
      "c \<notin> client_id ` set (client_records security)"
      and ec: "mp_cache_security_ensure_capacity (at 0 e) security = (MP_CACHE_SECURITY_STATUS_OK, security1)"
      and s': "security' = security1\<lparr>client_records := client_records security @
          [\<lparr>client_id = c, client_role = role, token_active = True, token_hash = mp_cache_hash_token (Some s)\<rparr>]\<rparr>"
    have "client_ok \<lparr>client_id = c, client_role = role, token_active = True, token_hash = mp_cache_hash_token (Some s)\<rparr>"
      using v by (simp add: client_ok_def)
    with append_client_inv [OF ensure_capacity_result(2) [OF ec assms(1)] ensure_capacity_result(3) [OF ec refl assms(1)]]
      v(3) ensure_capacity_records [OF ec] show ?thesis
      by (simp add: s')
  qed (use assms(1) ensure_capacity_result(2) in \<open>auto\<close>)
qed

lemma rotate_result:
  assumes "mp_cache_security_rotate_client_token e security (Some cid) out = (st, tok, security')"
  shows "st = MP_CACHE_SECURITY_STATUS_OK \<and>
      (\<exists>s index. tok = Some s \<and> length s = 64 \<and> mp_cache_security_find_record security (Some cid) = Some index \<and>
        security' = security\<lparr>client_records := (client_records security)[index :=
          (client_records security ! index)\<lparr>token_active := True, token_hash := mp_cache_hash_token (Some s)\<rparr>]\<rparr>)
    \<or> st \<noteq> MP_CACHE_SECURITY_STATUS_OK \<and> tok = None \<and> security' = security"
proof (cases "out = None \<or> \<not> mp_cache_client_id_is_valid (Some cid)")
  case True
  with assms show ?thesis by (auto simp: mp_cache_security_rotate_client_token_def)
next
  case False
  then obtain capacity where out: "out = Some capacity" by auto
  obtain st2 tok2 where t: "mp_cache_security_issue_token (at 0 e) out = (st2, tok2)"
    by (cases "mp_cache_security_issue_token (at 0 e) out")
  show ?thesis
  proof (cases "st2 = MP_CACHE_SECURITY_STATUS_OK")
    case True
    with t out issue_token_ok obtain s where "tok2 = Some s" "length s = 64" by blast
    with assms False t True show ?thesis
      by (auto simp: mp_cache_security_rotate_client_token_def split: option.splits)
  next
    case nok: False
    with assms False t show ?thesis
      by (auto simp: mp_cache_security_rotate_client_token_def split: mp_cache_security_status.splits option.splits)
  qed
qed

lemma rotate_inv:
  assumes "security_inv security" "mp_cache_security_rotate_client_token e security cid out = (st, tok, security')"
  shows "security_inv security'"
proof (cases cid)
  case None
  with assms show ?thesis
    by (auto simp: mp_cache_security_rotate_client_token_def mp_cache_client_id_is_valid_def)
next
  case (Some c)
  from rotate_result [OF assms(2) [unfolded Some]] show ?thesis
  proof (elim disjE conjE exE)
    fix s index
    assume f: "mp_cache_security_find_record security (Some c) = Some index"
      and s': "security' = security\<lparr>client_records := (client_records security)[index :=
          (client_records security ! index)\<lparr>token_active := True, token_hash := mp_cache_hash_token (Some s)\<rparr>]\<rparr>"
    show ?thesis
      unfolding s' using client_ok_nth [OF assms(1) find_record_Some(1) [OF f]]
      by (intro update_client_inv [OF assms(1) find_record_Some(1) [OF f]]) (auto simp: client_ok_def)
  qed (use assms(1) in auto)
qed

lemma invalidate_inv:
  assumes "security_inv security" "mp_cache_security_invalidate_client_token security cid = (st, security')"
  shows "security_inv security'"
proof (cases "mp_cache_security_find_record security cid")
  case None
  with assms show ?thesis by (auto simp: mp_cache_security_invalidate_client_token_def split: if_splits)
next
  case (Some index)
  then obtain c where c: "cid = Some c"
    by (cases cid) (auto simp: mp_cache_security_find_record_def)
  note f = find_record_Some [OF Some [unfolded c]]
  have "security_inv (security\<lparr>client_records := (client_records security)[index :=
      (client_records security ! index)\<lparr>token_active := False, token_hash := replicate MP_CACHE_TOKEN_HASH_SIZE 0\<rparr>]\<rparr>)"
    using client_ok_nth [OF assms(1) f(1)]
    by (intro update_client_inv [OF assms(1) f(1)]) (auto simp: client_ok_def)
  with assms Some show ?thesis
    by (auto simp: mp_cache_security_invalidate_client_token_def split: if_splits)
qed

lemma import_fields_inv:
  assumes "security_inv security" "index < length (client_records security)" "role \<noteq> MP_CACHE_ROLE_NONE"
    and "active \<longrightarrow> (\<exists>h. hash = Some h \<and> length h = MP_CACHE_TOKEN_HASH_SIZE)"
  shows "security_inv (import_fields security index role hash active)"
  unfolding import_fields_def using assms client_ok_nth [of security index]
  by (intro update_client_inv) (auto simp: client_ok_def)

lemma import_fields_append:
  "import_fields (security\<lparr>client_records := rs @ [r]\<rparr>) (length rs) role hash active =
     security\<lparr>client_records := rs @ [r\<lparr>client_role := role, token_active := active,
       token_hash := (if active then take MP_CACHE_TOKEN_HASH_SIZE (the hash) else replicate MP_CACHE_TOKEN_HASH_SIZE 0)\<rparr>]\<rparr>"
  by (simp add: import_fields_def)

lemma import_inv:
  assumes inv: "security_inv security"
    and r: "mp_cache_security_import_client_hash e security cid role hash active = (st, security')"
    and hash: "active \<longrightarrow> (\<exists>h. hash = Some h \<and> length h = MP_CACHE_TOKEN_HASH_SIZE)"
  shows "security_inv security'"
proof (cases "role = MP_CACHE_ROLE_NONE \<or> \<not> mp_cache_client_id_is_valid cid \<or> active \<and> hash = None")
  case True
  with inv r show ?thesis
    by (auto simp: mp_cache_security_import_client_hash_def split: if_splits)
next
  case False
  then obtain c where c: "cid = Some c"
    by (cases cid) (auto simp: mp_cache_client_id_is_valid_def)
  show ?thesis
  proof (cases "mp_cache_security_find_record security cid")
    case (Some index)
    with False r have "security' = import_fields security index role hash active"
      by (auto simp: mp_cache_security_import_client_hash_def)
    with import_fields_inv [OF inv find_record_Some(1) [OF Some [unfolded c]]] False hash show ?thesis
      by simp
  next
    case None
    obtain st1 security1 where ec: "mp_cache_security_ensure_capacity (at 0 e) security = (st1, security1)"
      by (cases "mp_cache_security_ensure_capacity (at 0 e) security")
    show ?thesis
    proof (cases "st1 = MP_CACHE_SECURITY_STATUS_OK")
      case True
      let ?r = "\<lparr>client_id = c, client_role = role, token_active = active,
         token_hash = (if active then take MP_CACHE_TOKEN_HASH_SIZE (the hash) else replicate MP_CACHE_TOKEN_HASH_SIZE 0)\<rparr>"
      have "security' = security1\<lparr>client_records := client_records security1 @ [?r]\<rparr>"
        using False None r ec True
        by (auto simp: mp_cache_security_import_client_hash_def c import_fields_append Let_def valid_id_fits)
      moreover have "client_ok ?r"
        using False hash by (auto simp: client_ok_def c)
      moreover have "c \<notin> client_id ` set (client_records security1)"
        using None ensure_capacity_records [OF ec] by (simp add: c find_record_None)
      ultimately show ?thesis
        using append_client_inv [OF ensure_capacity_result(2) [OF ec inv] ensure_capacity_result(3) [OF ec True inv], of ?r]
        by simp
    next
      case nok: False
      with False None r ec have "security' = security1"
        by (auto simp: mp_cache_security_import_client_hash_def split: mp_cache_security_status.splits)
      with ensure_capacity_result(2) [OF ec inv] show ?thesis by simp
    qed
  qed
qed

text \<open>One call that changes the registry; an imported active client brings a full-width hash.\<close>

inductive security_step :: "mp_cache_security \<Rightarrow> mp_cache_security \<Rightarrow> bool" where
  step_register: "mp_cache_security_register_client e security cid role out = (st, tok, security') \<Longrightarrow>
    security_step security security'"
| step_rotate: "mp_cache_security_rotate_client_token e security cid out = (st, tok, security') \<Longrightarrow>
    security_step security security'"
| step_invalidate: "mp_cache_security_invalidate_client_token security cid = (st, security') \<Longrightarrow>
    security_step security security'"
| step_import: "mp_cache_security_import_client_hash e security cid role hash active = (st, security') \<Longrightarrow>
    active \<longrightarrow> (\<exists>h. hash = Some h \<and> length h = MP_CACHE_TOKEN_HASH_SIZE) \<Longrightarrow> security_step security security'"
| step_clear_clients: "security_step security (mp_cache_security_clear_clients security)"

lemma security_step_inv: "security_step security security' \<Longrightarrow> security_inv security \<Longrightarrow> security_inv security'"
proof (induction rule: security_step.induct)
  case (step_register e security cid role out st tok security')
  then show ?case using register_inv by blast
next
  case (step_rotate e security cid out st tok security')
  then show ?case using rotate_inv by blast
next
  case (step_invalidate security cid st security')
  then show ?case using invalidate_inv by blast
next
  case (step_import e security cid role hash active st security')
  then show ?case using import_inv by blast
next
  case (step_clear_clients security)
  then show ?case by (simp add: mp_cache_security_clear_clients_def security_inv_def)
qed

interpretation security_run: transition_invariant security_step security_inv
  by unfold_locales (rule security_step_inv)

lemma security_init_inv: "mp_cache_security_init e fs config = Inr security \<Longrightarrow> security_inv security"
  by (auto simp: mp_cache_security_init_def security_inv_def split: sum.splits)


section \<open>Authentication against the set of records\<close>

lemma hash_equals:
  "length h = MP_CACHE_TOKEN_HASH_SIZE \<Longrightarrow> length h' = MP_CACHE_TOKEN_HASH_SIZE \<Longrightarrow>
     mp_cache_constant_time_equals (Some h) (Some h') MP_CACHE_TOKEN_HASH_SIZE \<longleftrightarrow> h = h'"
  by (simp add: constant_time_equals_iff)

lemma authenticate_loop_find:
  "length h = MP_CACHE_TOKEN_HASH_SIZE \<Longrightarrow> list_all client_ok rs \<Longrightarrow>
     authenticate_loop h rs =
       (case find (\<lambda>r. token_active r \<and> token_hash r = h) rs of
          None \<Rightarrow> (MP_CACHE_SECURITY_STATUS_UNAUTHORIZED, None)
        | Some r \<Rightarrow> (MP_CACHE_SECURITY_STATUS_OK, Some \<lparr>principal_role = client_role r, principal_id = client_id r\<rparr>))"
  by (induction rs) (auto simp: client_ok_def hash_equals)

definition bootstrap_matches :: "mp_cache_security \<Rightarrow> string \<Rightarrow> bool" where
  "bootstrap_matches security tok \<longleftrightarrow>
     bootstrap_admin_loaded security \<and> bootstrap_admin_hash security = mp_cache_hash_token (Some tok)"

lemma authenticate_find:
  assumes "security_inv security" "tok \<noteq> []"
  shows "mp_cache_security_authenticate security (Some tok) =
    (if bootstrap_matches security tok
     then (MP_CACHE_SECURITY_STATUS_OK, Some \<lparr>principal_role = MP_CACHE_ROLE_ADMIN, principal_id = MP_CACHE_BOOTSTRAP_ADMIN_ID\<rparr>)
     else case find (\<lambda>r. token_active r \<and> token_hash r = mp_cache_hash_token (Some tok)) (client_records security) of
            None \<Rightarrow> (MP_CACHE_SECURITY_STATUS_UNAUTHORIZED, None)
          | Some r \<Rightarrow> (MP_CACHE_SECURITY_STATUS_OK, Some \<lparr>principal_role = client_role r, principal_id = client_id r\<rparr>))"
  using assms authenticate_loop_find [of "mp_cache_hash_token (Some tok)" "client_records security"]
  by (auto simp: mp_cache_security_authenticate_def Let_def security_inv_def hash_equals bootstrap_matches_def)

lemma authenticate_client:
  assumes inv: "security_inv security" and nb: "\<not> bootstrap_matches security tok"
    and a: "mp_cache_security_authenticate security (Some tok) = (MP_CACHE_SECURITY_STATUS_OK, Some p)"
  shows "\<exists>r \<in> set (client_records security). token_active r \<and> token_hash r = mp_cache_hash_token (Some tok) \<and>
    principal_id p = client_id r \<and> principal_role p = client_role r"
proof -
  have "tok \<noteq> []"
    using a by (auto simp: mp_cache_security_authenticate_def)
  with authenticate_find [OF inv] nb a obtain r where
    "find (\<lambda>r. token_active r \<and> token_hash r = mp_cache_hash_token (Some tok)) (client_records security) = Some r"
    "p = \<lparr>principal_role = client_role r, principal_id = client_id r\<rparr>"
    by (auto split: option.splits)
  then show ?thesis
    by (auto simp: find_Some_iff)
qed

text \<open>The record of an id is the only one with that id.\<close>

lemma updated_record_unique:
  assumes inv: "security_inv security" and i: "index < length (client_records security)"
    and r: "r \<in> set ((client_records security)[index := x])" "client_id r = client_id (client_records security ! index)"
  shows "r = x"
proof -
  let ?rs = "client_records security"
  from r(1) obtain j where j: "j < length ?rs" "r = ?rs[index := x] ! j"
    by (auto simp: in_set_conv_nth)
  have "j = index"
  proof (rule ccontr)
    assume "j \<noteq> index"
    with j r(2) have "map client_id ?rs ! j = map client_id ?rs ! index"
      using i by simp
    moreover have "distinct (map client_id ?rs)"
      using inv by (simp add: security_inv_def)
    ultimately show False
      using i j(1) \<open>j \<noteq> index\<close> nth_eq_iff_index_eq [of "map client_id ?rs" j index] by simp
  qed
  with j i show ?thesis by simp
qed

lemma find_append_none: "(\<forall>x \<in> set xs. \<not> P x) \<Longrightarrow> find P (xs @ ys) = find P ys"
  by (induction xs) auto

lemma register_succeeds:
  assumes "mp_cache_client_id_is_valid (Some cid)" "role \<noteq> MP_CACHE_ROLE_NONE"
    and "mp_cache_security_find_record security (Some cid) = None"
    and "mp_cache_security_ensure_capacity (at 0 e) security = (MP_CACHE_SECURITY_STATUS_OK, security1)"
    and "mp_cache_security_issue_token (at 1 e) (Some capacity) = (MP_CACHE_SECURITY_STATUS_OK, Some tok)"
  shows "fst (mp_cache_security_register_client e security (Some cid) role (Some capacity)) = MP_CACHE_SECURITY_STATUS_OK"
  using assms by (simp add: mp_cache_security_register_client_def)

text \<open>A registry with one client, on which the statements below are evaluated.\<close>

definition sample_security :: mp_cache_security where
  "sample_security =
     \<lparr>client_records = [\<lparr>client_id = ''app'', client_role = MP_CACHE_ROLE_CLIENT, token_active = True,
        token_hash = mp_cache_hash_token (Some ''old'')\<rparr>],
      client_capacity = 8, bootstrap_admin_hash = mp_cache_hash_token (Some ''root''), bootstrap_admin_loaded = True\<rparr>"

lemma valid_app: "mp_cache_client_id_is_valid (Some ''app'')" "mp_cache_client_id_is_valid (Some ''job'')"
  by (simp_all add: mp_cache_client_id_is_valid_def isalnum_def isdigit_def MP_CACHE_CLIENT_ID_CAP_def)

lemma sample_security_inv: "security_inv sample_security"
  using valid_app
  by (simp add: security_inv_def sample_security_def client_ok_def MP_CACHE_ROLE_CLIENT_def MP_CACHE_ROLE_NONE_def
      MP_CACHE_MAX_CLIENTS_def)

lemma issue_zero_token:
  "mp_cache_security_issue_token (at k zero_env) (Some 65) = (MP_CACHE_SECURITY_STATUS_OK, Some (replicate 64 (CHR ''0'')))"
proof -
  have r: "mp_cache_random_bytes (at 0 (at k zero_env)) 32 = Inr (replicate 32 0)"
    by (simp add: mp_cache_random_bytes_def env_simps all_ok_zero_env) (simp add: zero_env_def)
  have h: "mp_cache_hex_encode (replicate 32 0) 65 = Inr (replicate 64 (CHR ''0''))"
    by (simp add: mp_cache_hex_encode_def hex_chars_def numeral_eq_Suc)
  show ?thesis
    by (simp add: mp_cache_security_issue_token_def MP_CACHE_TOKEN_TEXT_CAP_def MP_CACHE_TOKEN_HASH_SIZE_def r h)
qed

lemma find_sample: "mp_cache_security_find_record sample_security (Some ''app'') = Some 0"
  "mp_cache_security_find_record sample_security (Some ''job'') = None"
  by (simp_all add: mp_cache_security_find_record_def sample_security_def)


section \<open>Properties\<close>

text \<open>
  Property C20. Whatever registrations, rotations, revocations, imports and clears follow the start of
  the registry, and whichever allocations and random reads fail: client ids stay valid and pairwise
  different, every hash has 32 bytes, no revoked client keeps a hash, and there are never more than
  1024 clients or more than the array holds.
\<close>
theorem security_runs_keep_invariant:
  assumes "mp_cache_security_init e fs config = Inr security0" "security_step\<^sup>*\<^sup>* security0 security"
  shows "security_inv security \<and> mp_cache_security_client_count security \<le> 1024"
  using security_run.run_keeps [OF assms(2) security_init_inv [OF assms(1)]]
  by (auto simp: security_inv_def mp_cache_security_client_count_def MP_CACHE_MAX_CLIENTS_def)

theorem security_runs_keep_invariant_witness:
  "\<exists>security0. mp_cache_security_init (good_env\<lparr>environ := (\<lambda>_. Some ''s3cret'')\<rparr>) [] mp_cache_config_init_defaults = Inr security0 \<and>
     security_inv (mp_cache_security_clear_clients security0)"
proof -
  have "bootstrap_admin_token_secret_ref mp_cache_config_init_defaults = ''env:MP_SECRET_LOCAL_BOOTSTRAP_ADMIN_TOKEN''"
    by (simp add: mp_cache_config_init_defaults_def mp_cache_copy_string_def MP_CACHE_SECRET_REF_CAP_def)
  then obtain security0 where i:
    "mp_cache_security_init (good_env\<lparr>environ := (\<lambda>_. Some ''s3cret'')\<rparr>) [] mp_cache_config_init_defaults = Inr security0"
    by (auto simp: mp_cache_security_init_def mp_cache_secret_resolve_def starts_with_def env_simps MP_CACHE_SECRET_REF_CAP_def)
  have "security_step\<^sup>*\<^sup>* security0 (mp_cache_security_clear_clients security0)"
    by (rule r_into_rtranclp) (rule step_clear_clients)
  with security_runs_keep_invariant [OF i] i show ?thesis
    by blast
qed

text \<open>
  Property C21. A token authenticates exactly when its SHA-256 digest is the bootstrap digest (as
  admin) or the digest of an active client, and then as the first such client with its stored role;
  the empty token is rejected and every other token is unauthorized.
\<close>
theorem authenticate_iff:
  assumes "security_inv security"
  shows "mp_cache_security_authenticate security (Some tok) =
    (if tok = [] then (MP_CACHE_SECURITY_STATUS_INVALID_ARGUMENT, None)
     else if bootstrap_admin_loaded security \<and> bootstrap_admin_hash security = mp_cache_sha256 (bytes_of tok)
     then (MP_CACHE_SECURITY_STATUS_OK, Some \<lparr>principal_role = MP_CACHE_ROLE_ADMIN, principal_id = ''bootstrap-admin''\<rparr>)
     else case find (\<lambda>r. token_active r \<and> token_hash r = mp_cache_sha256 (bytes_of tok)) (client_records security) of
            None \<Rightarrow> (MP_CACHE_SECURITY_STATUS_UNAUTHORIZED, None)
          | Some r \<Rightarrow> (MP_CACHE_SECURITY_STATUS_OK, Some \<lparr>principal_role = client_role r, principal_id = client_id r\<rparr>))"
  using authenticate_find [OF assms, of tok]
  by (simp add: bootstrap_matches_def mp_cache_hash_token_def MP_CACHE_BOOTSTRAP_ADMIN_ID_def)
    (simp add: mp_cache_security_authenticate_def)

theorem authenticate_iff_witness:
  "mp_cache_security_authenticate sample_security (Some ''root'') =
     (MP_CACHE_SECURITY_STATUS_OK, Some \<lparr>principal_role = MP_CACHE_ROLE_ADMIN, principal_id = ''bootstrap-admin''\<rparr>)"
  using authenticate_iff [OF sample_security_inv, of "''root''"]
  by (simp add: sample_security_def mp_cache_hash_token_def)

text \<open>
  Property C22. Registration: on success the caller gets a token of 64 characters, the new client is
  stored with the role and the digest of that token, the other clients and the bootstrap digest are as
  before, and the token authenticates as the new client unless its digest collides with the bootstrap
  digest or that of an active client. Otherwise no token is returned and no client is added or
  changed.
\<close>
theorem register_client_result:
  assumes "security_inv security"
    and "mp_cache_security_register_client e security (Some cid) role out = (st, tok, security')"
  shows "(st = MP_CACHE_SECURITY_STATUS_OK \<longrightarrow>
      (\<exists>s. tok = Some s \<and> length s = 64 \<and>
        client_records security' = client_records security @
          [\<lparr>client_id = cid, client_role = role, token_active = True, token_hash = mp_cache_sha256 (bytes_of s)\<rparr>] \<and>
        (\<not> bootstrap_matches security s \<and>
         (\<forall>r \<in> set (client_records security). token_active r \<longrightarrow> token_hash r \<noteq> mp_cache_sha256 (bytes_of s)) \<longrightarrow>
         mp_cache_security_authenticate security' (Some s) =
           (MP_CACHE_SECURITY_STATUS_OK, Some \<lparr>principal_role = role, principal_id = cid\<rparr>)))) \<and>
    (st \<noteq> MP_CACHE_SECURITY_STATUS_OK \<longrightarrow> tok = None \<and> client_records security' = client_records security)"
proof -
  note inv' = register_inv [OF assms]
  from register_result [OF assms(2)] show ?thesis
  proof (elim disjE conjE exE)
    fix s security1
    assume ok: "st = MP_CACHE_SECURITY_STATUS_OK" "tok = Some s" "length s = 64"
      and ec: "mp_cache_security_ensure_capacity (at 0 e) security = (MP_CACHE_SECURITY_STATUS_OK, security1)"
      and s': "security' = security1\<lparr>client_records := client_records security @
          [\<lparr>client_id = cid, client_role = role, token_active = True, token_hash = mp_cache_hash_token (Some s)\<rparr>]\<rparr>"
    let ?h = "mp_cache_hash_token (Some s)"
    let ?r = "\<lparr>client_id = cid, client_role = role, token_active = True, token_hash = ?h\<rparr>"
    have h: "?h = mp_cache_sha256 (bytes_of s)"
      by (simp add: mp_cache_hash_token_def)
    have recs: "client_records security' = client_records security @ [?r]"
      by (simp add: s')
    have "s \<noteq> []"
      using ok(3) by auto
    have "mp_cache_security_authenticate security' (Some s) =
        (MP_CACHE_SECURITY_STATUS_OK, Some \<lparr>principal_role = role, principal_id = cid\<rparr>)"
      if nb: "\<not> bootstrap_matches security s"
        and new: "\<forall>r \<in> set (client_records security). token_active r \<longrightarrow> token_hash r \<noteq> mp_cache_sha256 (bytes_of s)"
    proof -
      have "\<not> bootstrap_matches security' s"
        using nb ensure_capacity_records [OF ec] by (simp add: s' bootstrap_matches_def)
      moreover have "find (\<lambda>r. token_active r \<and> token_hash r = ?h) (client_records security @ [?r]) = Some ?r"
        using new by (subst find_append_none) (auto simp: h)
      ultimately show ?thesis
        using authenticate_find [OF inv' \<open>s \<noteq> []\<close>] by (simp only: recs if_False option.case) simp
    qed
    with ok h recs show ?thesis
      by simp
  next
    assume "st \<noteq> MP_CACHE_SECURITY_STATUS_OK" "tok = None" "security' = security"
    then show ?thesis by simp
  next
    fix st1
    assume "st \<noteq> MP_CACHE_SECURITY_STATUS_OK" "tok = None"
      and ec: "mp_cache_security_ensure_capacity (at 0 e) security = (st1, security')"
    then show ?thesis
      using ensure_capacity_records [OF ec] by simp
  qed
qed

theorem register_client_result_witness:
  "\<exists>st tok security'. mp_cache_security_register_client zero_env sample_security (Some ''job'') MP_CACHE_ROLE_OPERATOR (Some 65) =
       (st, tok, security') \<and> st = MP_CACHE_SECURITY_STATUS_OK \<and> length (client_records security') = 2"
proof -
  obtain st tok security' where r:
    "mp_cache_security_register_client zero_env sample_security (Some ''job'') MP_CACHE_ROLE_OPERATOR (Some 65) = (st, tok, security')"
    by (rule prod_cases3)
  have "mp_cache_security_ensure_capacity (at 0 zero_env) sample_security = (MP_CACHE_SECURITY_STATUS_OK, sample_security)"
    by (simp add: mp_cache_security_ensure_capacity_def sample_security_def)
  moreover have "MP_CACHE_ROLE_OPERATOR \<noteq> MP_CACHE_ROLE_NONE"
    by (simp add: MP_CACHE_ROLE_OPERATOR_def MP_CACHE_ROLE_NONE_def)
  ultimately have "st = MP_CACHE_SECURITY_STATUS_OK"
    using register_succeeds [OF valid_app(2) _ find_sample(2) _ issue_zero_token, of MP_CACHE_ROLE_OPERATOR sample_security] r
    by simp
  with register_client_result [OF sample_security_inv r] r show ?thesis
    by (auto simp: sample_security_def)
qed

text \<open>
  Property C23. Rotation and revocation take effect at once. After a rotation, a token whose digest
  differs from that of the new token does not authenticate as the client; after a revocation no token
  does. The bootstrap token is not affected, and no other client's record changes.
\<close>
theorem revoked_tokens_rejected:
  assumes "security_inv security"
    and "mp_cache_security_rotate_client_token e security (Some cid) out = (MP_CACHE_SECURITY_STATUS_OK, Some new, rotated)"
    and "mp_cache_security_invalidate_client_token security (Some cid) = (MP_CACHE_SECURITY_STATUS_OK, revoked)"
    and "\<not> bootstrap_matches security tok"
  shows "(mp_cache_sha256 (bytes_of tok) \<noteq> mp_cache_sha256 (bytes_of new) \<longrightarrow>
      mp_cache_security_authenticate rotated (Some tok) = (MP_CACHE_SECURITY_STATUS_OK, Some p) \<longrightarrow> principal_id p \<noteq> cid) \<and>
    (mp_cache_security_authenticate revoked (Some tok) = (MP_CACHE_SECURITY_STATUS_OK, Some p) \<longrightarrow> principal_id p \<noteq> cid) \<and>
    (\<forall>r. client_id r \<noteq> cid \<longrightarrow> (r \<in> set (client_records rotated) \<longleftrightarrow> r \<in> set (client_records security)) \<and>
       (r \<in> set (client_records revoked) \<longleftrightarrow> r \<in> set (client_records security)))"
proof -
  from rotate_result [OF assms(2)] obtain index where
    f: "mp_cache_security_find_record security (Some cid) = Some index"
    and rot: "rotated = security\<lparr>client_records := (client_records security)[index :=
        (client_records security ! index)\<lparr>token_active := True, token_hash := mp_cache_hash_token (Some new)\<rparr>]\<rparr>"
    by auto
  from assms(3) f have rev: "revoked = security\<lparr>client_records := (client_records security)[index :=
      (client_records security ! index)\<lparr>token_active := False, token_hash := replicate MP_CACHE_TOKEN_HASH_SIZE 0\<rparr>]\<rparr>"
    by (auto simp: mp_cache_security_invalidate_client_token_def split: if_splits)
  note i = find_record_Some [OF f]
  note inv_rot = rotate_inv [OF assms(1,2)] and inv_rev = invalidate_inv [OF assms(1,3)]
  have nb: "\<not> bootstrap_matches rotated tok" "\<not> bootstrap_matches revoked tok"
    using assms(4) by (simp_all add: rot rev bootstrap_matches_def)
  have "principal_id p \<noteq> cid"
    if d: "mp_cache_sha256 (bytes_of tok) \<noteq> mp_cache_sha256 (bytes_of new)"
      and a: "mp_cache_security_authenticate rotated (Some tok) = (MP_CACHE_SECURITY_STATUS_OK, Some p)"
  proof
    assume p: "principal_id p = cid"
    from authenticate_client [OF inv_rot nb(1) a] p obtain r where r: "r \<in> set (client_records rotated)"
      "token_hash r = mp_cache_hash_token (Some tok)" "client_id r = cid"
      by auto
    have "r = (client_records security ! index)\<lparr>token_active := True, token_hash := mp_cache_hash_token (Some new)\<rparr>"
      by (rule updated_record_unique [OF assms(1) i(1)]) (use r i(2) in \<open>simp_all add: rot\<close>)
    with r(2) d show False
      by (simp add: mp_cache_hash_token_def)
  qed
  moreover have "principal_id p \<noteq> cid"
    if a: "mp_cache_security_authenticate revoked (Some tok) = (MP_CACHE_SECURITY_STATUS_OK, Some p)"
  proof
    assume p: "principal_id p = cid"
    from authenticate_client [OF inv_rev nb(2) a] p obtain r where r: "r \<in> set (client_records revoked)"
      "token_active r" "client_id r = cid"
      by auto
    have "r = (client_records security ! index)
        \<lparr>token_active := False, token_hash := replicate MP_CACHE_TOKEN_HASH_SIZE 0\<rparr>"
      by (rule updated_record_unique [OF assms(1) i(1)]) (use r i(2) in \<open>simp_all add: rev\<close>)
    with r(2) show False
      by simp
  qed
  moreover have "(r \<in> set ((client_records security)[index := x]) \<longleftrightarrow> r \<in> set (client_records security))"
    if "client_id r \<noteq> cid" "client_id x = cid" for r x
    using that i by (auto simp: in_set_conv_nth nth_list_update)
  ultimately show ?thesis
    using i(2) by (auto simp: rot rev)
qed

theorem revoked_tokens_rejected_witness:
  "\<exists>new rotated revoked.
     mp_cache_security_rotate_client_token zero_env sample_security (Some ''app'') (Some 65) = (MP_CACHE_SECURITY_STATUS_OK, Some new, rotated) \<and>
     mp_cache_security_invalidate_client_token sample_security (Some ''app'') = (MP_CACHE_SECURITY_STATUS_OK, revoked) \<and>
     (\<forall>tok p. \<not> bootstrap_matches sample_security tok \<longrightarrow>
        mp_cache_security_authenticate revoked (Some tok) = (MP_CACHE_SECURITY_STATUS_OK, Some p) \<longrightarrow> principal_id p \<noteq> ''app'')"
proof -
  obtain new rotated where r: "mp_cache_security_rotate_client_token zero_env sample_security (Some ''app'') (Some 65) =
      (MP_CACHE_SECURITY_STATUS_OK, Some new, rotated)"
    by (simp add: mp_cache_security_rotate_client_token_def valid_app find_sample issue_zero_token)
  obtain revoked where v: "mp_cache_security_invalidate_client_token sample_security (Some ''app'') =
      (MP_CACHE_SECURITY_STATUS_OK, revoked)"
    by (simp add: mp_cache_security_invalidate_client_token_def valid_app find_sample)
  show ?thesis
    using revoked_tokens_rejected [OF sample_security_inv r v] r v by blast
qed



end
