(* ===== verification/Storage.thy ===== *)
theory Storage
  imports Packet Cache Security "HOL-Library.Monad_Syntax"
begin

text \<open>
  The upper half of \<^verbatim>\<open>internal/storage/storage.c\<close>: the state payload (live entries and client
  records), the journal payloads and their replay, checkpoints, exports and imports. The state that the
  routines update is the file system, the cache table and the client registry; a routine that reports
  failure returns whatever it has changed until then. Messages to the log are left out.
\<close>


section \<open>Constants and data\<close>

definition MP_CACHE_STORAGE_STATE_VERSION :: u32 where "MP_CACHE_STORAGE_STATE_VERSION = 2"
definition MP_CACHE_STORAGE_JOURNAL_VERSION :: u32 where "MP_CACHE_STORAGE_JOURNAL_VERSION = 2"
definition MP_CACHE_STORAGE_MAX_PACKET_OVERHEAD_BYTES :: u64 where
  "MP_CACHE_STORAGE_MAX_PACKET_OVERHEAD_BYTES = 16 * 1024 * 1024"
definition MP_CACHE_STORAGE_EXPORT_FILE_PREFIX :: string where
  "MP_CACHE_STORAGE_EXPORT_FILE_PREFIX = ''mp-cache-export-''"

datatype mp_cache_journal_op =
    MP_CACHE_JOURNAL_OP_SET
  | MP_CACHE_JOURNAL_OP_DELETE
  | MP_CACHE_JOURNAL_OP_CLIENT_UPSERT
  | MP_CACHE_JOURNAL_OP_PURGE_ALL

fun journal_op_value :: "mp_cache_journal_op \<Rightarrow> u32" where
  "journal_op_value MP_CACHE_JOURNAL_OP_SET = 1"
| "journal_op_value MP_CACHE_JOURNAL_OP_DELETE = 2"
| "journal_op_value MP_CACHE_JOURNAL_OP_CLIENT_UPSERT = 3"
| "journal_op_value MP_CACHE_JOURNAL_OP_PURGE_ALL = 4"

record mp_cache_export_result =
  export_path :: string
  digest_hex :: string
  export_entry_count :: nat
  export_client_count :: nat


section \<open>The state payload\<close>

definition mp_cache_count_active_entry :: "int \<Rightarrow> mp_cache_entry \<Rightarrow> nat \<Rightarrow> bool \<times> nat" where
  "mp_cache_count_active_entry now entry count =
     (True, if entry_expires_at entry > now then count + 1 else count)"

text \<open>The context of the serializing walks: the number of records emitted and the buffer.\<close>

definition mp_cache_serialize_active_entry ::
  "env \<Rightarrow> int \<Rightarrow> mp_cache_entry \<Rightarrow> nat \<times> mp_cache_buffer \<Rightarrow> bool \<times> (nat \<times> mp_cache_buffer)" where
  "mp_cache_serialize_active_entry e now entry ctx =
     (case ctx of (n, buffer) \<Rightarrow>
        if entry_expires_at entry \<le> now then (True, (n, buffer))
        else
          (case append_fields (at n e) buffer
              [U32 (of_nat (length (entry_key entry))), U32 (of_nat (length (entry_value entry))),
               U64 (u64_of_int64 (entry_expires_at entry)), Raw (entry_key entry), Raw (entry_value entry)] of
             (Inl _, buffer') \<Rightarrow> (False, (Suc n, buffer'))
           | (Inr _, buffer') \<Rightarrow> (True, (Suc n, buffer'))))"

definition mp_cache_serialize_client_record ::
  "env \<Rightarrow> mp_cache_client_record \<Rightarrow> nat \<times> mp_cache_buffer \<Rightarrow> bool \<times> (nat \<times> mp_cache_buffer)" where
  "mp_cache_serialize_client_record e r ctx =
     (case ctx of (n, buffer) \<Rightarrow>
        (case append_fields (at n e) buffer
            [U32 (of_nat (length (client_id r))), U32 (client_role r), U32 (if token_active r then 1 else 0),
             Raw (token_hash r), Raw (bytes_of (client_id r))] of
           (Inl _, buffer') \<Rightarrow> (False, (Suc n, buffer'))
         | (Inr _, buffer') \<Rightarrow> (True, (Suc n, buffer'))))"

definition mp_cache_storage_serialize_state ::
  "env \<Rightarrow> mp_cache_store \<Rightarrow> mp_cache_security \<Rightarrow> int \<Rightarrow> mp_cache_buffer \<Rightarrow> bool \<times> mp_cache_buffer" where
  "mp_cache_storage_serialize_state e store security now out_buffer =
     (case mp_cache_store_for_each store (mp_cache_count_active_entry now) 0 of
        (False, _) \<Rightarrow> (False, out_buffer)
      | (True, count) \<Rightarrow>
          (case append_fields (at 0 e) out_buffer
              [U32 MP_CACHE_STORAGE_STATE_VERSION, U64 (u64_of_int64 now), U32 (of_nat count)] of
             (Inl _, buffer1) \<Rightarrow> (False, buffer1)
           | (Inr _, buffer1) \<Rightarrow>
               (case mp_cache_store_for_each store (mp_cache_serialize_active_entry (at 1 e) now) (0, buffer1) of
                  (False, (_, buffer2)) \<Rightarrow> (False, buffer2)
                | (True, (_, buffer2)) \<Rightarrow>
                    (case append_fields (at 2 e) buffer2 [U32 (of_nat (mp_cache_security_client_count security))] of
                       (Inl _, buffer3) \<Rightarrow> (False, buffer3)
                     | (Inr _, buffer3) \<Rightarrow>
                         (case mp_cache_security_for_each_client security
                             (mp_cache_serialize_client_record (at 3 e)) (0, buffer3) of
                            (result, (_, buffer4)) \<Rightarrow> (result, buffer4))))))"

text \<open>One entry and one client record of a payload, with the offset after it.\<close>

definition consume_entry :: "bytes \<Rightarrow> nat \<Rightarrow> ((bytes \<times> bytes \<times> int) \<times> nat) option" where
  "consume_entry payload offset =
     do {
       (key_length, offset1) \<leftarrow> mp_cache_consume_u32 payload offset;
       (value_length, offset2) \<leftarrow> mp_cache_consume_u32 payload offset1;
       (expires_at, offset3) \<leftarrow> mp_cache_consume_u64 payload offset2;
       (key, offset4) \<leftarrow> mp_cache_consume_bytes payload offset3 (unat key_length);
       (v, offset5) \<leftarrow> mp_cache_consume_bytes payload offset4 (unat value_length);
       Some ((key, v, int64_of_u64 expires_at), offset5)
     }"

definition consume_client :: "u32 \<Rightarrow> bytes \<Rightarrow> nat \<Rightarrow> ((string \<times> u32 \<times> bool \<times> bytes) \<times> nat) option" where
  "consume_client version payload offset =
     do {
       (id_length, offset1) \<leftarrow> mp_cache_consume_u32 payload offset;
       (role_value, offset2) \<leftarrow> mp_cache_consume_u32 payload offset1;
       (active, offset3) \<leftarrow> (if version \<ge> 2 then mp_cache_consume_u32 payload offset2 else Some (1, offset2));
       (hash, offset4) \<leftarrow> mp_cache_consume_bytes payload offset3 MP_CACHE_TOKEN_HASH_SIZE;
       (if id_length = 0 \<or> unat id_length \<ge> MP_CACHE_CLIENT_ID_CAP then None
        else do {
          (id_bytes, offset5) \<leftarrow> mp_cache_consume_bytes payload offset4 (unat id_length);
          Some ((c_string (chars_of id_bytes), role_value, active \<noteq> 0, hash), offset5)
        })
     }"

text \<open>The two loops; each iteration reads one record and applies it. Failure is \<open>None\<close>.\<close>

fun deserialize_entries :: "env \<Rightarrow> bytes \<Rightarrow> int \<Rightarrow> nat \<Rightarrow> nat \<Rightarrow> mp_cache_store \<Rightarrow> nat option \<times> mp_cache_store" where
  "deserialize_entries e payload now 0 offset store = (Some offset, store)"
| "deserialize_entries e payload now (Suc n) offset store =
     (case consume_entry payload offset of
        None \<Rightarrow> (None, store)
      | Some ((key, v, expires_at), offset') \<Rightarrow>
          if expires_at > now then
            (case mp_cache_store_restore_entry (at n e) store (Some key) (Some v) expires_at of
               (MP_CACHE_STORE_STATUS_OK, store') \<Rightarrow> deserialize_entries e payload now n offset' store'
             | (_, store') \<Rightarrow> (None, store'))
          else deserialize_entries e payload now n offset' store)"

fun deserialize_clients :: "env \<Rightarrow> u32 \<Rightarrow> bytes \<Rightarrow> nat \<Rightarrow> nat \<Rightarrow> mp_cache_security \<Rightarrow> nat option \<times> mp_cache_security" where
  "deserialize_clients e version payload 0 offset security = (Some offset, security)"
| "deserialize_clients e version payload (Suc n) offset security =
     (case consume_client version payload offset of
        None \<Rightarrow> (None, security)
      | Some ((cid, role, active, hash), offset') \<Rightarrow>
          (case mp_cache_security_import_client_hash (at n e) security (Some cid) role (Some hash) active of
             (MP_CACHE_SECURITY_STATUS_OK, security') \<Rightarrow> deserialize_clients e version payload n offset' security'
           | (_, security') \<Rightarrow> (None, security')))"

definition mp_cache_storage_deserialize_state ::
  "env \<Rightarrow> bytes \<Rightarrow> mp_cache_store \<Rightarrow> mp_cache_security \<Rightarrow> int \<Rightarrow> bool \<times> mp_cache_store \<times> mp_cache_security" where
  "mp_cache_storage_deserialize_state e payload store security now =
     (case do {
             (version, offset1) \<leftarrow> mp_cache_consume_u32 payload 0;
             (checkpointed_at, offset2) \<leftarrow> mp_cache_consume_u64 payload offset1;
             (if version = 0 \<or> version > MP_CACHE_STORAGE_STATE_VERSION then None
              else do {
                (count, offset3) \<leftarrow> mp_cache_consume_u32 payload offset2;
                Some (version, count, offset3)
              })
           } of
        None \<Rightarrow> (False, store, security)
      | Some (version, count, offset) \<Rightarrow>
          (case deserialize_entries (at 0 e) payload now (unat count) offset store of
             (None, store') \<Rightarrow> (False, store', security)
           | (Some offset', store') \<Rightarrow>
               (case mp_cache_consume_u32 payload offset' of
                  None \<Rightarrow> (False, store', security)
                | Some (clients, offset'') \<Rightarrow>
                    (case deserialize_clients (at 1 e) version payload (unat clients) offset'' security of
                       (None, security') \<Rightarrow> (False, store', security')
                     | (Some final, security') \<Rightarrow> (final = length payload, store', security')))))"


section \<open>Journal payloads\<close>

definition mp_cache_storage_build_journal_payload ::
  "env \<Rightarrow> mp_cache_journal_op \<Rightarrow> int \<Rightarrow> bytes \<Rightarrow> bytes \<Rightarrow> u64 \<Rightarrow> u64 \<Rightarrow> mp_cache_buffer \<Rightarrow> bool \<times> mp_cache_buffer" where
  "mp_cache_storage_build_journal_payload e operation now subject v extra_value extra_flag out_buffer =
     (case append_fields (at 0 e) out_buffer
         [U32 MP_CACHE_STORAGE_JOURNAL_VERSION, U32 (journal_op_value operation), U64 (u64_of_int64 now)] of
        (Inl _, buffer1) \<Rightarrow> (False, buffer1)
      | (Inr _, buffer1) \<Rightarrow>
          (case append_fields (at 1 e) buffer1
              (case operation of
                 MP_CACHE_JOURNAL_OP_SET \<Rightarrow>
                   [U32 (of_nat (length subject)), U32 (of_nat (length v)), U64 extra_value, Raw subject, Raw v]
               | MP_CACHE_JOURNAL_OP_DELETE \<Rightarrow> [U32 (of_nat (length subject)), Raw subject]
               | MP_CACHE_JOURNAL_OP_CLIENT_UPSERT \<Rightarrow>
                   [U32 (of_nat (length subject)), U32 (ucast extra_value), U32 (ucast extra_flag),
                    Raw (take MP_CACHE_TOKEN_HASH_SIZE v), Raw subject]
               | MP_CACHE_JOURNAL_OP_PURGE_ALL \<Rightarrow> []) of
             (Inl _, buffer2) \<Rightarrow> (False, buffer2)
           | (Inr _, buffer2) \<Rightarrow> (True, buffer2)))"

definition mp_cache_storage_apply_journal_payload ::
  "env \<Rightarrow> bytes \<Rightarrow> mp_cache_store \<Rightarrow> mp_cache_security \<Rightarrow> int \<Rightarrow> bool \<times> mp_cache_store \<times> mp_cache_security" where
  "mp_cache_storage_apply_journal_payload e payload store security now =
     (case do {
             (version, offset1) \<leftarrow> mp_cache_consume_u32 payload 0;
             (operation, offset2) \<leftarrow> mp_cache_consume_u32 payload offset1;
             (recorded_at, offset3) \<leftarrow> mp_cache_consume_u64 payload offset2;
             (if version = 0 \<or> version > MP_CACHE_STORAGE_JOURNAL_VERSION then None
              else Some (version, operation, offset3))
           } of
        None \<Rightarrow> (False, store, security)
      | Some (version, operation, offset) \<Rightarrow>
          if operation = journal_op_value MP_CACHE_JOURNAL_OP_SET then
            (case consume_entry payload offset of
               None \<Rightarrow> (False, store, security)
             | Some ((key, v, expires_at), final) \<Rightarrow>
                 if expires_at > now then
                   (case mp_cache_store_restore_entry (at 0 e) store (Some key) (Some v) expires_at of
                      (MP_CACHE_STORE_STATUS_OK, store') \<Rightarrow> (final = length payload, store', security)
                    | (_, store') \<Rightarrow> (False, store', security))
                 else (final = length payload, store, security))
          else if operation = journal_op_value MP_CACHE_JOURNAL_OP_DELETE then
            (case do {
                    (key_length, offset1) \<leftarrow> mp_cache_consume_u32 payload offset;
                    mp_cache_consume_bytes payload offset1 (unat key_length)
                  } of
               None \<Rightarrow> (False, store, security)
             | Some (key, final) \<Rightarrow>
                 (final = length payload, snd (mp_cache_store_delete store (Some key)), security))
          else if operation = journal_op_value MP_CACHE_JOURNAL_OP_CLIENT_UPSERT then
            (case consume_client version payload offset of
               None \<Rightarrow> (False, store, security)
             | Some ((cid, role, active, hash), final) \<Rightarrow>
                 (case mp_cache_security_import_client_hash (at 0 e) security (Some cid) role (Some hash) active of
                    (MP_CACHE_SECURITY_STATUS_OK, security') \<Rightarrow> (final = length payload, store, security')
                  | (_, security') \<Rightarrow> (False, store, security')))
          else if operation = journal_op_value MP_CACHE_JOURNAL_OP_PURGE_ALL then
            (offset = length payload, mp_cache_store_clear store, security)
          else (False, store, security))"


section \<open>Export files and import paths\<close>

definition mp_cache_storage_export_count :: "env \<Rightarrow> mp_cache_storage \<Rightarrow> filesystem \<Rightarrow> nat result" where
  "mp_cache_storage_export_count e storage fs =
     (case map_of fs (storage_export_directory storage) of
        None \<Rightarrow> Inr 0
      | Some Directory \<Rightarrow>
          if \<not> ok 0 e then Inl EOTHER
          else Inr (length (filter (\<lambda>name. starts_with name MP_CACHE_STORAGE_EXPORT_FILE_PREFIX)
                 (posix_readdir fs (storage_export_directory storage))))
      | Some _ \<Rightarrow> Inl ENOTDIR)"

definition mp_cache_storage_resolve_import_path ::
  "env \<Rightarrow> mp_cache_storage \<Rightarrow> filesystem \<Rightarrow> string \<Rightarrow> nat \<Rightarrow> string result" where
  "mp_cache_storage_resolve_import_path e storage fs requested_import_path out_capacity =
     (if out_capacity = 0 then Inl EINVAL
      else if strstr requested_import_path ''../'' \<noteq> None \<or> strstr requested_import_path ''/..'' \<noteq> None
      then Inl EACCES
      else
        (case (if starts_with requested_import_path ''/'' then
                 (if \<not> starts_with requested_import_path (storage_export_directory storage) then Inl EACCES
                  else mp_cache_storage_format_path out_capacity requested_import_path)
               else if starts_with requested_import_path (storage_export_directory storage) then
                 mp_cache_storage_format_path out_capacity requested_import_path
               else
                 mp_cache_storage_format_path out_capacity
                   (storage_export_directory storage @ ''/'' @ requested_import_path)) of
           Inl err \<Rightarrow> Inl err
         | Inr resolved \<Rightarrow>
             if \<not> ok 0 e \<or> file_contents fs resolved = None then Inl ENOENT else Inr resolved))"


section \<open>Operations of the component\<close>

definition mp_cache_storage_init :: "env \<Rightarrow> filesystem \<Rightarrow> mp_cache_config \<Rightarrow> mp_cache_storage result" where
  "mp_cache_storage_init e fs config =
     (case mp_cache_storage_format_path MP_CACHE_PATH_CAP (checkpoint_path config) of
        Inl err \<Rightarrow> Inl err
      | Inr checkpoint \<Rightarrow>
          (case mp_cache_storage_format_path MP_CACHE_PATH_CAP (journal_path config) of
             Inl err \<Rightarrow> Inl err
           | Inr journal \<Rightarrow>
               (case mp_cache_storage_format_path MP_CACHE_PATH_CAP (export_directory config) of
                  Inl err \<Rightarrow> Inl err
                | Inr exports \<Rightarrow>
                    (case mp_cache_secret_resolve (at 0 e) fs (Some (storage_key_secret_ref config)) MP_CACHE_SECRET_REF_CAP of
                       Inl err \<Rightarrow> Inl err
                     | Inr storage_secret \<Rightarrow>
                         Inr \<lparr>storage_checkpoint_path = checkpoint, storage_journal_path = journal,
                              storage_export_directory = exports,
                              storage_key = mp_cache_secret_derive_key (Some storage_secret),
                              max_packet_bytes = memory_limit_bytes config + MP_CACHE_STORAGE_MAX_PACKET_OVERHEAD_BYTES,
                              storage_max_export_files = max_export_files config\<rparr>))))"

definition mp_cache_storage_destroy :: "mp_cache_storage \<Rightarrow> mp_cache_storage" where
  "mp_cache_storage_destroy storage =
     \<lparr>storage_checkpoint_path = [], storage_journal_path = [], storage_export_directory = [],
      storage_key = replicate MP_CACHE_TOKEN_HASH_SIZE 0, max_packet_bytes = 0, storage_max_export_files = 0\<rparr>"

text \<open>The replay loop over the packets of the journal.\<close>

function replay_journal ::
  "env \<Rightarrow> nat \<Rightarrow> mp_cache_storage \<Rightarrow> bytes \<Rightarrow> int \<Rightarrow> mp_cache_store \<Rightarrow> mp_cache_security \<Rightarrow>
     bool \<times> mp_cache_store \<times> mp_cache_security" where
  "replay_journal e n storage stream now store security =
     (case mp_cache_storage_read_packet_stream (at 0 (at n e)) storage stream MP_CACHE_STORAGE_JOURNAL_MAGIC of
        (PacketEnd, _) \<Rightarrow> (True, store, security)
      | (PacketError _, _) \<Rightarrow> (False, store, security)
      | (Packet payload _, rest) \<Rightarrow>
          (case mp_cache_storage_apply_journal_payload (at 1 (at n e)) payload store security now of
             (False, store', security') \<Rightarrow> (False, store', security')
           | (True, store', security') \<Rightarrow> replay_journal e (Suc n) storage rest now store' security'))"
  by pat_completeness auto
termination
  by (relation "measure (\<lambda>(e, n, storage, stream, now, store, security). length stream)")
    (auto dest!: read_packet_shorter [OF sym])

declare replay_journal.simps [simp del]

definition mp_cache_storage_load_state ::
  "env \<Rightarrow> mp_cache_storage \<Rightarrow> filesystem \<Rightarrow> mp_cache_store \<Rightarrow> mp_cache_security \<Rightarrow> int \<Rightarrow>
     bool \<times> mp_cache_store \<times> mp_cache_security" where
  "mp_cache_storage_load_state e storage fs store security now =
     (let store0 = mp_cache_store_clear store;
          security0 = mp_cache_security_clear_clients security;
          replay = (\<lambda>store1 security1.
            case posix_open_read (ok 2 e) fs (storage_journal_path storage) of
              Inl err \<Rightarrow> (err = ENOENT, store1, security1)
            | Inr journal \<Rightarrow> replay_journal (at 3 e) 0 storage journal now store1 security1)
      in (case mp_cache_storage_read_packet_file (at 0 e) storage fs (storage_checkpoint_path storage)
             MP_CACHE_STORAGE_STATE_MAGIC of
            PacketError _ \<Rightarrow> (False, store0, security0)
          | PacketEnd \<Rightarrow> replay store0 security0
          | Packet payload _ \<Rightarrow>
              (case mp_cache_storage_deserialize_state (at 1 e) payload store0 security0 now of
                 (False, store1, security1) \<Rightarrow> (False, store1, security1)
               | (True, store1, security1) \<Rightarrow> replay store1 security1)))"

definition mp_cache_storage_checkpoint ::
  "env \<Rightarrow> mp_cache_storage \<Rightarrow> filesystem \<Rightarrow> mp_cache_store \<Rightarrow> mp_cache_security \<Rightarrow> int \<Rightarrow> bool \<times> filesystem" where
  "mp_cache_storage_checkpoint e storage fs store security now =
     (case mp_cache_storage_serialize_state (at 0 e) store security now empty_buffer of
        (False, _) \<Rightarrow> (False, fs)
      | (True, payload) \<Rightarrow>
          (case mp_cache_storage_write_packet_file (at 1 e) storage fs (storage_checkpoint_path storage)
              MP_CACHE_STORAGE_STATE_MAGIC (buffer_data payload) of
             (Inl _, fs1) \<Rightarrow> (False, fs1)
           | (Inr _, fs1) \<Rightarrow>
               (case mp_cache_fs_remove_path_if_exists (at 2 e) fs1 (Some (storage_journal_path storage)) of
                  (Inl _, fs2) \<Rightarrow> (False, fs2)
                | (Inr _, fs2) \<Rightarrow> (True, fs2))))"

text \<open>Building a journal payload and appending it to the journal, as each of the four writers does.\<close>

definition append_journal ::
  "env \<Rightarrow> mp_cache_storage \<Rightarrow> filesystem \<Rightarrow> mp_cache_journal_op \<Rightarrow> bytes \<Rightarrow> bytes \<Rightarrow> u64 \<Rightarrow> u64 \<Rightarrow> bool \<times> filesystem" where
  "append_journal e storage fs operation subject v extra_value extra_flag =
     (case mp_cache_storage_build_journal_payload (at 0 e) operation (clock e [1]) subject v extra_value extra_flag
         empty_buffer of
        (False, _) \<Rightarrow> (False, fs)
      | (True, payload) \<Rightarrow>
          mp_cache_storage_append_packet (at 2 e) storage fs (storage_journal_path storage)
            MP_CACHE_STORAGE_JOURNAL_MAGIC (buffer_data payload))"

definition mp_cache_storage_append_set ::
  "env \<Rightarrow> mp_cache_storage \<Rightarrow> filesystem \<Rightarrow> bytes ptr \<Rightarrow> bytes ptr \<Rightarrow> int \<Rightarrow> bool \<times> filesystem" where
  "mp_cache_storage_append_set e storage fs cache_key cache_value expires_at =
     (case (cache_key, cache_value) of
        (Some key, Some v) \<Rightarrow> append_journal e storage fs MP_CACHE_JOURNAL_OP_SET key v (u64_of_int64 expires_at) 0
      | _ \<Rightarrow> (False, fs))"

definition mp_cache_storage_append_delete ::
  "env \<Rightarrow> mp_cache_storage \<Rightarrow> filesystem \<Rightarrow> bytes ptr \<Rightarrow> bool \<times> filesystem" where
  "mp_cache_storage_append_delete e storage fs cache_key =
     (case cache_key of
        None \<Rightarrow> (False, fs)
      | Some key \<Rightarrow> append_journal e storage fs MP_CACHE_JOURNAL_OP_DELETE key [] 0 0)"

definition mp_cache_storage_append_client ::
  "env \<Rightarrow> mp_cache_storage \<Rightarrow> filesystem \<Rightarrow> mp_cache_client_record ptr \<Rightarrow> bool \<times> filesystem" where
  "mp_cache_storage_append_client e storage fs client =
     (case client of
        None \<Rightarrow> (False, fs)
      | Some r \<Rightarrow>
          append_journal e storage fs MP_CACHE_JOURNAL_OP_CLIENT_UPSERT (bytes_of (client_id r)) (token_hash r)
            (ucast (client_role r)) (if token_active r then 1 else 0))"

definition mp_cache_storage_append_purge_all :: "env \<Rightarrow> mp_cache_storage \<Rightarrow> filesystem \<Rightarrow> bool \<times> filesystem" where
  "mp_cache_storage_append_purge_all e storage fs =
     append_journal e storage fs MP_CACHE_JOURNAL_OP_PURGE_ALL [] [] 0 0"

definition export_file_name :: "env \<Rightarrow> mp_cache_storage \<Rightarrow> int \<Rightarrow> string" where
  "export_file_name e storage now =
     storage_export_directory storage @ ''/mp-cache-export-'' @ print_int now @ ''-'' @ print_int (getpid e) @ ''.bin''"

definition mp_cache_storage_export_state ::
  "env \<Rightarrow> mp_cache_storage \<Rightarrow> filesystem \<Rightarrow> mp_cache_store \<Rightarrow> mp_cache_security \<Rightarrow> int \<Rightarrow>
     mp_cache_export_result option \<times> filesystem" where
  "mp_cache_storage_export_state e storage fs store security now =
     (case mp_cache_storage_export_count (at 0 e) storage fs of
        Inl _ \<Rightarrow> (None, fs)
      | Inr count \<Rightarrow>
          if count \<ge> unat (storage_max_export_files storage) then (None, fs)
          else
            (case mp_cache_storage_checkpoint (at 1 e) storage fs store security now of
               (False, fs1) \<Rightarrow> (None, fs1)
             | (True, fs1) \<Rightarrow>
                 (case mp_cache_storage_serialize_state (at 2 e) store security now empty_buffer of
                    (False, _) \<Rightarrow> (None, fs1)
                  | (True, payload) \<Rightarrow>
                      (case mp_cache_storage_format_path MP_CACHE_PATH_CAP (export_file_name e storage now) of
                         Inl _ \<Rightarrow> (None, fs1)
                       | Inr path \<Rightarrow>
                           let entries = (case mp_cache_store_for_each store (mp_cache_count_active_entry now) 0 of
                                            (True, counter) \<Rightarrow> counter | (False, _) \<Rightarrow> 0)
                           in (case mp_cache_storage_write_packet_file (at 3 e) storage fs1 path
                                   MP_CACHE_STORAGE_EXPORT_MAGIC (buffer_data payload) of
                                 (Inl _, fs2) \<Rightarrow> (None, fs2)
                               | (Inr mac, fs2) \<Rightarrow>
                                   (case mp_cache_hex_encode mac (MP_CACHE_TOKEN_HASH_SIZE * 2 + 1) of
                                      Inl _ \<Rightarrow> (None, fs2)
                                    | Inr hex \<Rightarrow>
                                        (Some \<lparr>export_path = path, digest_hex = hex, export_entry_count = entries,
                                               export_client_count = mp_cache_security_client_count security\<rparr>,
                                         fs2)))))))"

text \<open>The configuration literal that carries the limits of the live table; all other members are zero.\<close>

definition limits_config :: "mp_cache_store \<Rightarrow> mp_cache_config" where
  "limits_config store =
     \<lparr>service_name = [], environment_name = [], build_version = [], socket_path = [], pid_file_path = [],
      data_directory = [], export_directory = [], checkpoint_path = [], journal_path = [], log_directory = [],
      logger_bootstrap_path = [], logger_format = [], logger_file_name_prefix = [],
      logger_backup_file_name_prefix = [], logger_active_streams = [], logger_stdout_min_level = [],
      logger_stdout_max_level = [], logger_stderr_min_level = [], logger_stderr_max_level = [],
      logger_file_min_level = [], logger_file_max_level = [], logger_udp_min_level = [],
      logger_udp_max_level = [], logger_udp_host = [], bootstrap_admin_token_secret_ref = [],
      storage_key_secret_ref = [], memory_limit_bytes = store_memory_limit store, default_ttl_seconds = 0,
      min_ttl_seconds = 0, max_ttl_seconds = 0, max_key_bytes = store_max_key_bytes store,
      max_value_bytes = store_max_value_bytes store, bucket_count = of_nat (store_bucket_count store),
      max_export_files = 0, shutdown_timeout_millis = 0, sweep_interval_seconds = 0, max_log_lines = 0,
      logger_buffer_capacity = 0, logger_message_capacity = 0, logger_context_capacity = 0,
      logger_field_capacity = 0, logger_field_key_capacity = 0, logger_field_value_capacity = 0,
      logger_pretty_output = 0, logger_udp_port = 0, rate_limit_requests = 0, rate_limit_window_seconds = 0\<rparr>"

text \<open>The payload is first decoded into a scratch table and registry, then into the live ones.\<close>

definition mp_cache_storage_import_state ::
  "env \<Rightarrow> mp_cache_storage \<Rightarrow> filesystem \<Rightarrow> string ptr \<Rightarrow> mp_cache_store \<Rightarrow> mp_cache_security \<Rightarrow> int \<Rightarrow>
     bool \<times> filesystem \<times> mp_cache_store \<times> mp_cache_security" where
  "mp_cache_storage_import_state e storage fs import_path store security now =
     (case import_path of
        None \<Rightarrow> (False, fs, store, security)
      | Some requested \<Rightarrow>
          (case mp_cache_storage_resolve_import_path (at 0 e) storage fs requested MP_CACHE_PATH_CAP of
             Inl _ \<Rightarrow> (False, fs, store, security)
           | Inr resolved \<Rightarrow>
               (case mp_cache_storage_read_packet_file (at 1 e) storage fs resolved MP_CACHE_STORAGE_EXPORT_MAGIC of
                  Packet payload _ \<Rightarrow>
                    (case mp_cache_store_init (at 2 e) (limits_config store) of
                       None \<Rightarrow> (False, fs, store, security)
                     | Some imported_store \<Rightarrow>
                         (case mp_cache_storage_deserialize_state (at 3 e) payload imported_store
                             (security\<lparr>client_records := [], client_capacity := 0\<rparr>) now of
                            (False, _) \<Rightarrow> (False, fs, store, security)
                          | (True, _) \<Rightarrow>
                              (case mp_cache_storage_deserialize_state (at 4 e) payload (mp_cache_store_clear store)
                                  (mp_cache_security_clear_clients security) now of
                                 (False, store', security') \<Rightarrow> (False, fs, store', security')
                               | (True, store', security') \<Rightarrow>
                                   (case mp_cache_storage_checkpoint (at 5 e) storage fs store' security' now of
                                      (result, fs') \<Rightarrow> (result, fs', store', security')))))
                | _ \<Rightarrow> (False, fs, store, security))))"


section \<open>Records in a payload\<close>

text \<open>
  The contract of one record format: a decoder started where an encoded record begins returns the
  record and the offset after it. A sequence of records is then read back as a whole.
\<close>

locale record_codec =
  fixes enc :: "'a \<Rightarrow> bytes"
    and dec :: "bytes \<Rightarrow> nat \<Rightarrow> ('a \<times> nat) option"
    and good :: "'a \<Rightarrow> bool"
  assumes dec_enc: "good x \<Longrightarrow> dec (pre @ enc x @ post) (length pre) = Some (x, length pre + length (enc x))"
begin

fun dec_all :: "nat \<Rightarrow> bytes \<Rightarrow> nat \<Rightarrow> ('a list \<times> nat) option" where
  "dec_all 0 bs offset = Some ([], offset)"
| "dec_all (Suc n) bs offset =
     (case dec bs offset of
        None \<Rightarrow> None
      | Some (x, offset') \<Rightarrow>
          (case dec_all n bs offset' of None \<Rightarrow> None | Some (xs, final) \<Rightarrow> Some (x # xs, final)))"

lemma dec_all_encoded:
  "list_all good xs \<Longrightarrow> dec_all (length xs) (pre @ concat (map enc xs) @ post) (length pre) =
     Some (xs, length pre + length (concat (map enc xs)))"
proof (induction xs arbitrary: pre)
  case (Cons x xs)
  have "dec_all (length xs) ((pre @ enc x) @ concat (map enc xs) @ post) (length (pre @ enc x)) =
      Some (xs, length (pre @ enc x) + length (concat (map enc xs)))"
    by (rule Cons.IH) (use Cons.prems in simp)
  moreover have "dec (pre @ enc x @ (concat (map enc xs) @ post)) (length pre) = Some (x, length pre + length (enc x))"
    by (rule dec_enc) (use Cons.prems in simp)
  ultimately show ?case by simp
qed simp

lemma dec_all_length: "dec_all n bs offset = Some (xs, final) \<Longrightarrow> length xs = n"
  by (induction n arbitrary: offset xs) (auto split: option.splits)

end

text \<open>The encodings of an entry and of a client record.\<close>

fun entry_bytes :: "bytes \<times> bytes \<times> int \<Rightarrow> bytes" where
  "entry_bytes (key, v, t) =
     fields_bytes [U32 (of_nat (length key)), U32 (of_nat (length v)), U64 (u64_of_int64 t), Raw key, Raw v]"

fun entry_encodable :: "bytes \<times> bytes \<times> int \<Rightarrow> bool" where
  "entry_encodable (key, v, t) \<longleftrightarrow> length key < 2 ^ 32 \<and> length v < 2 ^ 32 \<and> is_int64 t"

fun client_bytes :: "string \<times> u32 \<times> bool \<times> bytes \<Rightarrow> bytes" where
  "client_bytes (cid, role, active, hash) =
     fields_bytes [U32 (of_nat (length cid)), U32 role, U32 (if active then 1 else 0), Raw hash, Raw (bytes_of cid)]"

fun client_encodable :: "string \<times> u32 \<times> bool \<times> bytes \<Rightarrow> bool" where
  "client_encodable (cid, role, active, hash) \<longleftrightarrow>
     cid \<noteq> [] \<and> length cid < MP_CACHE_CLIENT_ID_CAP \<and> NUL \<notin> set cid \<and> length hash = MP_CACHE_TOKEN_HASH_SIZE"

text \<open>Reading a field that starts after a known prefix.\<close>

lemma consume_u32_at:
  "bs = pre @ be_bytes 4 v @ post \<Longrightarrow> offset = length pre \<Longrightarrow> final = offset + 4 \<Longrightarrow>
     mp_cache_consume_u32 bs offset = Some (v, final)"
  using consume_u32_field [of offset bs v post] by simp

lemma consume_u64_at:
  "bs = pre @ be_bytes 8 v @ post \<Longrightarrow> offset = length pre \<Longrightarrow> final = offset + 8 \<Longrightarrow>
     mp_cache_consume_u64 bs offset = Some (v, final)"
  using consume_u64_field [of offset bs v post] by simp

lemma consume_bytes_at:
  "bs = pre @ v @ post \<Longrightarrow> offset = length pre \<Longrightarrow> n = length v \<Longrightarrow> final = offset + n \<Longrightarrow>
     mp_cache_consume_bytes bs offset n = Some (v, final)"
  using consume_bytes_field [of offset bs v post n] by simp

lemma unat_length: "n < 2 ^ 32 \<Longrightarrow> unat (of_nat n :: u32) = n"
  by (simp add: unat_of_nat)

lemma consume_entry_at:
  assumes "entry_encodable (key, v, t)"
  shows "consume_entry (pre @ entry_bytes (key, v, t) @ post) (length pre) =
    Some ((key, v, t), length pre + length (entry_bytes (key, v, t)))"
proof -
  let ?kl = "be_bytes 4 (of_nat (length key) :: u32)" and ?vl = "be_bytes 4 (of_nat (length v) :: u32)"
  let ?t = "be_bytes 8 (u64_of_int64 t)"
  let ?bs = "pre @ ?kl @ ?vl @ ?t @ key @ v @ post"
  have 1: "mp_cache_consume_u32 ?bs (length pre) = Some (of_nat (length key), length pre + 4)"
    by (rule consume_u32_at [where pre = pre]) simp_all
  have 2: "mp_cache_consume_u32 ?bs (length pre + 4) = Some (of_nat (length v), length pre + 8)"
    by (rule consume_u32_at [where pre = "pre @ ?kl"]) simp_all
  have 3: "mp_cache_consume_u64 ?bs (length pre + 8) = Some (u64_of_int64 t, length pre + 16)"
    by (rule consume_u64_at [where pre = "pre @ ?kl @ ?vl"]) simp_all
  have 4: "mp_cache_consume_bytes ?bs (length pre + 16) (length key) = Some (key, length pre + 16 + length key)"
    by (rule consume_bytes_at [where pre = "pre @ ?kl @ ?vl @ ?t"]) simp_all
  have 5: "mp_cache_consume_bytes ?bs (length pre + 16 + length key) (length v) =
      Some (v, length pre + 16 + length key + length v)"
    by (rule consume_bytes_at [where pre = "pre @ ?kl @ ?vl @ ?t @ key"]) simp_all
  have t: "int64_of_u64 (u64_of_int64 t) = t" and lens: "unat (of_nat (length key) :: u32) = length key"
    "unat (of_nat (length v) :: u32) = length v"
    using assms by (simp_all add: int64_of_u64_of_int64 unat_length)
  have bs: "pre @ entry_bytes (key, v, t) @ post = ?bs"
    by simp
  have "consume_entry ?bs (length pre) = Some ((key, v, t), length pre + 16 + length key + length v)"
    unfolding consume_entry_def by (simp only: 1 2 3 4 5 t lens Option.bind.simps prod.case)
  then show ?thesis
    unfolding bs by simp
qed

lemma consume_client_at:
  assumes "client_encodable (cid, role, active, hash)" "version \<ge> 2"
  shows "consume_client version (pre @ client_bytes (cid, role, active, hash) @ post) (length pre) =
    Some ((cid, role, active, hash), length pre + length (client_bytes (cid, role, active, hash)))"
proof -
  let ?il = "be_bytes 4 (of_nat (length cid) :: u32)" and ?r = "be_bytes 4 role"
  let ?a = "be_bytes 4 (if active then 1 else 0 :: u32)" and ?id = "bytes_of cid"
  let ?bs = "pre @ ?il @ ?r @ ?a @ hash @ ?id @ post"
  have len: "length cid < 2 ^ 32" "length hash = 32" "length cid < 64" "cid \<noteq> []" "NUL \<notin> set cid"
    using assms(1) by (simp_all add: MP_CACHE_CLIENT_ID_CAP_def MP_CACHE_TOKEN_HASH_SIZE_def)
  have 1: "mp_cache_consume_u32 ?bs (length pre) = Some (of_nat (length cid), length pre + 4)"
    by (rule consume_u32_at [where pre = pre]) simp_all
  have 2: "mp_cache_consume_u32 ?bs (length pre + 4) = Some (role, length pre + 8)"
    by (rule consume_u32_at [where pre = "pre @ ?il"]) simp_all
  have 3: "mp_cache_consume_u32 ?bs (length pre + 8) = Some (if active then 1 else 0, length pre + 12)"
    by (rule consume_u32_at [where pre = "pre @ ?il @ ?r"]) simp_all
  have 4: "mp_cache_consume_bytes ?bs (length pre + 12) 32 = Some (hash, length pre + 44)"
    by (rule consume_bytes_at [where pre = "pre @ ?il @ ?r @ ?a"]) (simp_all add: len(2))
  have 5: "mp_cache_consume_bytes ?bs (length pre + 44) (length cid) = Some (?id, length pre + 44 + length cid)"
    by (rule consume_bytes_at [where pre = "pre @ ?il @ ?r @ ?a @ hash"]) (simp_all add: len(2))
  have nonzero: "((of_nat (length cid) :: u32) = 0) = False"
    using unat_length [OF len(1)] len(4) by (metis length_0_conv unat_0)
  have bs: "pre @ client_bytes (cid, role, active, hash) @ post = ?bs"
    by simp
  have lens: "unat (of_nat (length cid) :: u32) = length cid" "(64 \<le> length cid) = False"
    using len by (simp_all add: unat_length)
  have v: "(2 \<le> version) = True" and a: "((if active then 1 else 0 :: u32) \<noteq> 0) = active"
    using assms(2) by simp_all
  have "consume_client version ?bs (length pre) = Some ((c_string (chars_of ?id), role, active, hash), length pre + 44 + length cid)"
    unfolding consume_client_def MP_CACHE_TOKEN_HASH_SIZE_def MP_CACHE_CLIENT_ID_CAP_def
    by (simp only: 1 2 3 4 5 lens nonzero v a Option.bind.simps prod.case if_True if_False simp_thms)
  then show ?thesis
    unfolding bs using len by simp
qed

interpretation entry_codec: record_codec entry_bytes consume_entry entry_encodable
  using consume_entry_at by unfold_locales auto

interpretation client_codec: record_codec client_bytes "consume_client MP_CACHE_STORAGE_STATE_VERSION" client_encodable
  using consume_client_at by unfold_locales (auto simp: MP_CACHE_STORAGE_STATE_VERSION_def)


section \<open>Serializing\<close>

text \<open>
  Both walks emit the records of a list into the buffer, skipping some; a walk that succeeds has
  appended exactly the encodings of the others.
\<close>

fun visit_list :: "('a \<Rightarrow> 'c \<Rightarrow> bool \<times> 'c) \<Rightarrow> 'a list \<Rightarrow> 'c \<Rightarrow> bool \<times> 'c" where
  "visit_list visit [] ctx = (True, ctx)"
| "visit_list visit (x # xs) ctx =
     (case visit x ctx of (True, ctx') \<Rightarrow> visit_list visit xs ctx' | (False, ctx') \<Rightarrow> (False, ctx'))"

lemma visit_entries_list: "visit_entries visit entries ctx = visit_list visit entries ctx"
  by (induction entries arbitrary: ctx) (auto split: prod.splits bool.splits)

lemma visit_clients_list: "visit_clients visit clients ctx = visit_list visit clients ctx"
  by (induction clients arbitrary: ctx) (auto split: prod.splits bool.splits)

definition emit :: "env \<Rightarrow> ('a \<Rightarrow> bool) \<Rightarrow> ('a \<Rightarrow> field list) \<Rightarrow> 'a \<Rightarrow> nat \<times> mp_cache_buffer \<Rightarrow> bool \<times> (nat \<times> mp_cache_buffer)" where
  "emit e keep flds x ctx =
     (case ctx of (n, buffer) \<Rightarrow>
        if \<not> keep x then (True, (n, buffer))
        else (case append_fields (at n e) buffer (flds x) of
                (Inl _, buffer') \<Rightarrow> (False, (Suc n, buffer'))
              | (Inr _, buffer') \<Rightarrow> (True, (Suc n, buffer'))))"

lemma emit_pair:
  "emit e keep flds x (n, buffer) =
     (if \<not> keep x then (True, (n, buffer))
      else (case append_fields (at n e) buffer (flds x) of
              (Inl _, buffer') \<Rightarrow> (False, (Suc n, buffer'))
            | (Inr _, buffer') \<Rightarrow> (True, (Suc n, buffer'))))"
  by (simp add: emit_def)

lemma emit_list_result:
  assumes "visit_list (emit e keep flds) xs (n, buffer) = (r, (n', buffer'))" "buffer_inv buffer"
  shows "buffer_inv buffer' \<and>
    (r \<longrightarrow> buffer_bytes buffer' = buffer_bytes buffer @ concat (map (\<lambda>x. fields_bytes (flds x)) (filter keep xs)))"
  using assms
proof (induction xs arbitrary: n buffer)
  case (Cons x xs)
  show ?case
  proof (cases "keep x")
    case False
    with Cons.prems(1) have "visit_list (emit e keep flds) xs (n, buffer) = (r, (n', buffer'))"
      by (simp add: emit_pair)
    from Cons.IH [OF this Cons.prems(2)] False show ?thesis by simp
  next
    case True
    obtain r1 b1 where a: "append_fields (at n e) buffer (flds x) = (r1, b1)"
      by (cases "append_fields (at n e) buffer (flds x)")
    note facts = append_fields_result [OF a Cons.prems(2)]
    show ?thesis
    proof (cases r1)
      case (Inl err)
      with Cons.prems(1) a True facts show ?thesis by (simp add: emit_pair)
    next
      case (Inr u)
      with Cons.prems(1) a True have "visit_list (emit e keep flds) xs (Suc n, b1) = (r, (n', buffer'))"
        by (simp add: emit_pair)
      from Cons.IH [OF this] facts Inr True show ?thesis by auto
    qed
  qed
qed auto

lemma emit_list_succeeds:
  assumes "all_ok e" "buffer_inv buffer"
    and "length (buffer_bytes buffer) + length (concat (map (\<lambda>x. fields_bytes (flds x)) (filter keep xs))) \<le> SIZE_MAX"
  shows "\<exists>n' buffer'. visit_list (emit e keep flds) xs (n, buffer) = (True, (n', buffer'))"
  using assms(2,3)
proof (induction xs arbitrary: n buffer)
  case (Cons x xs)
  show ?case
  proof (cases "keep x")
    case False
    with Cons show ?thesis by (simp add: emit_pair)
  next
    case True
    have "length (buffer_bytes buffer) + length (fields_bytes (flds x)) \<le> SIZE_MAX"
      using Cons.prems(2) True by simp
    from append_fields_succeeds [OF all_ok_at [OF assms(1)] Cons.prems(1) this, of n] obtain b1
      where a: "append_fields (at n e) buffer (flds x) = (Inr (), b1)" by blast
    note facts = append_fields_result [OF a Cons.prems(1)]
    have "length (buffer_bytes b1) + length (concat (map (\<lambda>x. fields_bytes (flds x)) (filter keep xs))) \<le> SIZE_MAX"
      using Cons.prems(2) True facts by simp
    from Cons.IH [of b1 "Suc n", OF _ this] facts a True show ?thesis
      by (simp add: emit_pair)
  qed
qed simp

definition entry_fields :: "mp_cache_entry \<Rightarrow> field list" where
  "entry_fields en =
     [U32 (of_nat (length (entry_key en))), U32 (of_nat (length (entry_value en))),
      U64 (u64_of_int64 (entry_expires_at en)), Raw (entry_key en), Raw (entry_value en)]"

definition client_fields :: "mp_cache_client_record \<Rightarrow> field list" where
  "client_fields r =
     [U32 (of_nat (length (client_id r))), U32 (client_role r), U32 (if token_active r then 1 else 0),
      Raw (token_hash r), Raw (bytes_of (client_id r))]"

lemma serialize_entry_emit: "mp_cache_serialize_active_entry e now = emit e (live now) entry_fields"
  by (intro ext) (auto simp: mp_cache_serialize_active_entry_def emit_def entry_fields_def not_less
      simp del: append_fields.simps split: prod.splits)

lemma serialize_client_emit: "mp_cache_serialize_client_record e = emit e (\<lambda>_. True) client_fields"
  by (intro ext) (auto simp: mp_cache_serialize_client_record_def emit_def client_fields_def
      simp del: append_fields.simps split: prod.splits)

lemma count_active: "visit_list (mp_cache_count_active_entry now) entries c = (True, c + length (filter (live now) entries))"
  by (induction entries arbitrary: c) (auto simp: mp_cache_count_active_entry_def)

text \<open>The payload of a state: what a successful serialization appends.\<close>

definition live_entries :: "int \<Rightarrow> mp_cache_store \<Rightarrow> mp_cache_entry list" where
  "live_entries now store = filter (live now) (concat (buckets store))"

definition entry_triple :: "mp_cache_entry \<Rightarrow> bytes \<times> bytes \<times> int" where
  "entry_triple en = (entry_key en, entry_value en, entry_expires_at en)"

definition client_tuple :: "mp_cache_client_record \<Rightarrow> string \<times> u32 \<times> bool \<times> bytes" where
  "client_tuple r = (client_id r, client_role r, token_active r, token_hash r)"

definition state_bytes :: "mp_cache_store \<Rightarrow> mp_cache_security \<Rightarrow> int \<Rightarrow> bytes" where
  "state_bytes store security now =
     fields_bytes [U32 MP_CACHE_STORAGE_STATE_VERSION, U64 (u64_of_int64 now), U32 (of_nat (length (live_entries now store)))] @
     concat (map entry_bytes (map entry_triple (live_entries now store))) @
     fields_bytes [U32 (of_nat (length (client_records security)))] @
     concat (map client_bytes (map client_tuple (client_records security)))"

lemma entry_fields_bytes: "fields_bytes (entry_fields en) = entry_bytes (entry_triple en)"
  by (simp add: entry_fields_def entry_triple_def)

lemma client_fields_bytes: "fields_bytes (client_fields r) = client_bytes (client_tuple r)"
  by (simp add: client_fields_def client_tuple_def)

lemma serialize_state_result:
  assumes "mp_cache_storage_serialize_state e store security now buffer = (r, buffer')" "buffer_inv buffer"
  shows "buffer_inv buffer'" "r \<Longrightarrow> buffer_bytes buffer' = buffer_bytes buffer @ state_bytes store security now"
proof -
  define head where "head = [U32 MP_CACHE_STORAGE_STATE_VERSION, U64 (u64_of_int64 now), U32 (of_nat (length (live_entries now store)))]"
  define middle where "middle = [U32 (of_nat (length (client_records security)))]"
  obtain r1 b1 where 1: "append_fields (at 0 e) buffer head = (r1, b1)"
    by (cases "append_fields (at 0 e) buffer head")
  obtain r2 n2 b2 where 2: "visit_list (emit (at 1 e) (live now) entry_fields) (concat (buckets store)) (0, b1) = (r2, (n2, b2))"
    by (cases "visit_list (emit (at 1 e) (live now) entry_fields) (concat (buckets store)) (0, b1)") auto
  obtain r3 b3 where 3: "append_fields (at 2 e) b2 middle = (r3, b3)"
    by (cases "append_fields (at 2 e) b2 middle")
  obtain r4 n4 b4 where 4: "visit_list (emit (at 3 e) (\<lambda>_. True) client_fields) (client_records security) (0, b3) = (r4, (n4, b4))"
    by (cases "visit_list (emit (at 3 e) (\<lambda>_. True) client_fields) (client_records security) (0, b3)") auto
  note f1 = append_fields_result [OF 1 assms(2)]
  note f2 = emit_list_result [OF 2 conjunct1 [OF f1]]
  note f3 = append_fields_result [OF 3 conjunct1 [OF f2]]
  note f4 = emit_list_result [OF 4 conjunct1 [OF f3]]
  have run: "(r, buffer') = (case r1 of Inl _ \<Rightarrow> (False, b1) | Inr _ \<Rightarrow> if \<not> r2 then (False, b2) else
      (case r3 of Inl _ \<Rightarrow> (False, b3) | Inr _ \<Rightarrow> (r4, b4)))"
    using assms(1) 1 2 3 4
    by (auto simp: mp_cache_storage_serialize_state_def mp_cache_store_for_each_def mp_cache_security_for_each_client_def
        visit_entries_list visit_clients_list serialize_entry_emit serialize_client_emit count_active
        mp_cache_security_client_count_def live_entries_def [symmetric] head_def [symmetric] middle_def [symmetric]
        simp del: append_fields.simps split: sum.splits bool.splits prod.splits)
  show "buffer_inv buffer'"
    using run f1 f2 f3 f4 by (auto split: sum.splits if_splits)
  show "buffer_bytes buffer' = buffer_bytes buffer @ state_bytes store security now" if r
  proof -
    from run that have "r2" "r4" "buffer' = b4" "\<exists>u. r1 = Inr u" "\<exists>u. r3 = Inr u"
      by (auto split: sum.splits if_splits)
    then have "buffer_bytes buffer' = buffer_bytes buffer @ fields_bytes head @
        concat (map (\<lambda>x. fields_bytes (entry_fields x)) (live_entries now store)) @ fields_bytes middle @
        concat (map (\<lambda>x. fields_bytes (client_fields x)) (client_records security))"
      using f1 f2 f3 f4 by (auto simp: live_entries_def)
    then show ?thesis
      by (simp add: state_bytes_def head_def middle_def entry_fields_bytes client_fields_bytes comp_def)
  qed
qed

lemma serialize_state_succeeds:
  assumes "all_ok e" "length (state_bytes store security now) \<le> SIZE_MAX"
  shows "\<exists>buffer'. mp_cache_storage_serialize_state e store security now empty_buffer = (True, buffer')"
proof -
  define head where "head = [U32 MP_CACHE_STORAGE_STATE_VERSION, U64 (u64_of_int64 now), U32 (of_nat (length (live_entries now store)))]"
  define middle where "middle = [U32 (of_nat (length (client_records security)))]"
  define entries where "entries = concat (map (\<lambda>x. fields_bytes (entry_fields x)) (live_entries now store))"
  define clients where "clients = concat (map (\<lambda>x. fields_bytes (client_fields x)) (client_records security))"
  have total: "length (fields_bytes head) + length entries + length (fields_bytes middle) + length clients \<le> SIZE_MAX"
    using assms(2) by (simp add: state_bytes_def head_def middle_def entries_def clients_def entry_fields_bytes
        client_fields_bytes comp_def)
  obtain b1 where 1: "append_fields (at 0 e) empty_buffer head = (Inr (), b1)"
    using append_fields_succeeds [OF all_ok_at [OF assms(1)] buffer_inv_empty, of head 0] total by auto
  note f1 = append_fields_result [OF 1 buffer_inv_empty]
  obtain n2 b2 where 2: "visit_list (emit (at 1 e) (live now) entry_fields) (concat (buckets store)) (0, b1) = (True, (n2, b2))"
    using emit_list_succeeds [OF all_ok_at [OF assms(1)] conjunct1 [OF f1], of entry_fields "live now" "concat (buckets store)" 1 0]
      f1 total by (auto simp: live_entries_def [symmetric] entries_def [symmetric])
  note f2 = emit_list_result [OF 2 conjunct1 [OF f1]]
  have b2: "length (buffer_bytes b2) = length (fields_bytes head) + length entries"
    using f1 f2 by (simp add: live_entries_def [symmetric] entries_def [symmetric])
  obtain b3 where 3: "append_fields (at 2 e) b2 middle = (Inr (), b3)"
    using append_fields_succeeds [OF all_ok_at [OF assms(1)] conjunct1 [OF f2], of middle 2] b2 total by auto
  note f3 = append_fields_result [OF 3 conjunct1 [OF f2]]
  obtain n4 b4 where 4: "visit_list (emit (at 3 e) (\<lambda>_. True) client_fields) (client_records security) (0, b3) = (True, (n4, b4))"
    using emit_list_succeeds [OF all_ok_at [OF assms(1)] conjunct1 [OF f3], of client_fields "\<lambda>_. True" "client_records security" 3 0]
      f3 b2 total by (auto simp: clients_def [symmetric])
  show ?thesis
    using 1 2 3 4
    by (auto simp: mp_cache_storage_serialize_state_def mp_cache_store_for_each_def mp_cache_security_for_each_client_def
        visit_entries_list visit_clients_list serialize_entry_emit serialize_client_emit count_active
        mp_cache_security_client_count_def live_entries_def [symmetric] head_def [symmetric] middle_def [symmetric]
        simp del: append_fields.simps)
qed


section \<open>Deserializing\<close>

text \<open>The two loops, with the decoding separated from the effects.\<close>

fun restore_all :: "env \<Rightarrow> int \<Rightarrow> (bytes \<times> bytes \<times> int) list \<Rightarrow> mp_cache_store \<Rightarrow> bool \<times> mp_cache_store" where
  "restore_all e now [] store = (True, store)"
| "restore_all e now ((key, v, t) # entries) store =
     (if t > now then
        (case mp_cache_store_restore_entry (at (length entries) e) store (Some key) (Some v) t of
           (MP_CACHE_STORE_STATUS_OK, store') \<Rightarrow> restore_all e now entries store'
         | (_, store') \<Rightarrow> (False, store'))
      else restore_all e now entries store)"

fun import_all :: "env \<Rightarrow> (string \<times> u32 \<times> bool \<times> bytes) list \<Rightarrow> mp_cache_security \<Rightarrow> bool \<times> mp_cache_security" where
  "import_all e [] security = (True, security)"
| "import_all e ((cid, role, active, hash) # clients) security =
     (case mp_cache_security_import_client_hash (at (length clients) e) security (Some cid) role (Some hash) active of
        (MP_CACHE_SECURITY_STATUS_OK, security') \<Rightarrow> import_all e clients security'
      | (_, security') \<Rightarrow> (False, security'))"

lemma deserialize_entries_decoded:
  "entry_codec.dec_all n payload offset = Some (entries, final) \<Longrightarrow>
     deserialize_entries e payload now n offset store =
       (case restore_all e now entries store of (r, store') \<Rightarrow> (if r then Some final else None, store'))"
proof (induction n arbitrary: offset entries store)
  case (Suc n)
  then obtain key v t offset' entries' where d: "consume_entry payload offset = Some ((key, v, t), offset')"
    "entry_codec.dec_all n payload offset' = Some (entries', final)" "entries = (key, v, t) # entries'"
    by (auto split: option.splits)
  then show ?case
    using Suc.IH [OF d(2)] entry_codec.dec_all_length [OF d(2)]
    by (auto split: mp_cache_store_status.splits prod.splits)
qed simp

lemma deserialize_clients_decoded:
  "client_codec.dec_all n payload offset = Some (clients, final) \<Longrightarrow>
     deserialize_clients e MP_CACHE_STORAGE_STATE_VERSION payload n offset security =
       (case import_all e clients security of (r, security') \<Rightarrow> (if r then Some final else None, security'))"
proof (induction n arbitrary: offset clients security)
  case (Suc n)
  then obtain cid role active hash offset' clients'
    where d: "consume_client MP_CACHE_STORAGE_STATE_VERSION payload offset = Some ((cid, role, active, hash), offset')"
    "client_codec.dec_all n payload offset' = Some (clients', final)" "clients = (cid, role, active, hash) # clients'"
    by (auto split: option.splits)
  then show ?case
    using Suc.IH [OF d(2)] client_codec.dec_all_length [OF d(2)]
    by (auto split: mp_cache_security_status.splits prod.splits)
qed simp

text \<open>Restoring entries with new, pairwise different keys, within the limits, always succeeds.\<close>

fun triple_size :: "bytes \<times> bytes \<times> int \<Rightarrow> nat" where
  "triple_size (key, v, t) = sizeof_entry + length key + 1 + length v"

fun triple_fits :: "mp_cache_store \<Rightarrow> bytes \<times> bytes \<times> int \<Rightarrow> bool" where
  "triple_fits store (key, v, t) \<longleftrightarrow> 0 < length key \<and> length key \<le> unat (store_max_key_bytes store) \<and>
     length v \<le> unat (store_max_value_bytes store)"

lemma write_entry_size:
  assumes inv: "store_inv store" and new: "store_abs store key = None"
    and w: "mp_cache_store_write_entry e store (Some key) (Some v) t = (MP_CACHE_STORE_STATUS_OK, store')"
  shows "store_size store' = store_size store + (sizeof_entry + length key + 1 + length v)"
proof -
  let ?en = "\<lparr>entry_key = key, entry_value = v, entry_expires_at = t\<rparr>"
  let ?b = "bucket_index store key"
  let ?chain = "buckets store ! ?b"
  from write_entry_result [OF w] obtain count used where s: "store' = with_chain store ?b (chain_put ?en ?chain) count used"
    by auto
  have "chain_map ?chain key = None"
    using new by (simp add: store_abs_None store_lookup_chain)
  then have "chain_size (chain_put ?en ?chain) = chain_size ?chain + entry_size ?en"
    using chain_put_size(1) [of ?en ?chain] by (simp add: option_size_def)
  with with_chain_size(1) [OF bucket_index_less [OF inv, of key], of "chain_put ?en ?chain" count used]
  show ?thesis
    by (simp add: s entry_size_def)
qed

lemma restore_all_succeeds:
  assumes "all_ok e" "0 \<le> now" "store_inv store" "distinct (map fst entries)"
    and "list_all (triple_fits store) entries" "\<forall>key \<in> set (map fst entries). store_abs store key = None"
    and "store_size store + sum_list (map triple_size entries) \<le> unat (store_memory_limit store)"
  shows "\<exists>store'. restore_all e now entries store = (True, store') \<and> store_inv store' \<and> same_limits store store' \<and>
    store_size store' \<le> store_size store + sum_list (map triple_size entries) \<and>
    store_abs store' = store_abs store ++ map_of (filter (\<lambda>(key, v, t). t > now) entries)"
  using assms(3-)
proof (induction entries arbitrary: store)
  case (Cons x entries)
  obtain key v t where x: "x = (key, v, t)"
    by (cases x)
  show ?case
  proof (cases "t > now")
    case False
    have "\<exists>store'. restore_all e now entries store = (True, store') \<and> store_inv store' \<and> same_limits store store' \<and>
        store_size store' \<le> store_size store + sum_list (map triple_size entries) \<and>
        store_abs store' = store_abs store ++ map_of (filter (\<lambda>(key, v, t). t > now) entries)"
      by (rule Cons.IH [OF Cons.prems(1)]) (use Cons.prems in auto)
    then show ?thesis
      using False x by (auto intro: le_trans)
  next
    case True
    have fits: "0 < length key" "length key \<le> unat (store_max_key_bytes store)" "length v \<le> unat (store_max_value_bytes store)"
      "store_size store + sizeof_entry + length key + 1 + length v \<le> unat (store_memory_limit store)"
      using Cons.prems(3,5) x by simp_all
    from write_entry_succeeds [OF Cons.prems(1) all_ok_at [OF assms(1)] fits, of "length entries" t] obtain store1
      where w: "mp_cache_store_write_entry (at (length entries) e) store (Some key) (Some v) t = (MP_CACHE_STORE_STATUS_OK, store1)"
      by blast
    then have restore: "mp_cache_store_restore_entry (at (length entries) e) store (Some key) (Some v) t =
        (MP_CACHE_STORE_STATUS_OK, store1)"
      using True assms(2) by (simp add: mp_cache_store_restore_entry_def)
    have new: "store_abs store key = None"
      using Cons.prems(4) x by simp
    note written = write_entry_ok [OF Cons.prems(1) w]
    have limits: "same_limits store store1"
      by (rule write_limits [OF w])
    have "triple_fits store1 y = triple_fits store y" for y
      using limits by (cases y) (simp add: same_limits_def)
    then have fits1: "list_all (triple_fits store1) entries"
      using Cons.prems(3) by (simp add: list_all_iff)
    have fresh1: "\<forall>k \<in> set (map fst entries). store_abs store1 k = None"
      using Cons.prems(2,4) x written by auto
    have size1: "store_size store1 + sum_list (map triple_size entries) \<le> unat (store_memory_limit store1)"
      using Cons.prems(5) x write_entry_size [OF Cons.prems(1) new w] limits by (simp add: same_limits_def)
    have dist: "distinct (map fst entries)"
      using Cons.prems(2) by simp
    from Cons.IH [OF conjunct1 [OF written] dist fits1 fresh1 size1] obtain store'
      where rest: "restore_all e now entries store1 = (True, store')" "store_inv store'" "same_limits store1 store'"
        "store_size store' \<le> store_size store1 + sum_list (map triple_size entries)"
        "store_abs store' = store_abs store1 ++ map_of (filter (\<lambda>(key, v, t). t > now) entries)"
      by blast
    have "map_of (filter (\<lambda>(key, v, t). t > now) entries) key = None"
      using Cons.prems(2) x by (auto simp: map_of_eq_None_iff image_iff)
    then have "store_abs store' = store_abs store ++ map_of (filter (\<lambda>(key, v, t). t > now) (x # entries))"
      using rest(5) written True x by (auto simp: fun_eq_iff map_add_def split: option.splits)
    moreover have "same_limits store store'"
      using limits rest(3) by (simp add: same_limits_def)
    moreover have "restore_all e now (x # entries) store = (True, store')"
      using rest(1) restore True x by simp
    moreover have "store_size store' \<le> store_size store + sum_list (map triple_size (x # entries))"
      using rest(4) x write_entry_size [OF Cons.prems(1) new w] by simp
    ultimately show ?thesis
      using rest(2) by blast
  qed
qed (simp add: same_limits_def)

text \<open>Importing clients with new, pairwise different ids rebuilds the list in order.\<close>

definition client_of_tuple :: "string \<times> u32 \<times> bool \<times> bytes \<Rightarrow> mp_cache_client_record" where
  "client_of_tuple x = (case x of (cid, role, active, hash) \<Rightarrow>
     \<lparr>client_id = cid, client_role = role, token_active = active, token_hash = hash\<rparr>)"

lemma client_of_tuple_tuple [simp]: "client_of_tuple (client_tuple r) = r"
  by (simp add: client_of_tuple_def client_tuple_def)

lemma import_new_client:
  assumes "all_ok e" "security_inv security" "client_ok r" "client_id r \<notin> client_id ` set (client_records security)"
    and "length (client_records security) < MP_CACHE_MAX_CLIENTS"
  shows "\<exists>security'. mp_cache_security_import_client_hash e security (Some (client_id r)) (client_role r)
      (Some (token_hash r)) (token_active r) = (MP_CACHE_SECURITY_STATUS_OK, security') \<and> security_inv security' \<and>
    client_records security' = client_records security @ [r] \<and>
    bootstrap_admin_hash security' = bootstrap_admin_hash security \<and>
    bootstrap_admin_loaded security' = bootstrap_admin_loaded security"
proof -
  have none: "mp_cache_security_find_record security (Some (client_id r)) = None"
    by (rule iffD2 [OF find_record_None assms(4)])
  have "fst (mp_cache_security_ensure_capacity (at 0 e) security) = MP_CACHE_SECURITY_STATUS_OK"
    using assms(5) by (simp add: mp_cache_security_ensure_capacity_def Let_def env_simps assms(1))
  then obtain security1 where ec: "mp_cache_security_ensure_capacity (at 0 e) security = (MP_CACHE_SECURITY_STATUS_OK, security1)"
    by (cases "mp_cache_security_ensure_capacity (at 0 e) security") simp
  have valid: "mp_cache_client_id_is_valid (Some (client_id r))" "client_role r \<noteq> MP_CACHE_ROLE_NONE"
    "length (token_hash r) = MP_CACHE_TOKEN_HASH_SIZE"
    "\<not> token_active r \<Longrightarrow> token_hash r = replicate MP_CACHE_TOKEN_HASH_SIZE 0"
    using assms(3) by (simp_all add: client_ok_def)
  have result: "mp_cache_security_import_client_hash e security (Some (client_id r)) (client_role r)
      (Some (token_hash r)) (token_active r) =
      (MP_CACHE_SECURITY_STATUS_OK, security1\<lparr>client_records := client_records security1 @ [r]\<rparr>)"
    using none ec valid
    by (cases r) (auto simp: mp_cache_security_import_client_hash_def import_fields_append Let_def valid_id_fits)
  show ?thesis
    using result append_client_inv [OF ensure_capacity_result(2) [OF ec assms(2)]
        ensure_capacity_result(3) [OF ec refl assms(2)] assms(3)] assms(4) ensure_capacity_records [OF ec]
    by simp
qed

lemma import_all_succeeds:
  assumes "all_ok e" "security_inv security" "list_all client_ok clients" "distinct (map client_id clients)"
    and "client_id ` set clients \<inter> client_id ` set (client_records security) = {}"
    and "length (client_records security) + length clients \<le> MP_CACHE_MAX_CLIENTS"
  shows "\<exists>security'. import_all e (map client_tuple clients) security = (True, security') \<and> security_inv security' \<and>
    client_records security' = client_records security @ clients \<and>
    bootstrap_admin_hash security' = bootstrap_admin_hash security \<and>
    bootstrap_admin_loaded security' = bootstrap_admin_loaded security"
  using assms(2-)
proof (induction clients arbitrary: security)
  case (Cons r clients)
  have fresh: "client_id r \<notin> client_id ` set (client_records security)"
    and small: "length (client_records security) < MP_CACHE_MAX_CLIENTS" and ok: "client_ok r"
    using Cons.prems by auto
  from import_new_client [OF all_ok_at [OF assms(1)] Cons.prems(1) ok fresh small, of "length clients"] obtain security1
    where i: "mp_cache_security_import_client_hash (at (length clients) e) security (Some (client_id r)) (client_role r)
        (Some (token_hash r)) (token_active r) = (MP_CACHE_SECURITY_STATUS_OK, security1)" "security_inv security1"
      "client_records security1 = client_records security @ [r]"
      "bootstrap_admin_hash security1 = bootstrap_admin_hash security"
      "bootstrap_admin_loaded security1 = bootstrap_admin_loaded security"
    by blast
  have "\<exists>security'. import_all e (map client_tuple clients) security1 = (True, security') \<and> security_inv security' \<and>
      client_records security' = client_records security1 @ clients \<and>
      bootstrap_admin_hash security' = bootstrap_admin_hash security1 \<and>
      bootstrap_admin_loaded security' = bootstrap_admin_loaded security1"
    by (rule Cons.IH [OF i(2)]) (use Cons.prems i(3) in auto)
  then show ?case
    using i by (auto simp: client_tuple_def [of r])
qed simp


section \<open>A state payload read back\<close>

text \<open>The live part of an abstract map.\<close>

definition live_map :: "int \<Rightarrow> (bytes \<rightharpoonup> bytes \<times> int) \<Rightarrow> (bytes \<rightharpoonup> bytes \<times> int)" where
  "live_map now m = (\<lambda>key. case m key of Some (v, t) \<Rightarrow> if t > now then Some (v, t) else None | None \<Rightarrow> None)"

lemma distinct_concat_index:
  assumes "\<forall>b < length bs. distinct (map f (bs ! b)) \<and> (\<forall>x \<in> set (bs ! b). idx (f x) = b + k)"
  shows "distinct (map f (concat bs)) \<and> (\<forall>x \<in> set (concat bs). k \<le> idx (f x))"
  using assms
proof (induction bs arbitrary: k)
  case (Cons c bs)
  have "\<forall>b < length bs. distinct (map f (bs ! b)) \<and> (\<forall>x \<in> set (bs ! b). idx (f x) = b + Suc k)"
    using Cons.prems by (metis Suc_less_eq add_Suc_shift length_Cons nth_Cons_Suc)
  from Cons.IH [OF this] have rest: "distinct (map f (concat bs))" "\<forall>x \<in> set (concat bs). Suc k \<le> idx (f x)"
    by auto
  have head: "distinct (map f c)" "\<forall>x \<in> set c. idx (f x) = k"
    using Cons.prems [rule_format, of 0] by auto
  have "f ` set c \<inter> f ` set (concat bs) = {}"
  proof -
    have False if "x \<in> set c" "y \<in> set (concat bs)" "f x = f y" for x y
    proof -
      have "idx (f x) = k" "Suc k \<le> idx (f y)"
        using head(2) rest(2) that by blast+
      with that(3) show False by simp
    qed
    then show ?thesis by blast
  qed
  moreover have "\<forall>x \<in> set (concat bs). k \<le> idx (f x)"
    using rest(2) Suc_leD by blast
  ultimately show ?case
    using head rest(1) by auto
qed simp

lemma in_set_concat_nth: "x \<in> set (concat bs) \<Longrightarrow> \<exists>b < length bs. x \<in> set (bs ! b)"
  by (auto simp: in_set_conv_nth [of _ bs])

lemma store_entries:
  assumes "store_inv store"
  shows "distinct (chain_keys (concat (buckets store)))"
    and "en \<in> set (concat (buckets store)) \<longleftrightarrow> store_lookup store (entry_key en) = Some en"
proof -
  have wf: "\<forall>b < length (buckets store). distinct (chain_keys (buckets store ! b)) \<and>
      (\<forall>x \<in> set (buckets store ! b). bucket_index store (entry_key x) = b + 0)"
    using assms by (simp add: store_inv_def)
  show "distinct (chain_keys (concat (buckets store)))"
    by (rule conjunct1 [OF distinct_concat_index [OF wf]])
  show "en \<in> set (concat (buckets store)) \<longleftrightarrow> store_lookup store (entry_key en) = Some en"
  proof
    assume "en \<in> set (concat (buckets store))"
    then obtain b where b: "b < length (buckets store)" "en \<in> set (buckets store ! b)"
      using in_set_concat_nth [of en "buckets store"] by metis
    then have "bucket_index store (entry_key en) = b" "distinct (chain_keys (buckets store ! b))"
      using wf by auto
    with b show "store_lookup store (entry_key en) = Some en"
      by (auto simp: store_lookup_chain comp_def intro!: map_of_is_SomeI)
  next
    assume "store_lookup store (entry_key en) = Some en"
    then have "en \<in> set (buckets store ! bucket_index store (entry_key en))"
      by (auto simp: store_lookup_chain dest: map_of_SomeD)
    with bucket_index_less [OF assms, of "entry_key en"] show "en \<in> set (concat (buckets store))"
      by auto
  qed
qed

lemma store_lookup_key:
  assumes "store_lookup store key = Some en"
  shows "entry_key en = key"
  using assms by (auto simp: store_lookup_chain dest: map_of_SomeD)

lemma map_of_live_entries:
  assumes "store_inv store"
  shows "map_of (map entry_triple (live_entries now store)) = live_map now (store_abs store)"
proof
  fix key
  let ?xs = "map entry_triple (live_entries now store)"
  have dist: "distinct (map fst ?xs)"
    using store_entries(1) [OF assms] by (simp add: live_entries_def entry_triple_def comp_def distinct_map_filter)
  have mem: "(key, v, t) \<in> set ?xs \<longleftrightarrow> live_map now (store_abs store) key = Some (v, t)" for v t
  proof
    assume "(key, v, t) \<in> set ?xs"
    then obtain en where en: "en \<in> set (concat (buckets store))" "live now en" "key = entry_key en" "v = entry_value en"
      "t = entry_expires_at en"
      by (auto simp: live_entries_def entry_triple_def)
    then show "live_map now (store_abs store) key = Some (v, t)"
      using store_entries(2) [OF assms, of en] by (simp add: live_map_def store_abs_def)
  next
    assume "live_map now (store_abs store) key = Some (v, t)"
    then obtain en where en: "store_lookup store key = Some en" "v = entry_value en" "t = entry_expires_at en" "now < t"
      by (auto simp: live_map_def store_abs_def split: option.splits if_splits)
    then have "en \<in> set (concat (buckets store))"
      using store_entries(2) [OF assms, of en] store_lookup_key [OF en(1)] by simp
    then have "entry_triple en \<in> set ?xs"
      using en by (auto simp: live_entries_def)
    then show "(key, v, t) \<in> set ?xs"
      using en store_lookup_key [OF en(1)] by (simp add: entry_triple_def)
  qed
  show "map_of ?xs key = live_map now (store_abs store) key"
  proof (cases "live_map now (store_abs store) key")
    case None
    then have "map_of ?xs key = None"
      using mem by (metis map_of_SomeD not_None_eq surj_pair)
    with None show ?thesis by simp
  next
    case (Some vt)
    obtain v t where vt: "vt = (v, t)"
      by (cases vt)
    with Some mem have "(key, v, t) \<in> set ?xs" by simp
    with dist have "map_of ?xs key = Some (v, t)"
      by (rule map_of_is_SomeI)
    with Some vt show ?thesis by simp
  qed
qed

lemma filter_live_triples:
  "map_of (filter (\<lambda>(key, v, t). t > now') xs) = live_map now' (map_of xs)" if "distinct (map fst xs)"
  using that
proof (induction xs)
  case (Cons x xs)
  obtain key v t where x: "x = (key, v, t)"
    by (cases x)
  have "map_of xs key = None" "key \<notin> fst ` set xs"
    using Cons.prems x by (auto simp: map_of_eq_None_iff)
  moreover have "map_of (filter (\<lambda>(key, v, t). t > now') xs) = live_map now' (map_of xs)"
    using Cons by simp
  ultimately show ?case
    by (auto simp: x live_map_def fun_eq_iff)
qed (simp add: live_map_def)

lemma live_map_live_map: "live_map now' (live_map now m) = live_map (max now now') m"
  by (auto simp: live_map_def fun_eq_iff split: option.splits)

lemma entry_triple_sizes:
  "sum_list (map triple_size (map entry_triple (live_entries now store))) \<le> store_size store"
proof -
  have "sum_list (map triple_size (map entry_triple xs)) = chain_size xs" for xs
    by (induction xs) (simp_all add: entry_triple_def entry_size_def)
  moreover have "chain_size (filter P xs) \<le> chain_size xs" for P and xs :: "mp_cache_entry list"
    by (induction xs) auto
  ultimately show ?thesis
    by (simp add: live_entries_def store_size_def sum_chain_size_concat)
qed

text \<open>
  A table can be written out when its expiry times are 64-bit integers and the count of its entries
  fits the 32-bit field; all other lengths fit by the invariants.
\<close>

definition state_encodable :: "mp_cache_store \<Rightarrow> bool" where
  "state_encodable store \<longleftrightarrow> store_length store < 2 ^ 32 \<and> (\<forall>en \<in> set (concat (buckets store)). is_int64 (entry_expires_at en))"

lemma live_entries_encodable:
  assumes "store_inv store" "state_encodable store"
  shows "list_all entry_encodable (map entry_triple (live_entries now store))"
    and "list_all (triple_fits store) (map entry_triple (live_entries now store))"
    and "length (live_entries now store) < 2 ^ 32"
proof -
  have ok: "entry_ok store en" if "en \<in> set (concat (buckets store))" for en
  proof -
    from that obtain b where "b < length (buckets store)" "en \<in> set (buckets store ! b)"
      using in_set_concat_nth [of en "buckets store"] by metis
    with assms(1) show ?thesis by (simp add: store_inv_def)
  qed
  have bound: "unat (w :: u32) < 2 ^ 32" for w
    using unsigned_less [of w, where 'a = nat] by simp
  show "list_all entry_encodable (map entry_triple (live_entries now store))"
    using assms(2) ok bound
    by (fastforce simp: list_all_iff live_entries_def entry_triple_def state_encodable_def entry_ok_def intro: le_less_trans)
  show "list_all (triple_fits store) (map entry_triple (live_entries now store))"
    using ok by (auto simp: list_all_iff live_entries_def entry_triple_def entry_ok_def)
  show "length (live_entries now store) < 2 ^ 32"
    using assms(2) unfolding live_entries_def
    by (intro le_less_trans [OF length_filter_le]) (simp add: state_encodable_def store_length_def sum_length_concat)
qed

lemma clients_encodable:
  assumes "security_inv security"
  shows "list_all client_encodable (map client_tuple (client_records security))"
    and "length (client_records security) < 2 ^ 32"
proof -
  have "NUL \<notin> set cid" if "mp_cache_client_id_is_valid (Some cid)" for cid
    using that by (auto simp: mp_cache_client_id_is_valid_def list_all_iff isalnum_def isdigit_def)
  then show "list_all client_encodable (map client_tuple (client_records security))"
    using assms by (auto simp: security_inv_def list_all_iff client_tuple_def client_ok_def mp_cache_client_id_is_valid_def)
  show "length (client_records security) < 2 ^ 32"
    using assms by (simp add: security_inv_def MP_CACHE_MAX_CLIENTS_def)
qed

lemma deserialize_state_bytes:
  assumes e: "all_ok e" and now': "0 \<le> now'"
    and src: "store_inv store" "state_encodable store" "security_inv security"
    and dst: "store_inv store0" "store_size store0 = 0" "same_limits store store0" "store_abs store0 = Map.empty"
    and dsec: "security_inv security0" "client_records security0 = []"
  shows "\<exists>store' security'.
    mp_cache_storage_deserialize_state e (state_bytes store security now) store0 security0 now' = (True, store', security') \<and>
    store_inv store' \<and> same_limits store store' \<and> store_size store' \<le> store_size store \<and>
    store_abs store' = live_map (max now now') (store_abs store) \<and>
    security_inv security' \<and> client_records security' = client_records security \<and>
    bootstrap_admin_hash security' = bootstrap_admin_hash security0 \<and>
    bootstrap_admin_loaded security' = bootstrap_admin_loaded security0"
proof -
  define entries where "entries = map entry_triple (live_entries now store)"
  define clients where "clients = map client_tuple (client_records security)"
  define head where "head = be_bytes 4 MP_CACHE_STORAGE_STATE_VERSION @ be_bytes 8 (u64_of_int64 now) @
    be_bytes 4 (of_nat (length entries) :: u32)"
  define middle where "middle = be_bytes 4 (of_nat (length clients) :: u32)"
  define E where "E = concat (map entry_bytes entries)"
  define C where "C = concat (map client_bytes clients)"
  define payload where "payload = state_bytes store security now"
  have p: "payload = head @ E @ middle @ C"
    by (simp add: payload_def state_bytes_def head_def middle_def E_def C_def entries_def clients_def)
  have lens: "unat (of_nat (length entries) :: u32) = length entries" "unat (of_nat (length clients) :: u32) = length clients"
    using live_entries_encodable(3) [OF src(1,2)] clients_encodable(2) [OF src(3)]
    by (simp_all add: entries_def clients_def unat_length)
  have h: "length head = 16" "length middle = 4"
    by (simp_all add: head_def middle_def)
  have 1: "mp_cache_consume_u32 payload 0 = Some (MP_CACHE_STORAGE_STATE_VERSION, 4)"
    by (rule consume_u32_at [where pre = "[]"]) (simp_all add: p head_def)
  have 2: "mp_cache_consume_u64 payload 4 = Some (u64_of_int64 now, 12)"
    by (rule consume_u64_at [where pre = "be_bytes 4 MP_CACHE_STORAGE_STATE_VERSION"]) (simp_all add: p head_def)
  have 3: "mp_cache_consume_u32 payload 12 = Some (of_nat (length entries), 16)"
    by (rule consume_u32_at [where pre = "be_bytes 4 MP_CACHE_STORAGE_STATE_VERSION @ be_bytes 8 (u64_of_int64 now)"])
      (simp_all add: p head_def)
  have d1: "entry_codec.dec_all (length entries) payload 16 = Some (entries, 16 + length E)"
    using entry_codec.dec_all_encoded [of entries head "middle @ C"] live_entries_encodable(1) [OF src(1,2), of now]
    by (simp only: p h(1) E_def entries_def)
  have 4: "mp_cache_consume_u32 payload (16 + length E) = Some (of_nat (length clients), 20 + length E)"
    by (rule consume_u32_at [where pre = "head @ E"]) (simp_all add: p h middle_def)
  have d2: "client_codec.dec_all (length clients) payload (20 + length E) = Some (clients, 20 + length E + length C)"
    using client_codec.dec_all_encoded [of clients "head @ E @ middle" "[]"] clients_encodable(1) [OF src(3)]
    by (simp add: p h C_def [symmetric] clients_def [symmetric] add_ac)
  have dist: "distinct (map fst entries)"
    using store_entries(1) [OF src(1)] by (simp add: entries_def live_entries_def entry_triple_def comp_def distinct_map_filter)
  have "triple_fits store0 = triple_fits store"
    using dst(3) by (auto simp: fun_eq_iff same_limits_def)
  then have fits: "list_all (triple_fits store0) entries"
    using live_entries_encodable(2) [OF src(1,2), of now] by (simp add: entries_def)
  have room: "store_size store0 + sum_list (map triple_size entries) \<le> unat (store_memory_limit store0)"
    using entry_triple_sizes [of now store] src(1) dst(2,3) by (simp add: entries_def store_inv_def same_limits_def)
  have fresh: "\<forall>key \<in> set (map fst entries). store_abs store0 key = None"
    using dst(4) by simp
  obtain store' where s': "restore_all (at 0 e) now' entries store0 = (True, store')" "store_inv store'"
    "same_limits store0 store'" "store_size store' \<le> store_size store0 + sum_list (map triple_size entries)"
    "store_abs store' = store_abs store0 ++ map_of (filter (\<lambda>(key, v, t). t > now') entries)"
    using restore_all_succeeds [OF all_ok_at [OF e] now' dst(1) dist fits fresh room] by blast
  have src_inv: "list_all client_ok (client_records security)" "distinct (map client_id (client_records security))"
    "length (client_records security) \<le> MP_CACHE_MAX_CLIENTS"
    using src(3) by (simp_all add: security_inv_def)
  obtain security' where c': "import_all (at 1 e) clients security0 = (True, security')" "security_inv security'"
    "client_records security' = client_records security"
    "bootstrap_admin_hash security' = bootstrap_admin_hash security0"
    "bootstrap_admin_loaded security' = bootstrap_admin_loaded security0"
    using import_all_succeeds [OF all_ok_at [OF e] dsec(1) src_inv(1,2)] dsec(2) src_inv(3) by (auto simp: clients_def)
  have ent: "deserialize_entries (at 0 e) payload now' (length entries) 16 store0 = (Some (16 + length E), store')"
    using deserialize_entries_decoded [OF d1] s'(1) by simp
  have cli: "deserialize_clients (at 1 e) MP_CACHE_STORAGE_STATE_VERSION payload (length clients) (20 + length E) security0 =
      (Some (20 + length E + length C), security')"
    using deserialize_clients_decoded [OF d2] c'(1) by simp
  have version: "(MP_CACHE_STORAGE_STATE_VERSION = 0 \<or> MP_CACHE_STORAGE_STATE_VERSION > MP_CACHE_STORAGE_STATE_VERSION) = False"
    by (simp add: MP_CACHE_STORAGE_STATE_VERSION_def)
  have whole: "(20 + length E + length C = length payload) = True"
    by (simp add: p h)
  have "mp_cache_storage_deserialize_state e payload store0 security0 now' = (True, store', security')"
    unfolding mp_cache_storage_deserialize_state_def
    by (simp only: 1 2 3 4 ent cli lens version whole Option.bind.simps prod.case option.case if_False)
  moreover have "store_abs store' = live_map (max now now') (store_abs store)"
    using s'(5) dst(4) filter_live_triples [OF dist, of now'] map_of_live_entries [OF src(1), of now]
    by (simp add: entries_def live_map_live_map)
  moreover have "same_limits store store'"
    using dst(3) s'(3) by (simp add: same_limits_def)
  moreover have "store_size store' \<le> store_size store"
    using s'(4) dst(2) entry_triple_sizes [of now store] by (simp add: entries_def)
  ultimately show ?thesis
    using s'(2) c' by (auto simp: payload_def)
qed

end
