(* ===== verification/Journal.thy ===== *)
theory Journal
  imports Storage
begin

text \<open>
  What the storage component promises across a restart: the journal records and the packets that hold
  them, replay, checkpoints, and the state that \<open>mp_cache_storage_load_state\<close> recovers from the
  files that checkpoints and appends leave behind. Exports and imports are at the end. The operations
  are those of the theory Storage.
\<close>


section \<open>Journal records\<close>

text \<open>What the four writers record, and the payload of such a record.\<close>

datatype journal_record = JSet bytes bytes int | JDelete bytes | JClient mp_cache_client_record | JPurge

fun record_op :: "journal_record \<Rightarrow> mp_cache_journal_op" where
  "record_op (JSet key v t) = MP_CACHE_JOURNAL_OP_SET"
| "record_op (JDelete key) = MP_CACHE_JOURNAL_OP_DELETE"
| "record_op (JClient r) = MP_CACHE_JOURNAL_OP_CLIENT_UPSERT"
| "record_op JPurge = MP_CACHE_JOURNAL_OP_PURGE_ALL"

fun record_body :: "journal_record \<Rightarrow> bytes" where
  "record_body (JSet key v t) = entry_bytes (key, v, t)"
| "record_body (JDelete key) = fields_bytes [U32 (of_nat (length key)), Raw key]"
| "record_body (JClient r) = client_bytes (client_tuple r)"
| "record_body JPurge = []"

definition journal_payload :: "int \<Rightarrow> journal_record \<Rightarrow> bytes" where
  "journal_payload recorded_at r =
     fields_bytes [U32 MP_CACHE_STORAGE_JOURNAL_VERSION, U32 (journal_op_value (record_op r)), U64 (u64_of_int64 recorded_at)] @
     record_body r"

fun record_encodable :: "journal_record \<Rightarrow> bool" where
  "record_encodable (JSet key v t) \<longleftrightarrow> length key + length v < 2 ^ 31 \<and> is_int64 t"
| "record_encodable (JDelete key) \<longleftrightarrow> length key < 2 ^ 31"
| "record_encodable (JClient r) \<longleftrightarrow> client_ok r"
| "record_encodable JPurge \<longleftrightarrow> True"

text \<open>The call that records it.\<close>

fun append_record :: "env \<Rightarrow> mp_cache_storage \<Rightarrow> filesystem \<Rightarrow> journal_record \<Rightarrow> bool \<times> filesystem" where
  "append_record e storage fs (JSet key v t) = mp_cache_storage_append_set e storage fs (Some key) (Some v) t"
| "append_record e storage fs (JDelete key) = mp_cache_storage_append_delete e storage fs (Some key)"
| "append_record e storage fs (JClient r) = mp_cache_storage_append_client e storage fs (Some r)"
| "append_record e storage fs JPurge = mp_cache_storage_append_purge_all e storage fs"

lemma client_ok_encodable: "client_ok r \<Longrightarrow> client_encodable (client_tuple r)"
proof -
  assume ok: "client_ok r"
  have "NUL \<notin> set (client_id r)"
    using ok by (auto simp: client_ok_def mp_cache_client_id_is_valid_def list_all_iff isalnum_def isdigit_def)
  with ok show ?thesis
    by (simp add: client_tuple_def client_ok_def mp_cache_client_id_is_valid_def)
qed

lemma build_journal_payload_result:
  assumes "mp_cache_storage_build_journal_payload e operation now subject v extra flag empty_buffer = (True, buffer)"
  shows "buffer_inv buffer \<and> buffer_bytes buffer =
    fields_bytes [U32 MP_CACHE_STORAGE_JOURNAL_VERSION, U32 (journal_op_value operation), U64 (u64_of_int64 now)] @
    fields_bytes (case operation of
       MP_CACHE_JOURNAL_OP_SET \<Rightarrow> [U32 (of_nat (length subject)), U32 (of_nat (length v)), U64 extra, Raw subject, Raw v]
     | MP_CACHE_JOURNAL_OP_DELETE \<Rightarrow> [U32 (of_nat (length subject)), Raw subject]
     | MP_CACHE_JOURNAL_OP_CLIENT_UPSERT \<Rightarrow>
         [U32 (of_nat (length subject)), U32 (ucast extra), U32 (ucast flag), Raw (take MP_CACHE_TOKEN_HASH_SIZE v), Raw subject]
     | MP_CACHE_JOURNAL_OP_PURGE_ALL \<Rightarrow> [])"
proof -
  define head where "head = [U32 MP_CACHE_STORAGE_JOURNAL_VERSION, U32 (journal_op_value operation), U64 (u64_of_int64 now)]"
  define tail where "tail = (case operation of
       MP_CACHE_JOURNAL_OP_SET \<Rightarrow> [U32 (of_nat (length subject)), U32 (of_nat (length v)), U64 extra, Raw subject, Raw v]
     | MP_CACHE_JOURNAL_OP_DELETE \<Rightarrow> [U32 (of_nat (length subject)), Raw subject]
     | MP_CACHE_JOURNAL_OP_CLIENT_UPSERT \<Rightarrow>
         [U32 (of_nat (length subject)), U32 (ucast extra), U32 (ucast flag), Raw (take MP_CACHE_TOKEN_HASH_SIZE v), Raw subject]
     | MP_CACHE_JOURNAL_OP_PURGE_ALL \<Rightarrow> [])"
  obtain r1 b1 where 1: "append_fields (at 0 e) empty_buffer head = (r1, b1)"
    by (cases "append_fields (at 0 e) empty_buffer head")
  obtain r2 b2 where 2: "append_fields (at 1 e) b1 tail = (r2, b2)"
    by (cases "append_fields (at 1 e) b1 tail")
  have "(\<exists>u. r1 = Inr u) \<and> (\<exists>u. r2 = Inr u) \<and> buffer = b2"
    using assms 1 2
    by (auto simp: mp_cache_storage_build_journal_payload_def head_def [symmetric] tail_def [symmetric]
        simp del: append_fields.simps split: sum.splits)
  with append_fields_result [OF 1 buffer_inv_empty] append_fields_result [OF 2]
  have "buffer_inv buffer \<and> buffer_bytes buffer = fields_bytes head @ fields_bytes tail"
    by auto
  then show ?thesis
    by (simp only: head_def tail_def)
qed

lemma ucast_role [simp]: "ucast (ucast (w :: u32) :: u64) = w"
  by (rule bit_word_eqI) (auto simp: bit_simps)

lemma append_record_result:
  assumes "append_record e storage fs r = (True, fs')" "record_encodable r"
  shows "\<exists>nonce recorded_at. length nonce = 16 \<and> length (journal_payload recorded_at r) \<le> unat (max_packet_bytes storage) \<and>
      file_contents fs' (storage_journal_path storage) =
        Some ((case file_contents fs (storage_journal_path storage) of None \<Rightarrow> [] | Some bs \<Rightarrow> bs) @
              packet_bytes storage MP_CACHE_STORAGE_JOURNAL_MAGIC nonce (journal_payload recorded_at r))"
    and "path' \<noteq> storage_journal_path storage \<Longrightarrow> file_contents fs' path' = file_contents fs path'"
proof -
  obtain subject v extra flag where call: "append_journal e storage fs (record_op r) subject v extra flag = (True, fs')"
    and body: "fields_bytes (case record_op r of
       MP_CACHE_JOURNAL_OP_SET \<Rightarrow> [U32 (of_nat (length subject)), U32 (of_nat (length v)), U64 extra, Raw subject, Raw v]
     | MP_CACHE_JOURNAL_OP_DELETE \<Rightarrow> [U32 (of_nat (length subject)), Raw subject]
     | MP_CACHE_JOURNAL_OP_CLIENT_UPSERT \<Rightarrow>
         [U32 (of_nat (length subject)), U32 (ucast extra), U32 (ucast flag), Raw (take MP_CACHE_TOKEN_HASH_SIZE v), Raw subject]
     | MP_CACHE_JOURNAL_OP_PURGE_ALL \<Rightarrow> []) = record_body r"
  proof (cases r)
    case (JSet key v t)
    with assms(1) show thesis
      by (intro that [of key v "u64_of_int64 t" 0]) (simp_all add: mp_cache_storage_append_set_def)
  next
    case (JDelete key)
    with assms(1) show thesis
      by (intro that [of key "[]" 0 0]) (simp_all add: mp_cache_storage_append_delete_def)
  next
    case (JClient c)
    have "take MP_CACHE_TOKEN_HASH_SIZE (token_hash c) = token_hash c"
      using assms(2) JClient by (simp add: client_ok_def)
    with JClient assms(1) show thesis
      by (intro that [of "bytes_of (client_id c)" "token_hash c" "ucast (client_role c)" "if token_active c then 1 else 0"])
        (simp_all add: mp_cache_storage_append_client_def client_tuple_def)
  next
    case JPurge
    with assms(1) show thesis
      by (intro that [of "[]" "[]" 0 0]) (simp_all add: mp_cache_storage_append_purge_all_def)
  qed
  from call obtain buffer
    where build: "mp_cache_storage_build_journal_payload (at 0 e) (record_op r) (clock e [1]) subject v extra flag empty_buffer = (True, buffer)"
      and append: "mp_cache_storage_append_packet (at 2 e) storage fs (storage_journal_path storage)
        MP_CACHE_STORAGE_JOURNAL_MAGIC (buffer_data buffer) = (True, fs')"
    by (auto simp: append_journal_def split: prod.splits bool.splits)
  from build_journal_payload_result [OF build] body
  have buffer: "buffer_inv buffer" "buffer_bytes buffer = journal_payload (clock e [1]) r"
    by (simp_all add: journal_payload_def)
  then have data: "buffer_data buffer = Some (journal_payload (clock e [1]) r)"
    using buffer_data_Some [of buffer] by (simp add: journal_payload_def be_bytes_def upt_rec)
  note result = append_packet_result [OF append [unfolded data]]
  show "\<exists>nonce recorded_at. length nonce = 16 \<and> length (journal_payload recorded_at r) \<le> unat (max_packet_bytes storage) \<and>
      file_contents fs' (storage_journal_path storage) =
        Some ((case file_contents fs (storage_journal_path storage) of None \<Rightarrow> [] | Some bs \<Rightarrow> bs) @
              packet_bytes storage MP_CACHE_STORAGE_JOURNAL_MAGIC nonce (journal_payload recorded_at r))"
    using result(1) by blast
  show "file_contents fs' path' = file_contents fs path'" if "path' \<noteq> storage_journal_path storage"
    using result(3) [OF that] .
qed


section \<open>Replaying the journal\<close>

text \<open>The effect of one record, as the replay applies it.\<close>

fun apply_record :: "env \<Rightarrow> int \<Rightarrow> journal_record \<Rightarrow> mp_cache_store \<Rightarrow> mp_cache_security \<Rightarrow>
    bool \<times> mp_cache_store \<times> mp_cache_security" where
  "apply_record e now (JSet key v t) store security =
     (if t > now then
        (case mp_cache_store_restore_entry (at 0 e) store (Some key) (Some v) t of
           (MP_CACHE_STORE_STATUS_OK, store') \<Rightarrow> (True, store', security)
         | (_, store') \<Rightarrow> (False, store', security))
      else (True, store, security))"
| "apply_record e now (JDelete key) store security = (True, snd (mp_cache_store_delete store (Some key)), security)"
| "apply_record e now (JClient r) store security =
     (case mp_cache_security_import_client_hash (at 0 e) security (Some (client_id r)) (client_role r)
         (Some (token_hash r)) (token_active r) of
        (MP_CACHE_SECURITY_STATUS_OK, security') \<Rightarrow> (True, store, security')
      | (_, security') \<Rightarrow> (False, store, security'))"
| "apply_record e now JPurge store security = (True, mp_cache_store_clear store, security)"

fun apply_records :: "env \<Rightarrow> nat \<Rightarrow> int \<Rightarrow> journal_record list \<Rightarrow> mp_cache_store \<Rightarrow> mp_cache_security \<Rightarrow>
    bool \<times> mp_cache_store \<times> mp_cache_security" where
  "apply_records e n now [] store security = (True, store, security)"
| "apply_records e n now (r # records) store security =
     (case apply_record (at 1 (at n e)) now r store security of
        (False, store', security') \<Rightarrow> (False, store', security')
      | (True, store', security') \<Rightarrow> apply_records e (Suc n) now records store' security')"

lemma apply_journal_payload_record:
  assumes "record_encodable r"
  shows "mp_cache_storage_apply_journal_payload e (journal_payload recorded_at r) store security now =
    apply_record e now r store security"
proof -
  define payload where "payload = journal_payload recorded_at r"
  define head where "head = be_bytes 4 MP_CACHE_STORAGE_JOURNAL_VERSION @ be_bytes 4 (journal_op_value (record_op r)) @
    be_bytes 8 (u64_of_int64 recorded_at)"
  have p: "payload = head @ record_body r"
    by (simp add: payload_def journal_payload_def head_def)
  have h: "length head = 16"
    by (simp add: head_def)
  have 1: "mp_cache_consume_u32 payload 0 = Some (MP_CACHE_STORAGE_JOURNAL_VERSION, 4)"
    by (rule consume_u32_at [where pre = "[]"]) (simp_all add: p head_def)
  have 2: "mp_cache_consume_u32 payload 4 = Some (journal_op_value (record_op r), 8)"
    by (rule consume_u32_at [where pre = "be_bytes 4 MP_CACHE_STORAGE_JOURNAL_VERSION"]) (simp_all add: p head_def)
  have 3: "mp_cache_consume_u64 payload 8 = Some (u64_of_int64 recorded_at, 16)"
    by (rule consume_u64_at [where pre = "be_bytes 4 MP_CACHE_STORAGE_JOURNAL_VERSION @ be_bytes 4 (journal_op_value (record_op r))"])
      (simp_all add: p head_def)
  have version: "(MP_CACHE_STORAGE_JOURNAL_VERSION = 0 \<or> MP_CACHE_STORAGE_JOURNAL_VERSION > MP_CACHE_STORAGE_JOURNAL_VERSION) = False"
    by (simp add: MP_CACHE_STORAGE_JOURNAL_VERSION_def)
  note unfold = mp_cache_storage_apply_journal_payload_def 1 2 3 version Option.bind.simps prod.case option.case if_False
  show ?thesis
  proof (cases r)
    case (JSet key v t)
    have c: "consume_entry payload 16 = Some ((key, v, t), length payload)"
      using consume_entry_at [of key v t head "[]"] assms JSet by (simp add: p h)
    show ?thesis
      unfolding payload_def [symmetric] unfolding unfold by (simp add: JSet c split: prod.splits mp_cache_store_status.splits)
  next
    case (JDelete key)
    have "unat (of_nat (length key) :: u32) = length key"
      using assms JDelete by (simp add: unat_length)
    moreover have "mp_cache_consume_u32 payload 16 = Some (of_nat (length key), 20)"
      by (rule consume_u32_at [where pre = head]) (simp_all add: p h JDelete)
    moreover have "mp_cache_consume_bytes payload 20 (length key) = Some (key, length payload)"
      by (rule consume_bytes_at [where pre = "head @ be_bytes 4 (of_nat (length key) :: u32)" and post = "[]"])
        (simp_all add: p h JDelete)
    ultimately show ?thesis
      unfolding payload_def [symmetric] unfolding unfold by (simp add: JDelete)
  next
    case (JClient c)
    have "consume_client MP_CACHE_STORAGE_JOURNAL_VERSION payload 16 = Some (client_tuple c, length payload)"
      using consume_client_at [of "client_id c" "client_role c" "token_active c" "token_hash c"
          MP_CACHE_STORAGE_JOURNAL_VERSION head "[]"] client_ok_encodable [of c] assms JClient
      by (simp add: p h client_tuple_def MP_CACHE_STORAGE_JOURNAL_VERSION_def)
    then show ?thesis
      unfolding payload_def [symmetric] unfolding unfold
      by (simp add: JClient client_tuple_def split: prod.splits mp_cache_security_status.splits)
  next
    case JPurge
    then show ?thesis
      unfolding payload_def [symmetric] unfolding unfold by (simp add: p h)
  qed
qed

text \<open>The journal file holds one packet per record.\<close>

definition journal_bytes :: "mp_cache_storage \<Rightarrow> (bytes \<times> int \<times> journal_record) list \<Rightarrow> bytes" where
  "journal_bytes storage items =
     concat (map (\<lambda>(nonce, recorded_at, r). packet_bytes storage MP_CACHE_STORAGE_JOURNAL_MAGIC nonce
       (journal_payload recorded_at r)) items)"

fun item_ok :: "mp_cache_storage \<Rightarrow> bytes \<times> int \<times> journal_record \<Rightarrow> bool" where
  "item_ok storage (nonce, recorded_at, r) \<longleftrightarrow> length nonce = 16 \<and> record_encodable r \<and>
     length (journal_payload recorded_at r) \<le> unat (max_packet_bytes storage)"

lemma journal_payload_length: "record_encodable r \<Longrightarrow> length (journal_payload t r) < 2 ^ 32"
  by (cases r) (auto simp: journal_payload_def client_tuple_def client_ok_def mp_cache_client_id_is_valid_def
      MP_CACHE_CLIENT_ID_CAP_def MP_CACHE_TOKEN_HASH_SIZE_def)

lemma read_item:
  assumes "all_ok e" "item_ok storage (nonce, recorded_at, r)"
  shows "mp_cache_storage_read_packet_stream e storage
      (packet_bytes storage MP_CACHE_STORAGE_JOURNAL_MAGIC nonce (journal_payload recorded_at r) @ rest)
      MP_CACHE_STORAGE_JOURNAL_MAGIC =
    (Packet (journal_payload recorded_at r)
       (packet_mac storage MP_CACHE_STORAGE_JOURNAL_MAGIC nonce (journal_payload recorded_at r)), rest)"
  by (intro read_packet_bytes) (use assms journal_payload_length [of r recorded_at] in simp_all)

lemma replay_items:
  assumes "all_ok e" "list_all (item_ok storage) items"
  shows "replay_journal e n storage (journal_bytes storage items @ rest) now store security =
    (case apply_records e n now (map (\<lambda>x. snd (snd x)) items) store security of
       (False, store', security') \<Rightarrow> (False, store', security')
     | (True, store', security') \<Rightarrow> replay_journal e (n + length items) storage rest now store' security')"
  using assms(2)
proof (induction items arbitrary: n store security)
  case Nil
  then show ?case by (simp add: journal_bytes_def)
next
  case (Cons x items)
  obtain nonce recorded_at r where x: "x = (nonce, recorded_at, r)"
    by (cases x)
  have ok: "item_ok storage (nonce, recorded_at, r)" "list_all (item_ok storage) items"
    using Cons.prems x by simp_all
  have stream: "journal_bytes storage (x # items) @ rest =
      packet_bytes storage MP_CACHE_STORAGE_JOURNAL_MAGIC nonce (journal_payload recorded_at r) @ (journal_bytes storage items @ rest)"
    by (simp add: journal_bytes_def x)
  note read = read_item [OF all_ok_at [OF all_ok_at [OF assms(1)]] ok(1)]
  have "record_encodable r"
    using ok(1) by simp
  note apply_r = apply_journal_payload_record [OF this]
  obtain b store1 security1 where step: "apply_record (at 1 (at n e)) now r store security = (b, store1, security1)"
    by (rule prod_cases3)
  show ?case
    unfolding stream
    by (subst replay_journal.simps, subst read) (cases b; simp add: apply_r x step [simplified] Cons.IH [OF ok(2)] split: prod.split bool.split)
qed

lemma replay_nil [simp]: "replay_journal e n storage [] now store security = (True, store, security)"
  by (subst replay_journal.simps) (simp add: mp_cache_storage_read_packet_stream_def)


section \<open>What replay does to the abstract state\<close>

definition clients_abs :: "mp_cache_security \<Rightarrow> string \<rightharpoonup> mp_cache_client_record" where
  "clients_abs security = map_of (map (\<lambda>r. (client_id r, r)) (client_records security))"

text \<open>
  The operations on the abstract map that a record stands for at the time of the replay: writing an
  entry that has expired by then is skipped.
\<close>

fun record_kv :: "int \<Rightarrow> journal_record \<Rightarrow> kv_op list" where
  "record_kv now (JSet key v t) = (if t > now then [Put key v t] else [])"
| "record_kv now (JDelete key) = [Del key]"
| "record_kv now (JClient r) = []"
| "record_kv now JPurge = [Clear]"

fun record_clients :: "(string \<rightharpoonup> mp_cache_client_record) \<Rightarrow> journal_record \<Rightarrow> (string \<rightharpoonup> mp_cache_client_record)" where
  "record_clients m (JClient r) = m(client_id r \<mapsto> r)"
| "record_clients m _ = m"

lemma map_of_list_update:
  assumes "distinct (map f xs)" "i < length xs" "f y = f (xs ! i)"
  shows "map_of (map (\<lambda>x. (f x, x)) (xs[i := y])) = (map_of (map (\<lambda>x. (f x, x)) xs))(f y \<mapsto> y)"
  using assms
proof (induction xs arbitrary: i)
  case (Cons x xs)
  show ?case
  proof (cases i)
    case 0
    with Cons.prems show ?thesis by auto
  next
    case (Suc j)
    then have "xs ! j \<in> set xs" "f y = f (xs ! j)"
      using Cons.prems by simp_all
    with Cons.prems(1) have "f x \<noteq> f y"
      by (metis distinct.simps(2) image_eqI list.set_map list.simps(9))
    with Suc Cons show ?thesis by (auto simp: fun_upd_twist)
  qed
qed simp

lemma import_client_effect:
  assumes "security_inv security" "client_ok r"
    and "mp_cache_security_import_client_hash e security (Some (client_id r)) (client_role r) (Some (token_hash r))
      (token_active r) = (MP_CACHE_SECURITY_STATUS_OK, security')"
  shows "clients_abs security' = (clients_abs security)(client_id r \<mapsto> r)"
    and "length (client_records security') \<le> length (client_records security) + 1"
proof -
  have valid: "mp_cache_client_id_is_valid (Some (client_id r))" "client_role r \<noteq> MP_CACHE_ROLE_NONE"
    "length (token_hash r) = MP_CACHE_TOKEN_HASH_SIZE"
    "\<not> token_active r \<Longrightarrow> token_hash r = replicate MP_CACHE_TOKEN_HASH_SIZE 0"
    using assms(2) by (simp_all add: client_ok_def)
  have "clients_abs security' = (clients_abs security)(client_id r \<mapsto> r) \<and>
      length (client_records security') \<le> length (client_records security) + 1"
  proof (cases "mp_cache_security_find_record security (Some (client_id r))")
    case (Some index)
    note found = find_record_Some [OF Some]
    have r: "(client_records security ! index)\<lparr>client_role := client_role r, token_active := token_active r,
        token_hash := (if token_active r then take MP_CACHE_TOKEN_HASH_SIZE (the (Some (token_hash r)))
                       else replicate MP_CACHE_TOKEN_HASH_SIZE 0)\<rparr> = r"
      using found(2) valid by (cases r) (auto intro: mp_cache_client_record.equality)
    have "security' = security\<lparr>client_records := (client_records security)[index := r]\<rparr>"
      using assms(3) Some valid by (simp add: mp_cache_security_import_client_hash_def import_fields_def r [simplified])
    moreover have "distinct (map client_id (client_records security))"
      using assms(1) by (simp add: security_inv_def)
    ultimately show ?thesis
      using map_of_list_update [of client_id "client_records security" index r] found by (simp add: clients_abs_def)
  next
    case None
    obtain st1 security1 where ec: "mp_cache_security_ensure_capacity (at 0 e) security = (st1, security1)"
      by (cases "mp_cache_security_ensure_capacity (at 0 e) security")
    have "st1 = MP_CACHE_SECURITY_STATUS_OK"
      using assms(3) None ec valid by (cases st1) (simp_all add: mp_cache_security_import_client_hash_def)
    then have "security' = security1\<lparr>client_records := client_records security1 @ [r]\<rparr>"
      using assms(3) None ec valid
      by (cases r) (auto simp: mp_cache_security_import_client_hash_def import_fields_append Let_def valid_id_fits)
    moreover have "client_id r \<notin> client_id ` set (client_records security)"
      by (rule iffD1 [OF find_record_None None])
    then have "map_of (map (\<lambda>r. (client_id r, r)) (client_records security)) (client_id r) = None"
      by (auto simp: map_of_eq_None_iff)
    ultimately show ?thesis
      using ensure_capacity_records [OF ec]
      by (auto simp: clients_abs_def map_add_def fun_eq_iff split: option.splits)
  qed
  then show "clients_abs security' = (clients_abs security)(client_id r \<mapsto> r)"
    "length (client_records security') \<le> length (client_records security) + 1"
    by auto
qed

lemma apply_record_effect:
  assumes inv: "store_inv store" "security_inv security" and enc: "record_encodable r"
    and ap: "apply_record e now r store security = (True, store', security')"
  shows "store_inv store' \<and> security_inv security' \<and>
    store_abs store' = foldl kv_effect (store_abs store) (record_kv now r) \<and>
    clients_abs security' = record_clients (clients_abs security) r"
proof (cases r)
  case (JSet key v t)
  show ?thesis
  proof (cases "t > now")
    case True
    with ap JSet have "store_kv.kv_step (at 0 e) store (Put key v t) = Some store'" "security' = security"
      by (auto split: prod.splits mp_cache_store_status.splits)
    with store_kv.kv_step_abs [OF inv(1), of "at 0 e" "Put key v t" store'] inv(2) JSet True show ?thesis by simp
  next
    case False
    with ap JSet inv show ?thesis by auto
  qed
next
  case (JDelete key)
  obtain st s where d: "mp_cache_store_delete store (Some key) = (st, s)"
    by (cases "mp_cache_store_delete store (Some key)")
  with ap JDelete inv(2) delete_result [OF inv(1) d] show ?thesis
    by auto
next
  case (JClient c)
  then have i: "mp_cache_security_import_client_hash (at 0 e) security (Some (client_id c)) (client_role c)
      (Some (token_hash c)) (token_active c) = (MP_CACHE_SECURITY_STATUS_OK, security')" "store' = store"
    using ap by (auto split: prod.splits mp_cache_security_status.splits)
  have ok: "client_ok c"
    using enc JClient by simp
  then have "security_inv security'"
    by (intro import_inv [OF inv(2) i(1)]) (simp add: client_ok_def)
  with import_client_effect(1) [OF inv(2) ok i(1)] i(2) inv(1) JClient show ?thesis by simp
next
  case JPurge
  with ap inv store_clear_facts [OF inv(1)] show ?thesis by auto
qed

lemma apply_records_effect:
  assumes "store_inv store" "security_inv security" "list_all record_encodable records"
    and "apply_records e n now records store security = (True, store', security')"
  shows "store_inv store' \<and> security_inv security' \<and>
    store_abs store' = foldl kv_effect (store_abs store) (concat (map (record_kv now) records)) \<and>
    clients_abs security' = foldl record_clients (clients_abs security) records"
  using assms
proof (induction records arbitrary: n store security)
  case (Cons r records)
  obtain b store1 security1 where step: "apply_record (at 1 (at n e)) now r store security = (b, store1, security1)"
    by (rule prod_cases3)
  have b: "b"
    using Cons.prems(4) step by (cases b) simp_all
  have enc: "record_encodable r" "list_all record_encodable records"
    using Cons.prems(3) by simp_all
  note effect = apply_record_effect [OF Cons.prems(1,2) enc(1) step [unfolded eqTrueI [OF b]]]
  have "apply_records e (Suc n) now records store1 security1 = (True, store', security')"
    using Cons.prems(4) step b by simp
  from Cons.IH [OF _ _ enc(2) this] effect show ?case
    by simp
qed simp

text \<open>When the records fit, each of them is applied.\<close>

fun record_size :: "journal_record \<Rightarrow> nat" where
  "record_size (JSet key v t) = triple_size (key, v, t)"
| "record_size _ = 0"

fun record_fits :: "mp_cache_store \<Rightarrow> journal_record \<Rightarrow> bool" where
  "record_fits store (JSet key v t) \<longleftrightarrow> triple_fits store (key, v, t)"
| "record_fits store _ \<longleftrightarrow> True"

fun client_records_of :: "journal_record \<Rightarrow> nat" where
  "client_records_of (JClient r) = 1"
| "client_records_of _ = 0"

lemma write_entry_size_le:
  assumes inv: "store_inv store"
    and w: "mp_cache_store_write_entry e store (Some key) (Some v) t = (MP_CACHE_STORE_STATUS_OK, store')"
  shows "store_size store' \<le> store_size store + (sizeof_entry + length key + 1 + length v)"
proof -
  let ?en = "\<lparr>entry_key = key, entry_value = v, entry_expires_at = t\<rparr>"
  let ?b = "bucket_index store key"
  let ?chain = "buckets store ! ?b"
  from write_entry_result [OF w] obtain count used where s: "store' = with_chain store ?b (chain_put ?en ?chain) count used"
    by auto
  have "chain_size (chain_put ?en ?chain) \<le> chain_size ?chain + entry_size ?en"
    using chain_put_size(1) [of ?en ?chain] by simp
  with with_chain_size(1) [OF bucket_index_less [OF inv, of key], of "chain_put ?en ?chain" count used]
  show ?thesis
    by (simp add: s entry_size_def)
qed

lemma delete_size_le:
  assumes inv: "store_inv store" and d: "mp_cache_store_delete store (Some key) = (st, store')"
  shows "store_size store' \<le> store_size store \<and> same_limits store store'"
proof (cases "store_lookup store key")
  case None
  with d show ?thesis by (simp add: store_delete_result same_limits_def)
next
  case (Some en)
  then have m: "chain_map (buckets store ! bucket_index store key) key = Some en"
    by (simp add: store_lookup_chain)
  have "store_size (removed_store store key en) \<le> store_size store"
    using with_chain_size(1) [OF bucket_index_less [OF inv, of key],
        of "chain_remove key (buckets store ! bucket_index store key)" "entry_count store - 1"
        "bytes_used store - mp_cache_entry_cost (Some en)"] chain_remove_size(1) [OF m]
    by (simp add: removed_store_def slot_unlink_chain with_chain_def store_size_def)
  with Some d show ?thesis
    by (auto simp: store_delete_result same_limits_def removed_store_def)
qed

lemma store_clear_size: "store_inv store \<Longrightarrow> store_size (mp_cache_store_clear store) = 0 \<and> same_limits store (mp_cache_store_clear store)"
  by (auto simp: store_inv_def store_size_def mp_cache_store_clear_def comp_def same_limits_def)

lemma import_client_succeeds:
  assumes "all_ok e" "security_inv security" "client_ok r" "length (client_records security) < MP_CACHE_MAX_CLIENTS"
  shows "\<exists>security'. mp_cache_security_import_client_hash e security (Some (client_id r)) (client_role r)
      (Some (token_hash r)) (token_active r) = (MP_CACHE_SECURITY_STATUS_OK, security')"
proof (cases "mp_cache_security_find_record security (Some (client_id r))")
  case (Some index)
  with assms(3) show ?thesis
    by (simp add: mp_cache_security_import_client_hash_def client_ok_def)
next
  case None
  with import_new_client [OF assms(1-3) _ assms(4)] find_record_None [of security "client_id r"] show ?thesis
    by blast
qed

lemma apply_record_succeeds:
  assumes "all_ok e" "0 \<le> now" "store_inv store" "security_inv security" "record_encodable r" "record_fits store r"
    and size: "store_size store + record_size r \<le> unat (store_memory_limit store)"
    and clients: "length (client_records security) + client_records_of r \<le> MP_CACHE_MAX_CLIENTS"
  shows "\<exists>store' security'. apply_record e now r store security = (True, store', security') \<and>
    store_size store' \<le> store_size store + record_size r \<and> same_limits store store' \<and>
    length (client_records security') \<le> length (client_records security) + client_records_of r"
proof (cases r)
  case (JSet key v t)
  show ?thesis
  proof (cases "t > now")
    case True
    have fits: "0 < length key" "length key \<le> unat (store_max_key_bytes store)" "length v \<le> unat (store_max_value_bytes store)"
      "store_size store + sizeof_entry + length key + 1 + length v \<le> unat (store_memory_limit store)"
      using assms(6) size JSet by simp_all
    from write_entry_succeeds [OF assms(3) all_ok_at [OF assms(1)] fits, of 0 t] obtain store'
      where w: "mp_cache_store_write_entry (at 0 e) store (Some key) (Some v) t = (MP_CACHE_STORE_STATUS_OK, store')"
      by blast
    then have "mp_cache_store_restore_entry (at 0 e) store (Some key) (Some v) t = (MP_CACHE_STORE_STATUS_OK, store')"
      using True assms(2) by (simp add: mp_cache_store_restore_entry_def)
    with JSet True write_entry_size_le [OF assms(3) w] write_limits [OF w] show ?thesis by simp
  next
    case False
    with JSet show ?thesis by (simp add: same_limits_def)
  qed
next
  case (JDelete key)
  obtain st s where d: "mp_cache_store_delete store (Some key) = (st, s)"
    by (cases "mp_cache_store_delete store (Some key)")
  with JDelete delete_size_le [OF assms(3) d] show ?thesis by simp
next
  case (JClient c)
  have ok: "client_ok c" and small: "length (client_records security) < MP_CACHE_MAX_CLIENTS"
    using assms(5) clients JClient by simp_all
  from import_client_succeeds [OF all_ok_at [OF assms(1)] assms(4) ok small, of 0] obtain security'
    where i: "mp_cache_security_import_client_hash (at 0 e) security (Some (client_id c)) (client_role c)
      (Some (token_hash c)) (token_active c) = (MP_CACHE_SECURITY_STATUS_OK, security')" by blast
  with JClient import_client_effect(2) [OF assms(4) ok i] show ?thesis by (simp add: same_limits_def)
next
  case JPurge
  with store_clear_size [OF assms(3)] show ?thesis by simp
qed

lemma apply_records_succeed:
  assumes "all_ok e" "0 \<le> now" "store_inv store" "security_inv security"
    and "list_all record_encodable records" "list_all (record_fits store) records"
    and "store_size store + sum_list (map record_size records) \<le> unat (store_memory_limit store)"
    and "length (client_records security) + sum_list (map client_records_of records) \<le> MP_CACHE_MAX_CLIENTS"
  shows "\<exists>store' security'. apply_records e n now records store security = (True, store', security')"
  using assms(3-)
proof (induction records arbitrary: n store security)
  case (Cons r records)
  have enc: "record_encodable r" "record_fits store r" "list_all record_encodable records"
    using Cons.prems(3,4) by simp_all
  have room: "store_size store + record_size r \<le> unat (store_memory_limit store)"
    "length (client_records security) + client_records_of r \<le> MP_CACHE_MAX_CLIENTS"
    using Cons.prems(5,6) by simp_all
  from apply_record_succeeds [OF all_ok_at [OF all_ok_at [OF assms(1)]] assms(2) Cons.prems(1,2) enc(1,2) room]
  obtain store1 security1 where step: "apply_record (at 1 (at n e)) now r store security = (True, store1, security1)"
    and size: "store_size store1 \<le> store_size store + record_size r" "same_limits store store1"
      "length (client_records security1) \<le> length (client_records security) + client_records_of r"
    by blast
  note effect = apply_record_effect [OF Cons.prems(1,2) enc(1) step]
  have "record_fits store1 x = record_fits store x" for x
    using size(2) by (cases x) (simp_all add: same_limits_def)
  then have fits1: "list_all (record_fits store1) records"
    using Cons.prems(4) by (simp add: list_all_iff)
  have room1: "store_size store1 + sum_list (map record_size records) \<le> unat (store_memory_limit store1)"
    "length (client_records security1) + sum_list (map client_records_of records) \<le> MP_CACHE_MAX_CLIENTS"
    using Cons.prems(5,6) size by (simp_all add: same_limits_def)
  from Cons.IH [OF _ _ enc(3) fits1 room1, of "Suc n"] effect step show ?case
    by simp
qed simp


section \<open>Checkpoints and recovery\<close>

text \<open>The journal is a file of its own.\<close>

definition paths_distinct :: "mp_cache_storage \<Rightarrow> bool" where
  "paths_distinct storage \<longleftrightarrow> storage_journal_path storage \<noteq> storage_checkpoint_path storage \<and>
     (\<forall>e. storage_journal_path storage \<noteq> temp_path e (storage_checkpoint_path storage))"

lemma remove_path_contents:
  assumes "mp_cache_fs_remove_path_if_exists e fs (Some path) = (r, fs')"
  shows "r = Inr u \<Longrightarrow> map_of fs' path = None"
    and "path' \<noteq> path \<Longrightarrow> file_contents fs' path' = file_contents fs path'"
    and "r = Inl err \<Longrightarrow> fs' = fs"
  using assms
  by (auto simp: mp_cache_fs_remove_path_if_exists_def posix_unlink_def file_contents_def delete_conv'
      split: if_splits option.splits node.splits errno.splits)

lemma serialized_data:
  assumes "mp_cache_storage_serialize_state e store security now empty_buffer = (True, buffer)"
  shows "buffer_data buffer = Some (state_bytes store security now)"
  using serialize_state_result [OF assms buffer_inv_empty] buffer_data_Some [of buffer]
  by (simp add: state_bytes_def be_bytes_def upt_rec)

lemma checkpoint_result:
  assumes "mp_cache_storage_checkpoint e storage fs store security now = (True, fs')" "paths_distinct storage"
  shows "map_of fs' (storage_journal_path storage) = None"
    and "\<exists>nonce. length nonce = 16 \<and> length (state_bytes store security now) \<le> unat (max_packet_bytes storage) \<and>
      file_contents fs' (storage_checkpoint_path storage) =
        Some (packet_bytes storage MP_CACHE_STORAGE_STATE_MAGIC nonce (state_bytes store security now))"
    and "path' \<notin> {storage_journal_path storage, storage_checkpoint_path storage,
        temp_path e (storage_checkpoint_path storage)} \<Longrightarrow> file_contents fs' path' = file_contents fs path'"
proof -
  from assms(1) obtain buffer mac fs1
    where ser: "mp_cache_storage_serialize_state (at 0 e) store security now empty_buffer = (True, buffer)"
      and wr: "mp_cache_storage_write_packet_file (at 1 e) storage fs (storage_checkpoint_path storage)
        MP_CACHE_STORAGE_STATE_MAGIC (buffer_data buffer) = (Inr mac, fs1)"
      and remove: "mp_cache_fs_remove_path_if_exists (at 2 e) fs1 (Some (storage_journal_path storage)) = (Inr (), fs')"
    by (auto simp: mp_cache_storage_checkpoint_def split: prod.splits bool.splits sum.splits)
  note written = write_packet_file_result [OF wr [unfolded serialized_data [OF ser]]]
  show "map_of fs' (storage_journal_path storage) = None"
    using remove_path_contents(1) [OF remove] by simp
  have cp: "file_contents fs' (storage_checkpoint_path storage) = file_contents fs1 (storage_checkpoint_path storage)"
    by (rule remove_path_contents(2) [OF remove]) (use assms(2) in \<open>auto simp: paths_distinct_def\<close>)
  show "\<exists>nonce. length nonce = 16 \<and> length (state_bytes store security now) \<le> unat (max_packet_bytes storage) \<and>
      file_contents fs' (storage_checkpoint_path storage) =
        Some (packet_bytes storage MP_CACHE_STORAGE_STATE_MAGIC nonce (state_bytes store security now))"
    unfolding cp using written(1) [OF refl] by blast
  show "file_contents fs' path' = file_contents fs path'"
    if "path' \<notin> {storage_journal_path storage, storage_checkpoint_path storage, temp_path e (storage_checkpoint_path storage)}"
    using remove_path_contents(2) [OF remove, of path'] written(3) [of path'] that
    by (simp add: temp_path_def env_simps)
qed

text \<open>
  The file systems reached from a checkpoint of a table and registry at a time by successful appends
  to the journal, with the records appended.
\<close>

inductive persisted :: "mp_cache_storage \<Rightarrow> mp_cache_store \<Rightarrow> mp_cache_security \<Rightarrow> int \<Rightarrow> journal_record list \<Rightarrow> filesystem \<Rightarrow> bool"
  for storage store security now where
  persisted_checkpoint:
    "mp_cache_storage_checkpoint e storage fs store security now = (True, fs') \<Longrightarrow>
       persisted storage store security now [] fs'"
| persisted_append:
    "persisted storage store security now records fs \<Longrightarrow> record_encodable r \<Longrightarrow>
       append_record e storage fs r = (True, fs') \<Longrightarrow> persisted storage store security now (records @ [r]) fs'"

lemma persisted_files:
  assumes "persisted storage store security now records fs" "paths_distinct storage"
  shows "\<exists>nonce items. length nonce = 16 \<and> length (state_bytes store security now) \<le> unat (max_packet_bytes storage) \<and>
    file_contents fs (storage_checkpoint_path storage) =
      Some (packet_bytes storage MP_CACHE_STORAGE_STATE_MAGIC nonce (state_bytes store security now)) \<and>
    list_all (item_ok storage) items \<and> map (\<lambda>x. snd (snd x)) items = records \<and>
    (if items = [] then map_of fs (storage_journal_path storage) = None
     else file_contents fs (storage_journal_path storage) = Some (journal_bytes storage items))"
  using assms(1)
proof (induction rule: persisted.induct)
  case (persisted_checkpoint e fs fs')
  with checkpoint_result(1,2) [OF persisted_checkpoint assms(2)] show ?case
    by (auto intro: exI [of _ "[]"])
next
  case (persisted_append records fs r e fs')
  then obtain nonce items where ih: "length nonce = 16" "length (state_bytes store security now) \<le> unat (max_packet_bytes storage)"
    "file_contents fs (storage_checkpoint_path storage) =
      Some (packet_bytes storage MP_CACHE_STORAGE_STATE_MAGIC nonce (state_bytes store security now))"
    "list_all (item_ok storage) items" "map (\<lambda>x. snd (snd x)) items = records"
    "if items = [] then map_of fs (storage_journal_path storage) = None
     else file_contents fs (storage_journal_path storage) = Some (journal_bytes storage items)"
    by blast
  from append_record_result(1) [OF persisted_append.hyps(3,2)] obtain n2 t2
    where new: "length n2 = 16" "length (journal_payload t2 r) \<le> unat (max_packet_bytes storage)"
      "file_contents fs' (storage_journal_path storage) =
        Some ((case file_contents fs (storage_journal_path storage) of None \<Rightarrow> [] | Some bs \<Rightarrow> bs) @
              packet_bytes storage MP_CACHE_STORAGE_JOURNAL_MAGIC n2 (journal_payload t2 r))"
    by blast
  have "file_contents fs' (storage_checkpoint_path storage) = file_contents fs (storage_checkpoint_path storage)"
    by (rule append_record_result(2) [OF persisted_append.hyps(3,2)]) (use assms(2) in \<open>auto simp: paths_distinct_def\<close>)
  moreover have "file_contents fs' (storage_journal_path storage) = Some (journal_bytes storage (items @ [(n2, t2, r)]))"
    using new(3) ih(6) by (auto simp: journal_bytes_def file_contents_def split: if_splits)
  ultimately show ?case
    using ih new(1,2) persisted_append.hyps(2)
    by (intro exI [of _ nonce] exI [of _ "items @ [(n2, t2, r)]"]) simp
qed

lemma open_read_ok:
  "all_ok e \<Longrightarrow> file_contents fs path = Some bs \<Longrightarrow> posix_open_read (ok k e) fs path = Inr bs"
  by (simp add: env_simps open_read_contents)

lemma read_packet_file_bytes:
  assumes "all_ok e" "length magic = 8" "length nonce = 16" "length payload \<le> unat (max_packet_bytes storage)"
    and "length payload < 2 ^ 32" "file_contents fs path = Some (packet_bytes storage magic nonce payload)"
  shows "mp_cache_storage_read_packet_file e storage fs path magic = Packet payload (packet_mac storage magic nonce payload)"
  using read_packet_bytes [OF all_ok_at [OF assms(1)] assms(2-5), of 1 "[]"] open_read_ok [OF assms(1,6), of 0]
  by (simp add: mp_cache_storage_read_packet_file_def)

lemma cleared_registry:
  assumes "security_inv security"
  shows "security_inv (mp_cache_security_clear_clients security)"
    "client_records (mp_cache_security_clear_clients security) = []"
  using assms by (simp_all add: mp_cache_security_clear_clients_def security_inv_def)

lemma cleared_store:
  assumes "store_inv store" "same_limits store' store"
  shows "store_inv (mp_cache_store_clear store)" "store_size (mp_cache_store_clear store) = 0"
    "same_limits store' (mp_cache_store_clear store)" "store_abs (mp_cache_store_clear store) = Map.empty"
  using store_clear_facts [OF assms(1)] store_clear_size [OF assms(1)] assms(2) by (auto simp: same_limits_def)

lemma load_state_recovers:
  assumes e: "all_ok e" and now': "0 \<le> now'"
    and src: "store_inv store" "state_encodable store" "security_inv security"
    and dst: "store_inv store0" "same_limits store store0" "security_inv security0"
    and size: "length (state_bytes store security now) < 2 ^ 32" "length nonce = 16"
      "length (state_bytes store security now) \<le> unat (max_packet_bytes storage)"
    and cp: "file_contents fs (storage_checkpoint_path storage) =
      Some (packet_bytes storage MP_CACHE_STORAGE_STATE_MAGIC nonce (state_bytes store security now))"
  shows "\<exists>store1 security1. store_inv store1 \<and> same_limits store store1 \<and> store_size store1 \<le> store_size store \<and>
    store_abs store1 = live_map (max now now') (store_abs store) \<and> security_inv security1 \<and>
    client_records security1 = client_records security \<and>
    mp_cache_storage_load_state e storage fs store0 security0 now' =
      (case posix_open_read (ok 2 e) fs (storage_journal_path storage) of
         Inl err \<Rightarrow> (err = ENOENT, store1, security1)
       | Inr journal \<Rightarrow> replay_journal (at 3 e) 0 storage journal now' store1 security1)"
proof -
  obtain store1 security1 where d: "mp_cache_storage_deserialize_state (at 1 e) (state_bytes store security now)
      (mp_cache_store_clear store0) (mp_cache_security_clear_clients security0) now' = (True, store1, security1)"
    "store_inv store1" "same_limits store store1" "store_size store1 \<le> store_size store"
    "store_abs store1 = live_map (max now now') (store_abs store)" "security_inv security1"
    "client_records security1 = client_records security"
    using deserialize_state_bytes [OF all_ok_at [OF e] now' src cleared_store [OF dst(1,2)] cleared_registry [OF dst(3)]]
    by blast
  have r: "mp_cache_storage_read_packet_file (at 0 e) storage fs (storage_checkpoint_path storage) MP_CACHE_STORAGE_STATE_MAGIC =
      Packet (state_bytes store security now) (packet_mac storage MP_CACHE_STORAGE_STATE_MAGIC nonce (state_bytes store security now))"
    by (rule read_packet_file_bytes [OF all_ok_at [OF e] _ size(2,3,1) cp]) simp
  have "mp_cache_storage_load_state e storage fs store0 security0 now' =
      (case posix_open_read (ok 2 e) fs (storage_journal_path storage) of
         Inl err \<Rightarrow> (err = ENOENT, store1, security1)
       | Inr journal \<Rightarrow> replay_journal (at 3 e) 0 storage journal now' store1 security1)"
    unfolding mp_cache_storage_load_state_def Let_def by (simp only: r d(1) packet_read.case prod.case bool.case)
  with d show ?thesis by blast
qed


section \<open>Calls that succeed\<close>

lemma build_from_zero:
  assumes "all_ok e" "urandom e = (\<lambda>_. [ReadBytes (replicate 32 0)])"
    and "length payload \<le> unat (max_packet_bytes storage)" "length payload < 2 ^ 63" "length magic = 8"
  shows "\<exists>mac packet. mp_cache_storage_build_packet e storage magic (Some payload) empty_buffer = (Inr mac, packet)"
proof -
  have "mp_cache_random_bytes (at 0 e) MP_CACHE_NONCE_SIZE = Inr (replicate 16 0)"
    using assms(1,2) by (simp add: mp_cache_random_bytes_def env_simps MP_CACHE_NONCE_SIZE_def)
  from build_packet_succeeds [OF assms(1) this assms(3,5,4)] show ?thesis by blast
qed

lemma urandom_const_at: "urandom e = (\<lambda>_. x) \<Longrightarrow> urandom (at k e) = (\<lambda>_. x)"
  by (simp add: at_def)

lemma urandom_zero_env: "urandom zero_env = (\<lambda>_. [ReadBytes (replicate 32 0)])"
  by (simp add: zero_env_def)

lemma write_packet_file_succeeds:
  assumes e: "all_ok e" "urandom e = (\<lambda>_. [ReadBytes (replicate 32 0)])"
    and parent: "mp_cache_fs_ensure_parent_directory (at 0 e) fs (Some path) = (Inr (), fs)"
    and path: "length (temp_path e path) < MP_CACHE_PATH_CAP" "map_of fs (temp_path e path) = None" "map_of fs path \<notin> {Some Directory, Some Socket}"
    and payload: "length payload \<le> unat (max_packet_bytes storage)" "length payload < 2 ^ 63" "length magic = 8"
  shows "\<exists>mac fs'. mp_cache_storage_write_packet_file e storage fs path magic (Some payload) = (Inr mac, fs') \<and>
    (\<forall>p. p \<noteq> path \<longrightarrow> map_of fs' p = map_of fs p)"
proof -
  obtain mac packet where b: "mp_cache_storage_build_packet (at 1 e) storage magic (Some payload) empty_buffer = (Inr mac, packet)"
    using build_from_zero [OF all_ok_at [OF e(1)] urandom_const_at [OF e(2)] payload] by blast
  have cap: "mp_cache_storage_format_path MP_CACHE_PATH_CAP (temp_path e path) = Inr (temp_path e path)"
    using path(1) by (simp add: mp_cache_storage_format_path_def MP_CACHE_PATH_CAP_def)
  show ?thesis
    using e(1) path(2,3)
    by (simp add: mp_cache_storage_write_packet_file_def parent b [simplified] cap posix_open_write_def
        mp_cache_storage_write_all_def flush_and_close_def posix_write_def posix_rename_def env_simps update_conv' delete_conv')
qed

lemma append_record_succeeds:
  assumes e: "all_ok e" "urandom e = (\<lambda>_. [ReadBytes (replicate 32 0)])"
    and parent: "mp_cache_fs_ensure_parent_directory (at 0 (at 2 e)) fs (Some (storage_journal_path storage)) = (Inr (), fs)"
    and path: "map_of fs (storage_journal_path storage) \<notin> {Some Directory, Some Socket}"
    and payload: "32 + length key + length v \<le> unat (max_packet_bytes storage)"
      "record_encodable (JSet key v t)"
  shows "\<exists>fs'. append_record e storage fs (JSet key v t) = (True, fs')"
proof -
  define recorded_at where "recorded_at = clock e [1]"
  let ?p = "journal_payload recorded_at (JSet key v t)"
  define head where "head = [U32 MP_CACHE_STORAGE_JOURNAL_VERSION, U32 1, U64 (u64_of_int64 recorded_at)]"
  define tail where "tail = [U32 (of_nat (length key)), U32 (of_nat (length v)), U64 (u64_of_int64 t), Raw key, Raw v]"
  have p: "?p = fields_bytes head @ fields_bytes tail"
    by (simp add: journal_payload_def head_def tail_def)
  have small: "length ?p < 2 ^ 32"
    by (rule journal_payload_length [OF payload(2)])
  have fits: "length ?p \<le> unat (max_packet_bytes storage)"
    using payload(1) by (simp add: p head_def tail_def)
  have len: "length (fields_bytes head) + length (fields_bytes tail) \<le> SIZE_MAX"
    using small unfolding p by (simp add: SIZE_MAX_def)
  obtain b1 where 1: "append_fields (at 0 (at 0 e)) empty_buffer head = (Inr (), b1)"
    using append_fields_succeeds [OF all_ok_at [OF all_ok_at [OF e(1)]] buffer_inv_empty, of head 0 0] len by auto
  note f1 = append_fields_result [OF 1 buffer_inv_empty]
  obtain b2 where 2: "append_fields (at 1 (at 0 e)) b1 tail = (Inr (), b2)"
    using append_fields_succeeds [OF all_ok_at [OF all_ok_at [OF e(1)]] conjunct1 [OF f1], of tail 1 0] f1 len by auto
  note f2 = append_fields_result [OF 2 conjunct1 [OF f1]]
  have "buffer_inv b2" "buffer_bytes b2 = ?p"
    using f1 f2 by (simp_all add: p)
  then have data: "buffer_data b2 = Some ?p"
    using buffer_data_Some [of b2] by (simp add: journal_payload_def be_bytes_def upt_rec)
  have build: "mp_cache_storage_build_journal_payload (at 0 e) MP_CACHE_JOURNAL_OP_SET recorded_at key v
      (u64_of_int64 t) 0 empty_buffer = (True, b2)"
    using 1 2 by (simp add: mp_cache_storage_build_journal_payload_def head_def [symmetric] tail_def [symmetric]
        del: append_fields.simps)
  obtain mac packet where pk: "mp_cache_storage_build_packet (at 1 (at 2 e)) storage MP_CACHE_STORAGE_JOURNAL_MAGIC (Some ?p)
      empty_buffer = (Inr mac, packet)"
    using build_from_zero [OF all_ok_at [OF all_ok_at [OF e(1)]] urandom_const_at [OF urandom_const_at [OF e(2)]] fits,
        of MP_CACHE_STORAGE_JOURNAL_MAGIC 1 2] small by auto
  show ?thesis
    using e(1) path
    by (simp add: mp_cache_storage_append_set_def append_journal_def recorded_at_def [symmetric, simplified] build [simplified] data mp_cache_storage_append_packet_def
        parent pk [simplified] posix_open_append_def mp_cache_storage_write_all_def flush_and_close_def env_simps
        split: option.split)
qed

definition sample_fs :: filesystem where
  "sample_fs = [(''/d'', Directory), (''/d/exports'', Directory)]"

lemma sample_parent:
  assumes "all_ok e"
    and "map_of fs ''/d'' = Some Directory" "path = ''/d/state'' \<or> path = ''/d/journal''"
  shows "mp_cache_fs_ensure_parent_directory e fs (Some path) = (Inr (), fs)"
proof -
  have cut: "strrchr path (CHR ''/'') = Some (''/d'', drop 3 path)" "path \<noteq> []" "length path < 4096"
    using assms(3) by (auto simp: strrchr_def strchr_def)
  have "[1..<length ''/d''] = [1]"
    by simp
  then have "mp_cache_fs_ensure_directory e fs (Some ''/d'') = (Inr (), fs)"
    using assms(1,2)
    by (simp add: mp_cache_fs_ensure_directory_def MP_CACHE_PATH_CAP_def mp_cache_fs_mkdir_single_def env_simps)
  with cut show ?thesis
    by (simp add: mp_cache_fs_ensure_parent_directory_def MP_CACHE_PATH_CAP_def)
qed


text \<open>Loading what a checkpoint and appends have left.\<close>

lemma load_persisted:
  assumes files: "persisted storage store security now records fs" "paths_distinct storage"
    and e: "all_ok e" "0 \<le> now'"
    and src: "store_inv store" "state_encodable store" "security_inv security"
      "length (state_bytes store security now) < 2 ^ 32"
    and dst: "store_inv store0" "same_limits store store0" "security_inv security0"
    and fits: "list_all (record_fits store) records"
      "store_size store + sum_list (map record_size records) \<le> unat (store_memory_limit store)"
      "length (client_records security) + sum_list (map client_records_of records) \<le> MP_CACHE_MAX_CLIENTS"
  shows "\<exists>store' security'.
    mp_cache_storage_load_state e storage fs store0 security0 now' = (True, store', security') \<and>
    store_inv store' \<and> security_inv security' \<and>
    store_abs store' =
      foldl kv_effect (live_map (max now now') (store_abs store)) (concat (map (record_kv now') records)) \<and>
    clients_abs security' = foldl record_clients (clients_abs security) records"
proof -
  obtain nonce items where f: "length nonce = 16" "length (state_bytes store security now) \<le> unat (max_packet_bytes storage)"
    "file_contents fs (storage_checkpoint_path storage) =
      Some (packet_bytes storage MP_CACHE_STORAGE_STATE_MAGIC nonce (state_bytes store security now))"
    "list_all (item_ok storage) items" "map (\<lambda>x. snd (snd x)) items = records"
    "if items = [] then map_of fs (storage_journal_path storage) = None
     else file_contents fs (storage_journal_path storage) = Some (journal_bytes storage items)"
    using persisted_files [OF files] by blast
  have enc: "list_all record_encodable records"
    using f(4,5) by (fastforce simp: list_all_iff)
  obtain store1 security1 where l: "store_inv store1" "same_limits store store1" "store_size store1 \<le> store_size store"
    "store_abs store1 = live_map (max now now') (store_abs store)" "security_inv security1"
    "client_records security1 = client_records security"
    and load: "mp_cache_storage_load_state e storage fs store0 security0 now' =
      (case posix_open_read (ok 2 e) fs (storage_journal_path storage) of
         Inl err \<Rightarrow> (err = ENOENT, store1, security1)
       | Inr journal \<Rightarrow> replay_journal (at 3 e) 0 storage journal now' store1 security1)"
    using load_state_recovers [OF e src(1-3) dst src(4) f(1-3)] by blast
  have "record_fits store1 x = record_fits store x" for x
    using l(2) by (cases x) (simp_all add: same_limits_def)
  then obtain store' security' where run: "apply_records (at 3 e) 0 now' records store1 security1 = (True, store', security')"
    using apply_records_succeed [OF all_ok_at [OF e(1)] e(2) l(1,5) enc, of 3 0] fits l(2,3,6)
    by (auto simp: list_all_iff same_limits_def)
  note effect = apply_records_effect [OF l(1,5) enc run]
  have "mp_cache_storage_load_state e storage fs store0 security0 now' = (True, store', security')"
  proof (cases "items = []")
    case True
    with load run f(5,6) show ?thesis
      by (auto simp: posix_open_read_def)
  next
    case False
    then have "posix_open_read (ok 2 e) fs (storage_journal_path storage) = Inr (journal_bytes storage items)"
      using f(6) open_read_ok [OF e(1)] by simp
    with load run f(5) replay_items [OF all_ok_at [OF e(1)] f(4), of 3 0 "[]" now' store1 security1] show ?thesis
      by simp
  qed
  with effect l(4,6) show ?thesis
    by (simp add: clients_abs_def)
qed


section \<open>Properties\<close>


lemma sample_paths: "paths_distinct sample_storage"
  by (simp add: paths_distinct_def sample_storage_def temp_path_def)

lemma sample_state_length: "length (state_bytes sample_store sample_security 100) = 86"
  by (simp add: state_bytes_def live_entries_def sample_store_def sample_security_def entry_triple_def client_tuple_def
      MP_CACHE_TOKEN_HASH_SIZE_def)

lemma sample_encodable: "state_encodable sample_store"
  by (simp add: state_encodable_def sample_store_def store_length_def is_int64_def)

lemma sample_checkpoint:
  assumes e: "all_ok e" "urandom e = (\<lambda>_. [ReadBytes (replicate 32 0)])" "getpid e = 1"
  shows "\<exists>fs'. mp_cache_storage_checkpoint e sample_storage sample_fs sample_store sample_security 100 = (True, fs') \<and>
     map_of fs' ''/d'' = Some Directory \<and> map_of fs' ''/d/exports'' = Some Directory \<and>
     (\<forall>p. p \<noteq> ''/d/state'' \<longrightarrow> map_of fs' p = map_of sample_fs p)"
proof -
  have fs: "map_of sample_fs ''/d'' = Some Directory" "map_of sample_fs ''/d/exports'' = Some Directory"
    "map_of sample_fs ''/d/state'' = None" "map_of sample_fs ''/d/journal'' = None"
    "map_of sample_fs (temp_path (at 1 e) ''/d/state'') = None"
    by (simp_all add: sample_fs_def temp_path_def)
  obtain buffer where ser: "mp_cache_storage_serialize_state (at 0 e) sample_store sample_security 100 empty_buffer = (True, buffer)"
    using serialize_state_succeeds [OF all_ok_at [OF e(1)], of sample_store sample_security 100 0]
    by (auto simp: sample_state_length SIZE_MAX_def)
  have short: "length (temp_path (at 1 e) ''/d/state'') < MP_CACHE_PATH_CAP"
    by (simp add: temp_path_def env_simps e(3) print_int_def print_nat.simps MP_CACHE_PATH_CAP_def)
  obtain mac fs1 where w: "mp_cache_storage_write_packet_file (at 1 e) sample_storage sample_fs ''/d/state''
      MP_CACHE_STORAGE_STATE_MAGIC (Some (state_bytes sample_store sample_security 100)) = (Inr mac, fs1)"
    and others: "\<forall>p. p \<noteq> ''/d/state'' \<longrightarrow> map_of fs1 p = map_of sample_fs p"
    using write_packet_file_succeeds [OF all_ok_at [OF e(1)] urandom_const_at [OF e(2)]
        sample_parent [OF all_ok_at [OF all_ok_at [OF e(1)]] fs(1)] short fs(5),
        of "state_bytes sample_store sample_security 100" sample_storage MP_CACHE_STORAGE_STATE_MAGIC]
    by (auto simp: fs sample_state_length sample_storage_def)
  have cp: "storage_checkpoint_path sample_storage = ''/d/state''" "storage_journal_path sample_storage = ''/d/journal''"
    by (simp_all add: sample_storage_def)
  have "mp_cache_fs_remove_path_if_exists (at 2 e) fs1 (Some ''/d/journal'') = (Inr (), fs1)"
    using others fs(4) by (simp add: mp_cache_fs_remove_path_if_exists_def posix_unlink_def)
  then have "mp_cache_storage_checkpoint e sample_storage sample_fs sample_store sample_security 100 = (True, fs1)"
    using ser w by (simp add: mp_cache_storage_checkpoint_def serialized_data [OF ser] cp)
  with others fs show ?thesis by auto
qed


text \<open>
  Property C38. A journal whose last append was cut short is rejected as a whole: when the file ends with
  a proper, non-empty prefix of a packet, loading fails, whatever the checkpoint holds and however many
  complete records precede it.
\<close>

theorem torn_journal_rejected:
  assumes "all_ok e" "list_all (item_ok storage) items" "item_ok storage (nonce, recorded_at, r)"
    and "0 < k" "k < length (packet_bytes storage MP_CACHE_STORAGE_JOURNAL_MAGIC nonce (journal_payload recorded_at r))"
    and "file_contents fs (storage_journal_path storage) = Some (journal_bytes storage items @
      take k (packet_bytes storage MP_CACHE_STORAGE_JOURNAL_MAGIC nonce (journal_payload recorded_at r)))"
  shows "fst (mp_cache_storage_load_state e storage fs store security now) = False"
proof -
  let ?cut = "take k (packet_bytes storage MP_CACHE_STORAGE_JOURNAL_MAGIC nonce (journal_payload recorded_at r))"
  have torn: "fst (replay_journal (at 3 e) n storage ?cut now store1 security1) = False" for n store1 security1
  proof -
    have "fst (mp_cache_storage_read_packet_stream (at 0 (at n (at 3 e))) storage ?cut MP_CACHE_STORAGE_JOURNAL_MAGIC) = PacketError EINVAL"
      by (rule read_packet_truncated)
        (use assms(1,3-5) journal_payload_length [of r recorded_at] in \<open>simp_all add: env_simps\<close>)
    then show ?thesis
      by (subst replay_journal.simps) (auto split: prod.splits packet_read.splits)
  qed
  have replay: "fst (replay_journal (at 3 e) 0 storage (journal_bytes storage items @ ?cut) now store1 security1) = False" for store1 security1
    using torn replay_items [OF all_ok_at [OF assms(1)] assms(2), of 3 0 ?cut now store1 security1]
    by (auto split: prod.splits bool.splits)
  have "posix_open_read (ok 2 e) fs (storage_journal_path storage) = Inr (journal_bytes storage items @ ?cut)"
    by (rule open_read_ok [OF assms(1,6)])
  with replay show ?thesis
    by (auto simp: mp_cache_storage_load_state_def Let_def split: packet_read.splits prod.splits bool.splits)
qed

theorem torn_journal_rejected_witness:
  "let packet = packet_bytes sample_storage MP_CACHE_STORAGE_JOURNAL_MAGIC (replicate 16 1) (journal_payload 100 JPurge);
       fs = [(''/d/journal'', RegularFile (take 70 packet))]
   in fst (mp_cache_storage_load_state good_env sample_storage fs sample_store sample_security 200) = False"
proof -
  have "length (journal_payload 100 JPurge) = 16"
    by (simp add: journal_payload_def)
  then have "70 < length (packet_bytes sample_storage MP_CACHE_STORAGE_JOURNAL_MAGIC (replicate 16 1) (journal_payload 100 JPurge))"
    "item_ok sample_storage (replicate 16 1, 100, JPurge)"
    by (simp_all add: length_packet_bytes sample_storage_def)
  then show ?thesis
    using torn_journal_rejected [OF all_ok_good_env, of sample_storage "[]" "replicate 16 1" 100 JPurge 70]
    by (simp add: Let_def file_contents_def journal_bytes_def sample_storage_def)
qed

text \<open>
  Property C39. Replay skips a write that has expired in the meantime but keeps the older value it had
  replaced: two recorded writes of one key, the second with the shorter lifetime, leave the first value
  readable after a restart although it had been overwritten.
\<close>

theorem expired_overwrite_resurrected:
  assumes e: "all_ok e" "0 \<le> now" and t: "t2 \<le> now" "now < t1"
    and items: "item_ok storage (n1, r1, JSet key v1 t1)" "item_ok storage (n2, r2, JSet key v2 t2)"
    and inv: "store_inv store" "security_inv security"
    and fits: "record_fits store (JSet key v1 t1)" "store_size store + record_size (JSet key v1 t1) \<le> unat (store_memory_limit store)"
      "length (client_records security) \<le> MP_CACHE_MAX_CLIENTS"
  shows "\<exists>store'. replay_journal e 0 storage
      (journal_bytes storage [(n1, r1, JSet key v1 t1), (n2, r2, JSet key v2 t2)]) now store security = (True, store', security) \<and>
    store_abs store' key = Some (v1, t1)"
proof -
  have enc: "record_encodable (JSet key v1 t1)" "record_encodable (JSet key v2 t2)"
    using items by simp_all
  obtain store' security' where step: "apply_record (at 1 (at 0 e)) now (JSet key v1 t1) store security = (True, store', security')"
    using apply_record_succeeds [OF all_ok_at [OF all_ok_at [OF e(1)]] e(2) inv enc(1) fits(1,2), of 1 0] fits(3) by auto
  then have "security' = security"
    using t by (auto split: prod.splits mp_cache_store_status.splits)
  moreover have "store_abs store' key = Some (v1, t1)"
    using apply_record_effect [OF inv enc(1) step] t by simp
  moreover have "replay_journal e 0 storage
      (journal_bytes storage [(n1, r1, JSet key v1 t1), (n2, r2, JSet key v2 t2)]) now store security = (True, store', security')"
    using replay_items [OF e(1), of storage "[(n1, r1, JSet key v1 t1), (n2, r2, JSet key v2 t2)]" 0 "[]" now store security]
      items step t by simp
  ultimately show ?thesis by auto
qed

theorem expired_overwrite_resurrected_witness:
  "\<exists>store'. replay_journal good_env 0 sample_storage
      (journal_bytes sample_storage [(replicate 16 1, 100, JSet [7] [8] 900), (replicate 16 2, 110, JSet [7] [9] 150)]) 200
      sample_store sample_security = (True, store', sample_security) \<and>
    store_abs store' [7] = Some ([8], 900)"
  by (rule expired_overwrite_resurrected [OF all_ok_good_env])
    (simp_all add: sample_store_inv sample_security_inv,
     simp_all add: sample_storage_def journal_payload_def is_int64_def sample_store_def sample_security_def sizeof_entry_def
       store_size_def entry_size_def MP_CACHE_MAX_CLIENTS_def)





lemma for_each_count:
  "mp_cache_store_for_each store (mp_cache_count_active_entry now) 0 = (True, length (live_entries now store))"
  by (simp add: mp_cache_store_for_each_def visit_entries_list count_active live_entries_def)

lemma export_state_result:
  assumes "mp_cache_storage_export_state e storage fs store security now = (Some result, fs')"
  shows "export_path result = export_file_name e storage now" "length (export_path result) < MP_CACHE_PATH_CAP"
    and "export_entry_count result = length (live_entries now store)"
    and "export_client_count result = length (client_records security)"
    and "\<exists>nonce. length nonce = 16 \<and> length (state_bytes store security now) \<le> unat (max_packet_bytes storage) \<and>
      mp_cache_hex_encode (packet_mac storage MP_CACHE_STORAGE_EXPORT_MAGIC nonce (state_bytes store security now)) 65 =
        Inr (digest_hex result) \<and>
      file_contents fs' (export_path result) =
        Some (packet_bytes storage MP_CACHE_STORAGE_EXPORT_MAGIC nonce (state_bytes store security now))"
proof -
  from assms obtain payload path fs1 mac hex
    where ser: "mp_cache_storage_serialize_state (at 2 e) store security now empty_buffer = (True, payload)"
      and path: "mp_cache_storage_format_path MP_CACHE_PATH_CAP (export_file_name e storage now) = Inr path"
      and wr: "mp_cache_storage_write_packet_file (at 3 e) storage fs1 path MP_CACHE_STORAGE_EXPORT_MAGIC (buffer_data payload) = (Inr mac, fs')"
      and hex: "mp_cache_hex_encode mac (MP_CACHE_TOKEN_HASH_SIZE * 2 + 1) = Inr hex"
      and result: "result = \<lparr>export_path = path, digest_hex = hex, export_entry_count = length (live_entries now store),
        export_client_count = mp_cache_security_client_count security\<rparr>"
    by (auto simp: mp_cache_storage_export_state_def for_each_count Let_def
        split: sum.splits prod.splits bool.splits if_splits)
  show "export_path result = export_file_name e storage now" "length (export_path result) < MP_CACHE_PATH_CAP"
    using path by (auto simp: result mp_cache_storage_format_path_def split: if_splits)
  show "export_entry_count result = length (live_entries now store)"
    "export_client_count result = length (client_records security)"
    by (simp_all add: result mp_cache_security_client_count_def)
  show "\<exists>nonce. length nonce = 16 \<and> length (state_bytes store security now) \<le> unat (max_packet_bytes storage) \<and>
      mp_cache_hex_encode (packet_mac storage MP_CACHE_STORAGE_EXPORT_MAGIC nonce (state_bytes store security now)) 65 =
        Inr (digest_hex result) \<and>
      file_contents fs' (export_path result) =
        Some (packet_bytes storage MP_CACHE_STORAGE_EXPORT_MAGIC nonce (state_bytes store security now))"
    using write_packet_file_result(1) [OF wr [unfolded serialized_data [OF ser]] refl] hex
    by (auto simp: result MP_CACHE_TOKEN_HASH_SIZE_def)
qed

lemma resolve_export_path:
  assumes "all_ok e" "strstr path ''../'' = None" "strstr path ''/..'' = None" "length path < MP_CACHE_PATH_CAP"
    and "starts_with path (storage_export_directory storage)" "file_contents fs path \<noteq> None"
  shows "mp_cache_storage_resolve_import_path e storage fs path MP_CACHE_PATH_CAP = Inr path"
  using assms
  by (simp add: mp_cache_storage_resolve_import_path_def mp_cache_storage_format_path_def env_simps MP_CACHE_PATH_CAP_def)

lemma scratch_store:
  assumes "all_ok e" "store_inv store" "store_bucket_count store < 2 ^ 32"
  shows "\<exists>scratch. mp_cache_store_init e (limits_config store) = Some scratch \<and> store_inv scratch \<and>
    store_size scratch = 0 \<and> same_limits store scratch \<and> store_abs scratch = Map.empty"
proof -
  have n: "unat (of_nat (store_bucket_count store) :: u32) = store_bucket_count store"
    by (rule unat_length [OF assms(3)])
  moreover have "0 < store_bucket_count store" "unat (store_memory_limit store) \<le> 2 ^ 63"
    using assms(2) by (simp_all add: store_inv_def)
  ultimately have "(of_nat (store_bucket_count store) :: u32) \<noteq> 0"
    by (metis less_irrefl unat_0)
  then obtain scratch where s: "mp_cache_store_init e (limits_config store) = Some scratch"
    using assms(1) by (simp add: mp_cache_store_init_def limits_config_def env_simps)
  then have "store_inv scratch" "store_abs scratch = Map.empty"
    using init_inv [OF s] \<open>unat (store_memory_limit store) \<le> 2 ^ 63\<close> by (simp_all add: limits_config_def)
  moreover have "store_size scratch = 0" "same_limits store scratch"
    using s n by (auto simp: mp_cache_store_init_def limits_config_def store_size_def same_limits_def sum_list_replicate
        split: if_splits)
  ultimately show ?thesis
    using s by blast
qed


lemma sample_export_parent:
  assumes "all_ok e" "map_of fs ''/d'' = Some Directory" "map_of fs ''/d/exports'' = Some Directory"
  shows "mp_cache_fs_ensure_parent_directory e fs (Some ''/d/exports/mp-cache-export-100-1.bin'') = (Inr (), fs)"
proof -
  have cut: "strrchr ''/d/exports/mp-cache-export-100-1.bin'' (CHR ''/'') = Some (''/d/exports'', ''mp-cache-export-100-1.bin'')"
    by (simp add: strrchr_def strchr_def)
  have "[1..<length ''/d/exports''] = [1, 2, 3, 4, 5, 6, 7, 8, 9]"
    by simp
  then have "mp_cache_fs_ensure_directory e fs (Some ''/d/exports'') = (Inr (), fs)"
    using assms
    by (simp add: mp_cache_fs_ensure_directory_def MP_CACHE_PATH_CAP_def mp_cache_fs_mkdir_single_def env_simps)
  with cut show ?thesis
    by (simp add: mp_cache_fs_ensure_parent_directory_def MP_CACHE_PATH_CAP_def)
qed

lemma sample_export_name: "export_file_name zero_env sample_storage 100 = ''/d/exports/mp-cache-export-100-1.bin''"
  by code_simp

lemma sample_export:
  "\<exists>result fs'. mp_cache_storage_export_state zero_env sample_storage sample_fs sample_store sample_security 100 = (Some result, fs')"
proof -
  let ?path = "''/d/exports/mp-cache-export-100-1.bin''"
  have count: "mp_cache_storage_export_count (at 0 zero_env) sample_storage sample_fs = Inr 0"
    by (simp add: mp_cache_storage_export_count_def sample_storage_def sample_fs_def posix_readdir_def starts_with_def
        MP_CACHE_STORAGE_EXPORT_FILE_PREFIX_def env_simps all_ok_zero_env)
  obtain fs1 where cp: "mp_cache_storage_checkpoint (at 1 zero_env) sample_storage sample_fs sample_store sample_security 100 = (True, fs1)"
    and fs1: "map_of fs1 ''/d'' = Some Directory" "map_of fs1 ''/d/exports'' = Some Directory"
      "\<forall>p. p \<noteq> ''/d/state'' \<longrightarrow> map_of fs1 p = map_of sample_fs p"
    using sample_checkpoint [of "at 1 zero_env"]
    by (auto simp: all_ok_zero_env env_simps urandom_const_at zero_env_def good_env_def at_def all_ok_def)
  obtain payload where ser: "mp_cache_storage_serialize_state (at 2 zero_env) sample_store sample_security 100 empty_buffer = (True, payload)"
    using serialize_state_succeeds [OF all_ok_at [OF all_ok_zero_env], of sample_store sample_security 100 2]
    by (auto simp: sample_state_length SIZE_MAX_def)
  have temp: "temp_path (at 3 zero_env) ?path = ''/d/exports/mp-cache-export-100-1.bin.tmp.1''"
    by code_simp
  obtain mac fs2 where w: "mp_cache_storage_write_packet_file (at 3 zero_env) sample_storage fs1 ?path
      MP_CACHE_STORAGE_EXPORT_MAGIC (Some (state_bytes sample_store sample_security 100)) = (Inr mac, fs2)"
    using write_packet_file_succeeds [OF all_ok_at [OF all_ok_zero_env] urandom_const_at [OF urandom_zero_env]
        sample_export_parent [OF all_ok_at [OF all_ok_at [OF all_ok_zero_env]] fs1(1,2)],
        of 3 "state_bytes sample_store sample_security 100" sample_storage MP_CACHE_STORAGE_EXPORT_MAGIC]
    by (auto simp: temp fs1(3) sample_fs_def sample_state_length sample_storage_def MP_CACHE_PATH_CAP_def)
  from write_packet_file_result(1) [OF w refl] have "length mac = 32"
    by auto
  then obtain hex where hex: "mp_cache_hex_encode mac 65 = Inr hex"
    by (simp add: mp_cache_hex_encode_def)
  show ?thesis
    using count cp ser w hex
    by (simp add: mp_cache_storage_export_state_def sample_export_name for_each_count serialized_data [OF ser]
        mp_cache_storage_format_path_def MP_CACHE_PATH_CAP_def MP_CACHE_TOKEN_HASH_SIZE_def)
      (simp add: sample_storage_def)
qed


end
