(* ===== verification/Http_Parse.thy ===== *)
theory Http_Parse
  imports CLib
begin

text \<open>
  Model of the parsing and printing half of \<^verbatim>\<open>internal/httpserver/http_server.c\<close>: JSON text
  (escaping, field search, strings, arrays, numbers), percent-decoding, the request line and headers,
  reading a request from a socket in pieces, writing a response, and the client side of a request.
  Sockets are lists of what successive \<^verbatim>\<open>recv\<close> and \<^verbatim>\<open>send\<close> calls return.
\<close>


section \<open>More of the C library\<close>

abbreviation QUOTE :: char where
  "QUOTE \<equiv> CHR 0x22"

abbreviation BACKSLASH :: char where
  "BACKSLASH \<equiv> CHR 0x5C"

abbreviation TAB :: char where
  "TAB \<equiv> CHR 0x09"

abbreviation CRLF :: string where
  "CRLF \<equiv> [CR, LF]"

definition UINT32_MAX :: u64 where
  "UINT32_MAX = 0xFFFFFFFF"

definition tolower :: "char \<Rightarrow> char" where
  "tolower c = (let n = (of_char c :: nat) in if 65 \<le> n \<and> n \<le> 90 then char_of (n + 32) else c)"

text \<open>\<open>strncasecmp(text, prefix, strlen(prefix)) == 0\<close>.\<close>

definition starts_with_nocase :: "string \<Rightarrow> string \<Rightarrow> bool" where
  "starts_with_nocase str prefix \<longleftrightarrow> map tolower (take (length prefix) str) = map tolower prefix"

lemma dropWhile_twice_shorter:
  assumes "dropWhile P xs \<noteq> []"
  shows "length (dropWhile (\<lambda>x. \<not> P x) (dropWhile P xs)) < length xs"
proof -
  from assms obtain y ys where y: "dropWhile P xs = y # ys"
    by (cases "dropWhile P xs") auto
  then have "\<not> P y"
    using hd_dropWhile [of P xs] by simp
  with y show ?thesis
    using length_dropWhile_le [of "\<lambda>x. \<not> P x" ys] length_dropWhile_le [of P xs] by simp
qed

lemma strchr_shorter: "strchr str c = Some (before, after) \<Longrightarrow> length after < length str"
  using length_dropWhile_le [of "\<lambda>d. d \<noteq> c" str] by (cases str) (auto simp: strchr_def split: if_splits)

text \<open>The tokens \<open>strtok\<close> returns one after the other.\<close>

function strtok :: "char list \<Rightarrow> string \<Rightarrow> string list" where
  "strtok delimiters str =
     (let t = dropWhile (\<lambda>c. c \<in> set delimiters) str in
      if t = [] then []
      else takeWhile (\<lambda>c. c \<notin> set delimiters) t # strtok delimiters (dropWhile (\<lambda>c. c \<notin> set delimiters) t))"
  by pat_completeness auto
termination
  by (relation "measure (\<lambda>(delimiters, str). length str)")
    (simp_all add: dropWhile_twice_shorter del: dropWhile_eq_Nil_conv)

declare strtok.simps [simp del]

text \<open>One \<open>%Ns\<close> of \<open>sscanf\<close>: skip white space, take at most \<open>N\<close> other characters.\<close>

definition sscanf_word :: "nat \<Rightarrow> string \<Rightarrow> (string \<times> string) option" where
  "sscanf_word width str =
     (let t = dropWhile isspace str;
          w = take width (takeWhile (\<lambda>c. \<not> isspace c) t)
      in if w = [] then None else Some (w, drop (length w) t))"


section \<open>Constants and records\<close>

definition MP_CACHE_HTTP_REQUEST_CAPACITY :: nat where
  "MP_CACHE_HTTP_REQUEST_CAPACITY = 65536"

definition MP_CACHE_HTTP_HEADER_CAPACITY :: nat where
  "MP_CACHE_HTTP_HEADER_CAPACITY = 2048"

definition MP_CACHE_HTTP_PATH_CAPACITY :: nat where
  "MP_CACHE_HTTP_PATH_CAPACITY = 512"

definition MP_CACHE_HTTP_BODY_CAPACITY :: nat where
  "MP_CACHE_HTTP_BODY_CAPACITY = 32768"

definition MP_CACHE_HTTP_JSON_ARRAY_LIMIT :: nat where
  "MP_CACHE_HTTP_JSON_ARRAY_LIMIT = 256"

definition MP_CACHE_HTTP_METHOD_CAPACITY :: nat where
  "MP_CACHE_HTTP_METHOD_CAPACITY = 16"

definition MP_CACHE_HTTP_AUTHORIZATION_CAPACITY :: nat where
  "MP_CACHE_HTTP_AUTHORIZATION_CAPACITY = 256"

definition MP_CACHE_HTTP_CONTENT_TYPE_JSON :: string where
  "MP_CACHE_HTTP_CONTENT_TYPE_JSON = ''application/json''"

definition MP_CACHE_JSON_ESCAPE_EXPANSION :: nat where
  "MP_CACHE_JSON_ESCAPE_EXPANSION = 6"

lemmas http_capacities =
  MP_CACHE_HTTP_REQUEST_CAPACITY_def MP_CACHE_HTTP_HEADER_CAPACITY_def MP_CACHE_HTTP_PATH_CAPACITY_def
  MP_CACHE_HTTP_BODY_CAPACITY_def MP_CACHE_HTTP_JSON_ARRAY_LIMIT_def MP_CACHE_HTTP_METHOD_CAPACITY_def
  MP_CACHE_HTTP_AUTHORIZATION_CAPACITY_def

text \<open>
  The body is what the handlers' string functions see of it; \<open>request_body_length\<close> is the
  announced length.
\<close>

record mp_cache_http_request =
  request_method :: string
  request_target :: string
  request_path :: string
  query_string :: string
  authorization_header :: string
  content_length :: u64
  request_body :: "string ptr"
  request_body_length :: u64

record mp_cache_http_response =
  status_code :: nat
  status_text :: string
  response_body :: "string ptr"
  allow_header_value :: "string ptr"
  extra_headers :: "string ptr"

abbreviation zero_request :: mp_cache_http_request where
  "zero_request \<equiv> \<lparr>request_method = [], request_target = [], request_path = [], query_string = [],
     authorization_header = [], content_length = 0, request_body = None, request_body_length = 0\<rparr>"

abbreviation zero_response :: mp_cache_http_response where
  "zero_response \<equiv> \<lparr>status_code = 0, status_text = [], response_body = None, allow_header_value = None,
     extra_headers = None\<rparr>"


section \<open>Sending\<close>

text \<open>
  What one \<open>send\<close> returns: a count (the kernel takes at most that many bytes), an
  interruption, or an error. After the listed calls every \<open>send\<close> takes all it is given.
  The result is the status, the bytes that went out, and the calls not yet made.
\<close>

datatype send_result = Sent nat | SendIntr | SendError

fun mp_cache_http_send_all :: "send_result list \<Rightarrow> string \<Rightarrow> bool \<times> string \<times> send_result list" where
  "mp_cache_http_send_all [] buffer = (True, buffer, [])"
| "mp_cache_http_send_all (SendIntr # sends) buffer =
     (if buffer = [] then (True, [], SendIntr # sends) else mp_cache_http_send_all sends buffer)"
| "mp_cache_http_send_all (SendError # sends) buffer =
     (if buffer = [] then (True, [], SendError # sends) else (False, [], sends))"
| "mp_cache_http_send_all (Sent count # sends) buffer =
     (if buffer = [] then (True, [], Sent count # sends)
      else if count = 0 then (False, [], sends)
      else
        (case mp_cache_http_send_all sends (drop count buffer) of
           (status, out, sends') \<Rightarrow> (status, take count buffer @ out, sends')))"

definition response_header :: "mp_cache_http_response \<Rightarrow> string" where
  "response_header response =
     ''HTTP/1.1 '' @ print_nat (status_code response) @ '' '' @ status_text response @ CRLF @
     ''Content-Type: '' @ MP_CACHE_HTTP_CONTENT_TYPE_JSON @ CRLF @
     ''Content-Length: '' @
       print_nat (case response_body response of None \<Rightarrow> 0 | Some body \<Rightarrow> length body) @ CRLF @
     ''Cache-Control: no-store'' @ CRLF @
     ''Connection: close'' @ CRLF @
     ''X-Content-Type-Options: nosniff'' @ CRLF @
     (case allow_header_value response of None \<Rightarrow> [] | Some allow \<Rightarrow> ''Allow: '' @ allow @ CRLF) @
     (case extra_headers response of None \<Rightarrow> [] | Some extra \<Rightarrow> extra) @
     CRLF"

definition mp_cache_http_write_response ::
  "send_result list \<Rightarrow> mp_cache_http_response \<Rightarrow> bool \<times> string" where
  "mp_cache_http_write_response sends response =
     (if length (response_header response) \<ge> MP_CACHE_HTTP_HEADER_CAPACITY then (False, [])
      else
        (case mp_cache_http_send_all sends (response_header response) of
           (False, out, _) \<Rightarrow> (False, out)
         | (True, out, sends') \<Rightarrow>
             (case response_body response of
                None \<Rightarrow> (True, out)
              | Some body \<Rightarrow>
                  if body = [] then (True, out)
                  else (case mp_cache_http_send_all sends' body of (status, out', _) \<Rightarrow> (status, out @ out')))))"

definition mp_cache_http_response_destroy :: "mp_cache_http_response \<Rightarrow> mp_cache_http_response" where
  "mp_cache_http_response_destroy response = zero_response"

text \<open>The heap copy of a formatted text; only the allocation can fail.\<close>

definition mp_cache_http_strdup_printf :: "env \<Rightarrow> string \<Rightarrow> string option" where
  "mp_cache_http_strdup_printf e formatted = (if ok 0 e then Some formatted else None)"


section \<open>JSON text\<close>

definition hex_digit :: "nat \<Rightarrow> char" where
  "hex_digit n = ''0123456789abcdef'' ! n"

definition json_escape_char :: "char \<Rightarrow> string" where
  "json_escape_char character =
     (if character = BACKSLASH \<or> character = QUOTE then [BACKSLASH, character]
      else if character = LF then [BACKSLASH, CHR ''n'']
      else if character = CR then [BACKSLASH, CHR ''r'']
      else if character = TAB then [BACKSLASH, CHR ''t'']
      else if (of_char character :: nat) < 0x20 then
        [BACKSLASH, CHR ''u'', CHR ''0'', CHR ''0'', hex_digit (of_char character div 16),
         hex_digit (of_char character mod 16)]
      else [character])"

definition json_escape_text :: "string \<Rightarrow> string" where
  "json_escape_text json_text = concat (map json_escape_char json_text)"

definition mp_cache_http_escape_json :: "env \<Rightarrow> string \<Rightarrow> string option" where
  "mp_cache_http_escape_json e json_text = (if ok 0 e then Some (json_escape_text json_text) else None)"

text \<open>
  The objects the code formats: \<open>%s\<close> between quotes puts the text in as it is, numbers and
  literals stand bare.
\<close>

definition json_text :: "string \<Rightarrow> string" where
  "json_text str = [QUOTE] @ str @ [QUOTE]"

fun json_members :: "(string \<times> string) list \<Rightarrow> string" where
  "json_members [] = []"
| "json_members [(name, v)] = json_text name @ '':'' @ v"
| "json_members ((name, v) # member # members) = json_text name @ '':'' @ v @ '','' @ json_members (member # members)"

definition json_object :: "(string \<times> string) list \<Rightarrow> string" where
  "json_object members = ''{'' @ json_members members @ ''}''"

text \<open>Field names are literals in every call; the body pointer may be NULL.\<close>

definition mp_cache_http_find_json_field :: "string ptr \<Rightarrow> string \<Rightarrow> string option" where
  "mp_cache_http_find_json_field json_body field_name =
     (case json_body of
        None \<Rightarrow> None
      | Some body \<Rightarrow> map_option snd (strstr body (snprintf_s 128 (json_text field_name))))"

text \<open>What follows the colon after a field label and white space.\<close>

definition json_field_value :: "string \<Rightarrow> string option" where
  "json_field_value field = map_option (\<lambda>(_, v). dropWhile isspace v) (strchr field (CHR '':''))"

definition json_unescape :: "char \<Rightarrow> char option" where
  "json_unescape c =
     (if c = QUOTE \<or> c = BACKSLASH \<or> c = CHR ''/'' then Some c
      else if c = CHR ''n'' then Some LF
      else if c = CHR ''r'' then Some CR
      else if c = CHR ''t'' then Some TAB
      else None)"

text \<open>One character of a string literal, whose first source character is given.\<close>

definition json_next_char :: "char \<Rightarrow> string \<Rightarrow> (char \<times> string) result" where
  "json_next_char c rest =
     (if c = BACKSLASH then
        (case rest of
           [] \<Rightarrow> Inl EINVAL
         | escaped # rest' \<Rightarrow>
             (case json_unescape escaped of None \<Rightarrow> Inl EINVAL | Some d \<Rightarrow> Inr (d, rest')))
      else Inr (c, rest))"

lemma json_next_char_shorter: "json_next_char c rest = Inr (d, rest') \<Longrightarrow> length rest' \<le> length rest"
  by (auto simp: json_next_char_def split: if_splits list.splits option.splits)

function json_string_loop :: "nat \<Rightarrow> string \<Rightarrow> string \<Rightarrow> string result" where
  "json_string_loop out_capacity [] out = Inl EINVAL"
| "json_string_loop out_capacity (c # rest) out =
     (if c = QUOTE then Inr out
      else
        (case json_next_char c rest of
           Inl err \<Rightarrow> Inl err
         | Inr (next_character, rest') \<Rightarrow>
             if length out + 1 \<ge> out_capacity then Inl ENOSPC
             else json_string_loop out_capacity rest' (out @ [next_character])))"
  by pat_completeness auto
termination
  by (relation "measure (\<lambda>(out_capacity, v, out). length v)") (auto dest: json_next_char_shorter)

definition mp_cache_http_extract_json_string :: "string ptr \<Rightarrow> string \<Rightarrow> nat \<Rightarrow> string result" where
  "mp_cache_http_extract_json_string json_body field_name out_capacity =
     (if json_body = None \<or> out_capacity = 0 then Inl EINVAL
      else
        (case mp_cache_http_find_json_field json_body field_name of
           None \<Rightarrow> Inl ENOENT
         | Some field \<Rightarrow>
             (case json_field_value field of
                None \<Rightarrow> Inl EINVAL
              | Some v \<Rightarrow>
                  if v = [] \<or> hd v \<noteq> QUOTE then Inl EINVAL else json_string_loop out_capacity (tl v) [])))"

definition mp_cache_http_skip_json_whitespace :: "string \<Rightarrow> string" where
  "mp_cache_http_skip_json_whitespace cursor = dropWhile isspace cursor"

text \<open>
  One string of an array, into a buffer that starts with 16 bytes and doubles. The environment of
  the reallocation is numbered by the characters stored so far.
\<close>

function json_item_loop :: "env \<Rightarrow> string \<Rightarrow> string \<Rightarrow> nat \<Rightarrow> (string \<times> string) result" where
  "json_item_loop e [] decoded decoded_capacity = Inl EINVAL"
| "json_item_loop e (c # rest) decoded decoded_capacity =
     (if c = QUOTE then Inr (decoded, rest)
      else
        (case json_next_char c rest of
           Inl err \<Rightarrow> Inl err
         | Inr (next_character, rest') \<Rightarrow>
             if length decoded + 1 \<ge> decoded_capacity then
               (if ok (length decoded) e
                then json_item_loop e rest' (decoded @ [next_character]) (decoded_capacity * 2)
                else Inl ENOMEM)
             else json_item_loop e rest' (decoded @ [next_character]) decoded_capacity))"
  by pat_completeness auto
termination
  by (relation "measure (\<lambda>(e, cursor, decoded, decoded_capacity). length cursor)") (auto dest: json_next_char_shorter)

lemma json_item_loop_shorter:
  "json_item_loop e cursor decoded capacity = Inr (out, rest) \<Longrightarrow> length rest < length cursor"
proof (induction e cursor decoded capacity rule: json_item_loop.induct)
  case (2 e c rest decoded capacity)
  then show ?case
    by (fastforce split: if_splits sum.splits dest: json_next_char_shorter)
qed simp

lemma json_array_shorter:
  assumes "mp_cache_http_skip_json_whitespace cursor = d # rest'"
    and "json_item_loop e rest decoded capacity = Inr (out, cursor)"
  shows "length (mp_cache_http_skip_json_whitespace rest') < length rest"
  using json_item_loop_shorter [OF assms(2)] assms(1) length_dropWhile_le [of isspace cursor]
    length_dropWhile_le [of isspace rest']
  by (simp add: mp_cache_http_skip_json_whitespace_def)

function json_array_loop :: "env \<Rightarrow> string \<Rightarrow> string list \<Rightarrow> nat \<Rightarrow> string list result" where
  "json_array_loop e [] string_values value_capacity = Inl EINVAL"
| "json_array_loop e (c # rest) string_values value_capacity =
     (let e' = at (length string_values) e in
      if c \<noteq> QUOTE then Inl EINVAL
      else if length string_values \<ge> MP_CACHE_HTTP_JSON_ARRAY_LIMIT then Inl E2BIG
      else if \<not> ok 0 e' then Inl ENOMEM
      else
        (case json_item_loop (at 1 e') rest [] 16 of
           Inl err \<Rightarrow> Inl err
         | Inr (decoded_value, cursor) \<Rightarrow>
             if length string_values = value_capacity \<and> \<not> ok 2 e' then Inl ENOMEM
             else
               (let value_capacity' =
                      (if length string_values = value_capacity
                       then (if value_capacity = 0 then 4 else value_capacity * 2) else value_capacity);
                    values' = string_values @ [decoded_value]
                in case mp_cache_http_skip_json_whitespace cursor of
                     [] \<Rightarrow> Inl EINVAL
                   | d # rest' \<Rightarrow>
                       if d = CHR '','' then
                         json_array_loop e (mp_cache_http_skip_json_whitespace rest') values' value_capacity'
                       else if d = CHR '']'' then Inr values'
                       else Inl EINVAL)))"
  by pat_completeness auto
termination
  by (relation "measure (\<lambda>(e, cursor, string_values, value_capacity). length cursor)")
    (auto dest!: json_array_shorter)

definition mp_cache_http_extract_json_string_array :: "env \<Rightarrow> string ptr \<Rightarrow> string \<Rightarrow> string list result" where
  "mp_cache_http_extract_json_string_array e json_body field_name =
     (if json_body = None then Inl EINVAL
      else
        (case mp_cache_http_find_json_field json_body field_name of
           None \<Rightarrow> Inl ENOENT
         | Some field \<Rightarrow>
             (case strchr field (CHR '':'') of
                None \<Rightarrow> Inl EINVAL
              | Some (_, v) \<Rightarrow>
                  (case mp_cache_http_skip_json_whitespace v of
                     [] \<Rightarrow> Inl EINVAL
                   | c # rest \<Rightarrow>
                       if c \<noteq> CHR ''['' then Inl EINVAL
                       else
                         (let cursor = mp_cache_http_skip_json_whitespace rest in
                          if cursor \<noteq> [] \<and> hd cursor = CHR '']'' then Inr []
                          else json_array_loop e cursor [] 0)))))"

definition mp_cache_http_extract_json_u32 :: "string ptr \<Rightarrow> string \<Rightarrow> u32 result" where
  "mp_cache_http_extract_json_u32 json_body field_name =
     (if json_body = None then Inl EINVAL
      else
        (case mp_cache_http_find_json_field json_body field_name of
           None \<Rightarrow> Inl ENOENT
         | Some field \<Rightarrow>
             (case json_field_value field of
                None \<Rightarrow> Inl EINVAL
              | Some v \<Rightarrow>
                  if v = [] \<or> \<not> isdigit (hd v) then Inl EINVAL
                  else
                    (case strtoul v of
                       (parsed, _, rest) \<Rightarrow>
                         if rest = v \<or> parsed > UINT32_MAX then Inl EINVAL else Inr (ucast parsed)))))"


section \<open>Request targets\<close>

definition mp_cache_http_path_is_health :: "string \<Rightarrow> bool" where
  "mp_cache_http_path_is_health path \<longleftrightarrow> path = ''/health'' \<or> path = ''/v1/health''"

definition mp_cache_http_hex_value :: "char \<Rightarrow> int" where
  "mp_cache_http_hex_value character =
     (let c = (of_char character :: int) in
      if of_char (CHR ''0'') \<le> c \<and> c \<le> of_char (CHR ''9'') then c - of_char (CHR ''0'')
      else if of_char (CHR ''A'') \<le> c \<and> c \<le> of_char (CHR ''F'') then c - of_char (CHR ''A'') + 10
      else if of_char (CHR ''a'') \<le> c \<and> c \<le> of_char (CHR ''f'') then c - of_char (CHR ''a'') + 10
      else -1)"

text \<open>
  The accumulator lists the characters written to the output buffer, a decoded NUL included; what
  the caller sees of them as a C string is \<open>c_string\<close> of the result.
\<close>

function percent_decode_loop :: "string \<Rightarrow> nat \<Rightarrow> char list \<Rightarrow> char list result" where
  "percent_decode_loop [] decoded_capacity decoded = Inr decoded"
| "percent_decode_loop (c # rest) decoded_capacity decoded =
     (if length decoded + 1 \<ge> decoded_capacity then Inl ENOSPC
      else if c = CHR ''%'' then
        (if length rest < 2 then Inl EINVAL
         else
           (let high = mp_cache_http_hex_value (rest ! 0); low = mp_cache_http_hex_value (rest ! 1) in
            if high < 0 \<or> low < 0 then Inl EINVAL
            else percent_decode_loop (drop 2 rest) decoded_capacity (decoded @ [char_of (16 * high + low)])))
      else percent_decode_loop rest decoded_capacity (decoded @ [c]))"
  by pat_completeness auto
termination
  by (relation "measure (\<lambda>(encoded, decoded_capacity, decoded). length encoded)") auto

definition mp_cache_http_percent_decode :: "string ptr \<Rightarrow> nat \<Rightarrow> char list result" where
  "mp_cache_http_percent_decode encoded decoded_capacity =
     (case encoded of
        None \<Rightarrow> Inl EINVAL
      | Some str \<Rightarrow> if decoded_capacity = 0 then Inl EINVAL else percent_decode_loop str decoded_capacity [])"

definition mp_cache_http_split_target :: "string \<Rightarrow> nat \<Rightarrow> nat \<Rightarrow> string \<times> string" where
  "mp_cache_http_split_target target request_path_capacity query_string_capacity =
     (case strchr target (CHR ''?'') of
        None \<Rightarrow> (snprintf_s request_path_capacity target, [])
      | Some (path, query) \<Rightarrow> (snprintf_s request_path_capacity path, snprintf_s query_string_capacity query))"

function query_u32_loop :: "string \<Rightarrow> string \<Rightarrow> u32 result" where
  "query_u32_loop position field_name =
     (if position = [] then Inl ENOENT
      else if starts_with position (field_name @ ''='') then
        (case strtoul (drop (length field_name + 1) position) of
           (parsed, _, _) \<Rightarrow> if parsed > UINT32_MAX then Inl EINVAL else Inr (ucast parsed))
      else
        (case strchr position (CHR ''&'') of
           None \<Rightarrow> Inl ENOENT
         | Some (_, position') \<Rightarrow> query_u32_loop position' field_name))"
  by pat_completeness auto
termination
  by (relation "measure (\<lambda>(position, field_name). length position)") (auto dest: strchr_shorter)

declare query_u32_loop.simps [simp del]

definition mp_cache_http_extract_query_u32 :: "string ptr \<Rightarrow> string \<Rightarrow> u32 result" where
  "mp_cache_http_extract_query_u32 query field_name =
     (case query of None \<Rightarrow> Inl EINVAL | Some position \<Rightarrow> query_u32_loop position field_name)"


section \<open>Requests\<close>

definition parse_header_line :: "string \<Rightarrow> mp_cache_http_request \<Rightarrow> mp_cache_http_request" where
  "parse_header_line line request =
     (if starts_with_nocase line ''Content-Length:'' then
        request\<lparr>content_length := fst (strtoul (drop 15 line))\<rparr>
      else if starts_with_nocase line ''Authorization:'' then
        request\<lparr>authorization_header :=
          snprintf_s MP_CACHE_HTTP_AUTHORIZATION_CAPACITY (dropWhile isspace (drop 14 line))\<rparr>
      else request)"

definition mp_cache_http_parse_headers :: "string \<Rightarrow> mp_cache_http_request \<Rightarrow> mp_cache_http_request result" where
  "mp_cache_http_parse_headers headers_text request =
     (case strtok CRLF headers_text of
        [] \<Rightarrow> Inl EINVAL
      | line # lines \<Rightarrow>
          (case sscanf_word 15 line of
             None \<Rightarrow> Inl EINVAL
           | Some (verb, rest) \<Rightarrow>
               (case sscanf_word 511 rest of
                  None \<Rightarrow> Inl EINVAL
                | Some (target, _) \<Rightarrow>
                    (let parsed = foldl (\<lambda>r l. parse_header_line l r)
                           (request\<lparr>request_method := verb, request_target := target\<rparr>) lines
                     in case mp_cache_http_split_target target MP_CACHE_HTTP_PATH_CAPACITY MP_CACHE_HTTP_PATH_CAPACITY of
                          (path, query) \<Rightarrow> Inr (parsed\<lparr>request_path := path, query_string := query\<rparr>)))))"

text \<open>
  The buffer holds the bytes received; the string functions stop at its first NUL. The comparison
  with the announced length is made on \<open>size_t\<close> values.
\<close>

definition mp_cache_http_parse_request_buffer :: "env \<Rightarrow> char list \<Rightarrow> mp_cache_http_request result" where
  "mp_cache_http_parse_request_buffer e buffer =
     (case strstr (c_string buffer) (CRLF @ CRLF) of
        None \<Rightarrow> Inl EINVAL
      | Some (head, _) \<Rightarrow>
          (let header_length = length head + 4 in
           if \<not> ok 0 e then Inl ENOMEM
           else
             (case mp_cache_http_parse_headers (take header_length buffer) zero_request of
                Inl err \<Rightarrow> Inl err
              | Inr request \<Rightarrow>
                  if (of_nat (length buffer) :: u64) < of_nat header_length + content_length request then Inl EINVAL
                  else Inr (request\<lparr>
                    request_body := Some (c_string (take (unat (content_length request)) (drop header_length buffer))),
                    request_body_length := content_length request\<rparr>))))"

text \<open>What one \<open>recv\<close> returns; no bytes, or the end of the list, is the end of the connection.\<close>

datatype recv_result = Received "char list" | RecvIntr | RecvError

text \<open>
  A chunk longer than the room in the buffer is delivered in part; the rest stays for the next call.
\<close>

definition pending :: "nat \<Rightarrow> char list \<Rightarrow> recv_result list \<Rightarrow> recv_result list" where
  "pending room chunk recvs = (if length chunk \<le> room then recvs else Received (drop room chunk) # recvs)"

text \<open>The first loop, up to the end of the headers; a full buffer ends it.\<close>

fun read_head_loop :: "nat \<Rightarrow> recv_result list \<Rightarrow> char list \<Rightarrow> (char list \<times> recv_result list) result" where
  "read_head_loop buffer_capacity [] buffer = Inr (buffer, [])"
| "read_head_loop buffer_capacity (event # recvs) buffer =
     (let room = buffer_capacity - length buffer - 1 in
      if length buffer + 1 < buffer_capacity then
        (case event of
           RecvIntr \<Rightarrow> read_head_loop buffer_capacity recvs buffer
         | RecvError \<Rightarrow> Inl EIO
         | Received chunk \<Rightarrow>
             if chunk = [] then Inr (buffer, event # recvs)
             else if strstr (c_string (buffer @ take room chunk)) (CRLF @ CRLF) \<noteq> None \<or> length chunk > room
             then Inr (buffer @ take room chunk, pending room chunk recvs)
             else read_head_loop buffer_capacity recvs (buffer @ chunk))
      else Inr (buffer, event # recvs))"

text \<open>The second loop, up to the announced number of bytes.\<close>

fun read_body_loop :: "nat \<Rightarrow> nat \<Rightarrow> recv_result list \<Rightarrow> char list \<Rightarrow> char list result" where
  "read_body_loop buffer_capacity needed [] buffer = Inr buffer"
| "read_body_loop buffer_capacity needed (event # recvs) buffer =
     (let room = buffer_capacity - length buffer - 1 in
      if length buffer < needed then
        (case event of
           RecvIntr \<Rightarrow> read_body_loop buffer_capacity needed recvs buffer
         | RecvError \<Rightarrow> Inl EIO
         | Received chunk \<Rightarrow>
             if take room chunk = [] then Inr buffer
             else read_body_loop buffer_capacity needed recvs (buffer @ take room chunk))
      else Inr buffer)"

definition mp_cache_http_read_request ::
  "env \<Rightarrow> recv_result list \<Rightarrow> nat \<Rightarrow> mp_cache_http_request result" where
  "mp_cache_http_read_request e recvs buffer_capacity =
     (if buffer_capacity = 0 then Inl EINVAL
      else
        (case read_head_loop buffer_capacity recvs [] of
           Inl err \<Rightarrow> Inl err
         | Inr (buffer, recvs') \<Rightarrow>
             (case strstr (c_string buffer) (CRLF @ CRLF) of
                None \<Rightarrow> Inl EINVAL
              | Some (head, _) \<Rightarrow>
                  (let header_length = length head + 4 in
                   if \<not> ok 0 e then Inl ENOMEM
                   else
                     (case mp_cache_http_parse_headers (take header_length buffer) zero_request of
                        Inl err \<Rightarrow> Inl err
                      | Inr request \<Rightarrow>
                          if unat (content_length request) > buffer_capacity - header_length - 1 then Inl EOVERFLOW
                          else
                            (let needed = header_length + unat (content_length request) in
                             case read_body_loop buffer_capacity needed recvs' buffer of
                               Inl err \<Rightarrow> Inl err
                             | Inr buffer' \<Rightarrow>
                                 if length buffer' < needed then Inl EINVAL
                                 else mp_cache_http_parse_request_buffer (at 1 e) buffer'))))))"

definition mp_cache_http_extract_bearer_token :: "string ptr \<Rightarrow> string option" where
  "mp_cache_http_extract_bearer_token header =
     (case header of
        None \<Rightarrow> None
      | Some str \<Rightarrow> if starts_with_nocase str ''Bearer '' then Some (drop 7 str) else None)"


section \<open>The client\<close>

text \<open>\<open>sizeof(sockaddr_un.sun_path)\<close> on the supported targets.\<close>

definition SUN_PATH_CAPACITY :: nat where
  "SUN_PATH_CAPACITY = 108"

definition client_request_text ::
  "string \<Rightarrow> string \<Rightarrow> string ptr \<Rightarrow> string ptr \<Rightarrow> string ptr \<Rightarrow> string" where
  "client_request_text verb path auth_token content_type body =
     verb @ '' '' @ path @ '' HTTP/1.1'' @ CRLF @
     ''Host: localhost'' @ CRLF @
     ''Connection: close'' @ CRLF @
     (case auth_token of None \<Rightarrow> [] | Some tok \<Rightarrow> ''Authorization: Bearer '' @ tok @ CRLF) @
     (case content_type of None \<Rightarrow> [] | Some t \<Rightarrow> ''Content-Type: '' @ t @ CRLF) @
     ''Content-Length: '' @ print_nat (case body of None \<Rightarrow> 0 | Some b \<Rightarrow> length b) @ CRLF @
     CRLF @
     (case body of None \<Rightarrow> [] | Some b \<Rightarrow> b)"

text \<open>
  The client makes one \<open>recv\<close> call; \<open>reply\<close> is what it returns. The results are the
  status, the bytes sent, and the text printed.
\<close>

definition mp_cache_http_client_request ::
  "env \<Rightarrow> send_result list \<Rightarrow> recv_result \<Rightarrow> string ptr \<Rightarrow> string ptr \<Rightarrow> string ptr \<Rightarrow> string ptr \<Rightarrow> string ptr \<Rightarrow>
     string ptr \<Rightarrow> unit result \<times> string \<times> string" where
  "mp_cache_http_client_request e sends reply path_of_socket verb path auth_token content_type body =
     (case (path_of_socket, verb, path) of
        (Some sock, Some v, Some p) \<Rightarrow>
          (let text' = client_request_text v p auth_token content_type body in
           if length text' \<ge> MP_CACHE_HTTP_REQUEST_CAPACITY then (Inl EOVERFLOW, [], [])
           else if \<not> ok 0 e then (Inl EOTHER, [], [])
           else if length sock \<ge> SUN_PATH_CAPACITY then (Inl ENAMETOOLONG, [], [])
           else if \<not> ok 1 e then (Inl EOTHER, [], [])
           else
             (case mp_cache_http_send_all sends text' of
                (False, sent, _) \<Rightarrow> (Inl EOTHER, sent, [])
              | (True, sent, _) \<Rightarrow>
                  (case reply of
                     Received chunk \<Rightarrow>
                       (let response_buffer = c_string (take (MP_CACHE_HTTP_REQUEST_CAPACITY - 1) chunk) in
                        case strstr response_buffer (CRLF @ CRLF) of
                          Some (_, rest) \<Rightarrow> (Inr (), sent, drop 4 rest @ [LF])
                        | None \<Rightarrow> (Inr (), sent, response_buffer @ [LF]))
                   | _ \<Rightarrow> (Inl EOTHER, sent, []))))
      | _ \<Rightarrow> (Inl EINVAL, [], []))"

definition mp_cache_http_client_health ::
  "env \<Rightarrow> send_result list \<Rightarrow> recv_result \<Rightarrow> string ptr \<Rightarrow> unit result \<times> string \<times> string" where
  "mp_cache_http_client_health e sends reply path_of_socket =
     mp_cache_http_client_request e sends reply path_of_socket (Some ''GET'') (Some ''/v1/health'') None
       (Some MP_CACHE_HTTP_CONTENT_TYPE_JSON) (Some [])"

end
