(* ===== verification/Log.thy ===== *)
theory Log
  imports Config Platform
begin

text \<open>
  Model of \<^verbatim>\<open>internal/observability/log.c\<close>. The logger itself is the library
  \<^verbatim>\<open>native/mp_logger\<close>, which is a parameter: a record of the calls the wrapper makes. The wrapper's
  own work is modelled: the overrides derived from the configuration, the truncation of messages, and
  reading the tail of the newest log file.
\<close>


section \<open>The wrapped logger\<close>

record ('c, 'l) mp_logger =
  mp_logger_bootstrap_load :: "string \<Rightarrow> 'c option"
  mp_logger_config_init_defaults :: 'c
  mp_logger_config_apply_override :: "'c \<Rightarrow> string \<Rightarrow> string \<Rightarrow> string \<Rightarrow> 'c option"
  mp_logger_create :: "'c \<Rightarrow> 'l option"
  mp_logger_start :: "'l \<Rightarrow> bool"

definition MP_CACHE_LOG_MESSAGE_CAPACITY :: nat where
  "MP_CACHE_LOG_MESSAGE_CAPACITY = 1024"

definition MP_CACHE_LOG_CONTEXT_CAPACITY :: nat where
  "MP_CACHE_LOG_CONTEXT_CAPACITY = 512"

definition MP_CACHE_LOG_TAIL_READ_CAPACITY :: nat where
  "MP_CACHE_LOG_TAIL_READ_CAPACITY = 1024 * 1024"

definition mp_cache_log_copy :: "nat \<Rightarrow> string ptr \<Rightarrow> string" where
  "mp_cache_log_copy destination_capacity source =
     (case source of None \<Rightarrow> [] | Some str \<Rightarrow> snprintf_s destination_capacity str)"

text \<open>One override: section, key and value; a failing one stops the initialization.\<close>

definition mp_cache_log_apply_override ::
  "('c, 'l) mp_logger \<Rightarrow> 'c option \<Rightarrow> string \<Rightarrow> string \<Rightarrow> string \<Rightarrow> 'c option" where
  "mp_cache_log_apply_override api logger_config sect key v =
     (case logger_config of None \<Rightarrow> None | Some c \<Rightarrow> mp_logger_config_apply_override api c sect key v)"

definition mp_cache_log_apply_u32 ::
  "('c, 'l) mp_logger \<Rightarrow> 'c option \<Rightarrow> string \<Rightarrow> string \<Rightarrow> u32 \<Rightarrow> 'c option" where
  "mp_cache_log_apply_u32 api logger_config sect key v =
     mp_cache_log_apply_override api logger_config sect key (snprintf_s 32 (print_nat (unat v)))"

definition mp_cache_log_apply_bool ::
  "('c, 'l) mp_logger \<Rightarrow> 'c option \<Rightarrow> string \<Rightarrow> string \<Rightarrow> u32 \<Rightarrow> 'c option" where
  "mp_cache_log_apply_bool api logger_config sect key v =
     mp_cache_log_apply_override api logger_config sect key (if v \<noteq> 0 then ''true'' else ''false'')"

definition mp_cache_log_apply_level ::
  "('c, 'l) mp_logger \<Rightarrow> 'c option \<Rightarrow> string \<Rightarrow> string \<Rightarrow> string \<Rightarrow> 'c option" where
  "mp_cache_log_apply_level api logger_config sect minimum maximum =
     mp_cache_log_apply_override api (mp_cache_log_apply_override api logger_config sect ''minimum_level'' minimum)
       sect ''maximum_level'' maximum"

text \<open>The started logger, or none.\<close>

definition mp_cache_log_init :: "('c, 'l) mp_logger \<Rightarrow> mp_cache_config \<Rightarrow> 'l option" where
  "mp_cache_log_init api config =
     (let c0 = (case mp_logger_bootstrap_load api (logger_bootstrap_path config) of
                  None \<Rightarrow> mp_logger_config_init_defaults api | Some c \<Rightarrow> c);
          override = mp_cache_log_apply_override api;
          number = mp_cache_log_apply_u32 api;
          level = mp_cache_log_apply_level api;
          c1 = override (Some c0) [] ''service_name'' (service_name config);
          c2 = override c1 [] ''environment_name'' (environment_name config);
          c3 = override c2 [] ''build_version'' (build_version config);
          c4 = number c3 ''logger'' ''buffer_capacity'' (logger_buffer_capacity config);
          c5 = number c4 ''logger'' ''message_capacity'' (logger_message_capacity config);
          c6 = number c5 ''logger'' ''context_capacity'' (logger_context_capacity config);
          c7 = number c6 ''logger'' ''field_capacity'' (logger_field_capacity config);
          c8 = number c7 ''logger'' ''field_key_capacity'' (logger_field_key_capacity config);
          c9 = number c8 ''logger'' ''field_value_capacity'' (logger_field_value_capacity config);
          c10 = override c9 ''logger'' ''format'' (logger_format config);
          c11 = mp_cache_log_apply_bool api c10 ''logger'' ''pretty_output'' (logger_pretty_output config);
          c12 = override c11 ''logger'' ''log_directory'' (log_directory config);
          c13 = override c12 ''logger'' ''file_name_prefix'' (logger_file_name_prefix config);
          c14 = override c13 ''logger'' ''backup_file_name_prefix'' (logger_backup_file_name_prefix config);
          c15 = override c14 ''logger'' ''active_streams'' (logger_active_streams config);
          c16 = level c15 ''stdout'' (logger_stdout_min_level config) (logger_stdout_max_level config);
          c17 = level c16 ''stderr'' (logger_stderr_min_level config) (logger_stderr_max_level config);
          c18 = level c17 ''file'' (logger_file_min_level config) (logger_file_max_level config);
          c19 = level c18 ''udp'' (logger_udp_min_level config) (logger_udp_max_level config);
          c20 = override c19 ''udp'' ''host'' (logger_udp_host config);
          c21 = number c20 ''udp'' ''port'' (logger_udp_port config)
      in case c21 of
           None \<Rightarrow> None
         | Some c \<Rightarrow>
             (case mp_logger_create api c of
                None \<Rightarrow> None
              | Some l \<Rightarrow> if mp_logger_start api l then Some l else None))"

text \<open>Shutting down leaves no logger.\<close>

definition mp_cache_log_shutdown :: "'l option \<Rightarrow> u32 \<Rightarrow> 'l option" where
  "mp_cache_log_shutdown log timeout_millis = None"

text \<open>The message and context handed to the logger, when there is one.\<close>

definition mp_cache_log_writef :: "'l option \<Rightarrow> string ptr \<Rightarrow> string ptr \<Rightarrow> (string \<times> string) option" where
  "mp_cache_log_writef log context_text formatted =
     (case (log, formatted) of
        (Some _, Some message) \<Rightarrow>
          Some (snprintf_s MP_CACHE_LOG_MESSAGE_CAPACITY message,
                mp_cache_log_copy MP_CACHE_LOG_CONTEXT_CAPACITY
                  (Some (case context_text of None \<Rightarrow> [] | Some str \<Rightarrow> str)))
      | _ \<Rightarrow> None)"


section \<open>The newest log file\<close>

text \<open>
  The directory scan keeps modification time, path and name of the newest regular file so far.
\<close>

primrec latest_file_loop ::
  "env \<Rightarrow> nat \<Rightarrow> filesystem \<Rightarrow> string \<Rightarrow> nat \<Rightarrow> nat \<Rightarrow> string list \<Rightarrow> (int \<times> string \<times> string) option \<Rightarrow>
     (int \<times> string \<times> string) option" where
  "latest_file_loop e n fs directory path_capacity name_capacity [] latest = latest"
| "latest_file_loop e n fs directory path_capacity name_capacity (name # names) latest =
     (let candidate = snprintf_s MP_CACHE_PATH_CAP (directory @ ''/'' @ name);
          latest' =
            (if name \<noteq> [] \<and> hd name = CHR ''.'' then latest
             else if \<not> ok n e \<or> file_contents fs candidate = None then latest
             else if latest = None \<or> fst (the latest) < st_mtime e candidate
             then Some (st_mtime e candidate, snprintf_s path_capacity candidate, snprintf_s name_capacity name)
             else latest)
      in latest_file_loop e (Suc n) fs directory path_capacity name_capacity names latest')"

definition mp_cache_log_find_latest_file ::
  "env \<Rightarrow> filesystem \<Rightarrow> string ptr \<Rightarrow> nat \<Rightarrow> nat \<Rightarrow> (string \<times> string) result" where
  "mp_cache_log_find_latest_file e fs directory path_capacity name_capacity =
     (case directory of
        None \<Rightarrow> Inl EINVAL
      | Some dir \<Rightarrow>
          (case map_of fs dir of
             None \<Rightarrow> Inl ENOENT
           | Some Directory \<Rightarrow>
               if \<not> ok 0 e then Inl EOTHER
               else
                 (case latest_file_loop (at 1 e) 0 fs dir path_capacity name_capacity (posix_readdir fs dir) None of
                    None \<Rightarrow> Inl ENOENT
                  | Some (_, path, name) \<Rightarrow> Inr (path, name))
           | Some _ \<Rightarrow> Inl ENOTDIR))"

text \<open>
  The backward scan for the line feed before the last \<open>target\<close> lines, over the reversed
  buffer; the result is the index where the tail starts.
\<close>

fun tail_start :: "char list \<Rightarrow> nat \<Rightarrow> nat \<Rightarrow> nat" where
  "tail_start [] seen_lines target_lines = 0"
| "tail_start (c # rest) seen_lines target_lines =
     (if c = LF then
        (if seen_lines + 1 > target_lines then length rest + 1
         else tail_start rest (seen_lines + 1) target_lines)
      else tail_start rest seen_lines target_lines)"

definition mp_cache_log_read_latest_tail ::
  "env \<Rightarrow> filesystem \<Rightarrow> string ptr \<Rightarrow> u32 \<Rightarrow> u32 \<Rightarrow> nat ptr \<Rightarrow> (string \<times> string) result" where
  "mp_cache_log_read_latest_tail e fs directory max_lines requested_lines out_log_file_name =
     (case out_log_file_name of
        None \<Rightarrow> Inl EINVAL
      | Some name_capacity \<Rightarrow>
          if directory = None \<or> name_capacity = 0 then Inl EINVAL
          else
            (let wanted = (if requested_lines = 0 then 1 else requested_lines);
                 target_lines = (if wanted > max_lines then max_lines else wanted)
             in case mp_cache_log_find_latest_file (at 0 e) fs directory MP_CACHE_PATH_CAP name_capacity of
                  Inl err \<Rightarrow> Inl err
                | Inr (path, name) \<Rightarrow>
                    (case posix_open_read (ok 1 e) fs path of
                       Inl err \<Rightarrow> Inl err
                     | Inr contents \<Rightarrow>
                         (let read_size =
                                (if length contents > MP_CACHE_LOG_TAIL_READ_CAPACITY
                                 then MP_CACHE_LOG_TAIL_READ_CAPACITY else length contents);
                              buffer = chars_of (drop (length contents - read_size) contents)
                          in if \<not> ok 2 e \<or> \<not> ok 3 e then Inl EIO
                             else if \<not> ok 4 e then Inl ENOMEM
                             else if read_size > 0 \<and> \<not> ok 5 e then Inl EIO
                             else Inr (name, c_string (drop (tail_start (rev buffer) 0 (unat target_lines)) buffer))))))"


section \<open>The tail holds the last lines\<close>

lemma tail_start_result:
  assumes "tail_start (rev buffer) seen target = n" "seen \<le> target"
  shows "n \<le> length buffer \<and> seen + count_list (drop n buffer) LF \<le> target \<and>
    (n = 0 \<or> seen + count_list (drop n buffer) LF = target \<and> buffer ! (n - 1) = LF)"
  using assms
proof (induction buffer arbitrary: seen rule: rev_induct)
  case Nil
  then show ?case by simp
next
  case (snoc c buffer)
  show ?case
  proof (cases "c = LF \<and> seen + 1 > target")
    case True
    with snoc.prems(1) have "n = Suc (length buffer)"
      by simp
    with True snoc.prems(2) show ?thesis by simp
  next
    case False
    define seen' where "seen' = (if c = LF then seen + 1 else seen)"
    have t: "tail_start (rev buffer) seen' target = n" "seen' \<le> target"
      using False snoc.prems by (auto simp: seen'_def)
    from snoc.IH [OF t] have ih: "n \<le> length buffer" "seen' + count_list (drop n buffer) LF \<le> target"
      "n = 0 \<or> seen' + count_list (drop n buffer) LF = target \<and> buffer ! (n - 1) = LF"
      by auto
    then have "seen + count_list (drop n (buffer @ [c])) LF = seen' + count_list (drop n buffer) LF"
      by (auto simp: seen'_def)
    with ih show ?thesis
      by (auto simp: nth_append)
  qed
qed

end
