(* ===== verification/Http_Server.thy ===== *)
theory Http_Server
  imports Journal Http_Parse Log
begin

text \<open>
  Model of the serving half of \<^verbatim>\<open>internal/httpserver/http_server.c\<close>: the server's state, the
  sweep, the rate limiter, authentication and authorization, one definition per endpoint, the dispatch,
  and the accept loop. A handler takes the server and the file system and returns the response with
  both; its environment numbers the calls it makes.
\<close>


section \<open>State\<close>

record mp_cache_rate_limit_entry =
  limit_subject :: string
  window_started_at :: int
  request_count :: u32

record mp_cache_rate_limiter =
  limit_entries :: "mp_cache_rate_limit_entry list"
  limit_capacity :: nat

record mp_cache_http_metrics =
  total_requests :: u64
  unauthorized_requests :: u64
  forbidden_requests :: u64
  rate_limited_requests :: u64
  cache_hits :: u64
  cache_misses :: u64
  cache_sets :: u64
  cache_deletes :: u64
  client_registrations :: u64
  token_rotations :: u64
  token_invalidations :: u64
  state_exports :: u64
  state_imports :: u64
  log_reads :: u64

abbreviation zero_metrics :: mp_cache_http_metrics where
  "zero_metrics \<equiv> \<lparr>total_requests = 0, unauthorized_requests = 0, forbidden_requests = 0, rate_limited_requests = 0,
     cache_hits = 0, cache_misses = 0, cache_sets = 0, cache_deletes = 0, client_registrations = 0,
     token_rotations = 0, token_invalidations = 0, state_exports = 0, state_imports = 0, log_reads = 0\<rparr>"

text \<open>
  The store, the registry and the storage are the objects the server points to. The socket is
  open or closed.
\<close>

record mp_cache_http_server =
  server_open :: bool
  started_at_utc :: int
  last_sweep_at_utc :: int
  server_config :: mp_cache_config
  server_store :: mp_cache_store
  server_security :: mp_cache_security
  server_storage :: mp_cache_storage
  rate_limiter :: mp_cache_rate_limiter
  metrics :: mp_cache_http_metrics

abbreviation empty_limiter :: mp_cache_rate_limiter where
  "empty_limiter \<equiv> \<lparr>limit_entries = [], limit_capacity = 0\<rparr>"

definition count_metric :: "(mp_cache_http_metrics \<Rightarrow> mp_cache_http_metrics) \<Rightarrow> mp_cache_http_server \<Rightarrow> mp_cache_http_server" where
  "count_metric f server = server\<lparr>metrics := f (metrics server)\<rparr>"


section \<open>Responses\<close>

definition mp_cache_http_error_code_is_defined :: "string ptr \<Rightarrow> bool" where
  "mp_cache_http_error_code_is_defined error_code \<longleftrightarrow>
     error_code \<in> set (map Some [''conflict'', ''forbidden'', ''internal_error'', ''invalid_argument'', ''limit_exceeded'',
       ''not_found'', ''unauthorized''])"

definition mp_cache_http_make_error ::
  "env \<Rightarrow> nat \<Rightarrow> string \<Rightarrow> string ptr \<Rightarrow> string ptr \<Rightarrow> string ptr \<Rightarrow> string ptr \<Rightarrow> mp_cache_http_response" where
  "mp_cache_http_make_error e code reason error_code message allow_header extra =
     (let error_name = (if mp_cache_http_error_code_is_defined error_code then the error_code else ''internal_error'');
          description = (case message of None \<Rightarrow> ''request failed'' | Some m \<Rightarrow> m)
      in \<lparr>status_code = code, status_text = reason,
          response_body = mp_cache_http_strdup_printf e (json_object
            [(''error_code'', json_text error_name), (''error_description'', json_text description),
             (''error'', json_text error_name), (''message'', json_text description)]),
          allow_header_value = allow_header, extra_headers = extra\<rparr>)"

text \<open>The statuses the handlers use, with the reason phrases of the code.\<close>

abbreviation bad_request :: "env \<Rightarrow> string \<Rightarrow> mp_cache_http_response" where
  "bad_request e message \<equiv>
     mp_cache_http_make_error e 400 ''Bad Request'' (Some ''invalid_argument'') (Some message) None None"

abbreviation not_found :: "env \<Rightarrow> string \<Rightarrow> mp_cache_http_response" where
  "not_found e message \<equiv> mp_cache_http_make_error e 404 ''Not Found'' (Some ''not_found'') (Some message) None None"

abbreviation internal_error :: "env \<Rightarrow> string \<Rightarrow> mp_cache_http_response" where
  "internal_error e message \<equiv>
     mp_cache_http_make_error e 500 ''Internal Server Error'' (Some ''internal_error'') (Some message) None None"

abbreviation method_not_allowed :: "env \<Rightarrow> string \<Rightarrow> mp_cache_http_response" where
  "method_not_allowed e allow \<equiv>
     mp_cache_http_make_error e 405 ''Method Not Allowed'' (Some ''invalid_argument'') (Some ''method not allowed'')
       (Some allow) None"

abbreviation ok_response :: "env \<Rightarrow> string \<Rightarrow> mp_cache_http_response" where
  "ok_response e body \<equiv> zero_response\<lparr>status_code := 200, status_text := ''OK'',
     response_body := mp_cache_http_strdup_printf e body\<rparr>"


section \<open>Sweep, rate limit, authentication\<close>

definition mp_cache_http_maybe_sweep :: "mp_cache_http_server \<Rightarrow> int \<Rightarrow> mp_cache_http_server" where
  "mp_cache_http_maybe_sweep server now =
     (if last_sweep_at_utc server = 0 \<or>
         now - last_sweep_at_utc server \<ge> uint (sweep_interval_seconds (server_config server))
      then server\<lparr>server_store := snd (mp_cache_store_purge_expired (server_store server) now),
                  last_sweep_at_utc := now\<rparr>
      else server)"

text \<open>The index of the subject's entry, as the loop finds it.\<close>

definition limit_index :: "mp_cache_rate_limiter \<Rightarrow> string \<Rightarrow> nat option" where
  "limit_index limiter subject =
     (let i = length (takeWhile (\<lambda>entry. limit_subject entry \<noteq> subject) (limit_entries limiter)) in
      if i < length (limit_entries limiter) then Some i else None)"

definition limit_add_subject ::
  "env \<Rightarrow> mp_cache_rate_limiter \<Rightarrow> string \<Rightarrow> int \<Rightarrow> mp_cache_rate_limiter option" where
  "limit_add_subject e limiter subject now =
     (if length (limit_entries limiter) = limit_capacity limiter \<and> \<not> ok 0 e then None
      else Some \<lparr>limit_entries = limit_entries limiter @
             [\<lparr>limit_subject = snprintf_s MP_CACHE_CLIENT_ID_CAP subject, window_started_at = now, request_count = 0\<rparr>],
           limit_capacity =
             (if length (limit_entries limiter) = limit_capacity limiter
              then (if limit_capacity limiter = 0 then 8 else limit_capacity limiter * 2)
              else limit_capacity limiter)\<rparr>)"

definition limit_count ::
  "mp_cache_config \<Rightarrow> mp_cache_rate_limit_entry \<Rightarrow> int \<Rightarrow> bool \<times> mp_cache_rate_limit_entry" where
  "limit_count config entry now =
     (let entry' = (if now - window_started_at entry \<ge> uint (rate_limit_window_seconds config)
                    then entry\<lparr>window_started_at := now, request_count := 0\<rparr> else entry)
      in if request_count entry' \<ge> rate_limit_requests config then (False, entry')
         else (True, entry'\<lparr>request_count := request_count entry' + 1\<rparr>))"

definition mp_cache_http_rate_limit_allow ::
  "env \<Rightarrow> mp_cache_http_server \<Rightarrow> string ptr \<Rightarrow> int \<Rightarrow> bool \<times> mp_cache_http_server" where
  "mp_cache_http_rate_limit_allow e server subject now =
     (case subject of
        None \<Rightarrow> (False, server)
      | Some name \<Rightarrow>
          (case (case limit_index (rate_limiter server) name of
                   Some index \<Rightarrow> Some (index, rate_limiter server)
                 | None \<Rightarrow> map_option (Pair (length (limit_entries (rate_limiter server))))
                             (limit_add_subject e (rate_limiter server) name now)) of
             None \<Rightarrow> (False, server)
           | Some (index, limiter) \<Rightarrow>
               (case limit_count (server_config server) (limit_entries limiter ! index) now of
                  (allowed, entry) \<Rightarrow>
                    (allowed, server\<lparr>rate_limiter :=
                       limiter\<lparr>limit_entries := (limit_entries limiter)[index := entry]\<rparr>\<rparr>))))"

text \<open>The error response, or the principal.\<close>

definition unauthorized_response :: "env \<Rightarrow> string \<Rightarrow> mp_cache_http_response" where
  "unauthorized_response e message =
     mp_cache_http_make_error e 401 ''Unauthorized'' (Some ''unauthorized'') (Some message) None
       (Some (''WWW-Authenticate: Bearer realm='' @ json_text ''mp-cache'' @ CRLF))"

definition mp_cache_http_authenticate ::
  "env \<Rightarrow> mp_cache_http_server \<Rightarrow> mp_cache_http_request \<Rightarrow> u32 \<Rightarrow> int \<Rightarrow>
     (mp_cache_http_response + mp_cache_principal) \<times> mp_cache_http_server" where
  "mp_cache_http_authenticate e server request required_role now =
     (let unauthorized = count_metric (\<lambda>m. m\<lparr>unauthorized_requests := unauthorized_requests m + 1\<rparr>) server;
          forbidden = count_metric (\<lambda>m. m\<lparr>forbidden_requests := forbidden_requests m + 1\<rparr>) server
      in case mp_cache_http_extract_bearer_token (Some (authorization_header request)) of
           None \<Rightarrow> (Inl (unauthorized_response (at 0 e) ''missing bearer token''), unauthorized)
         | Some bearer_token \<Rightarrow>
             if bearer_token = [] then (Inl (unauthorized_response (at 0 e) ''missing bearer token''), unauthorized)
             else
               (case mp_cache_security_authenticate (server_security server) (Some bearer_token) of
                  (MP_CACHE_SECURITY_STATUS_OK, Some out_principal) \<Rightarrow>
                    if \<not> mp_cache_role_allows (principal_role out_principal) required_role then
                      (Inl (mp_cache_http_make_error (at 2 e) 403 ''Forbidden'' (Some ''forbidden'') (Some ''insufficient role'')
                         None None), forbidden)
                    else
                      (case mp_cache_http_rate_limit_allow (at 3 e) server (Some (principal_id out_principal)) now of
                         (False, server') \<Rightarrow>
                           (Inl (mp_cache_http_make_error (at 4 e) 429 ''Too Many Requests'' (Some ''limit_exceeded'')
                              (Some ''rate limit exceeded'') None (Some (''Retry-After: 60'' @ CRLF))),
                            count_metric (\<lambda>m. m\<lparr>rate_limited_requests := rate_limited_requests m + 1\<rparr>) server')
                       | (True, server') \<Rightarrow> (Inr out_principal, server'))
                | _ \<Rightarrow> (Inl (unauthorized_response (at 1 e) ''invalid bearer token''), unauthorized)))"

definition mp_cache_http_now :: "env \<Rightarrow> int" where
  "mp_cache_http_now e = clock e []"


section \<open>Documents\<close>

abbreviation json_u64 :: "u64 \<Rightarrow> string" where
  "json_u64 w \<equiv> print_nat (unat w)"

abbreviation json_u32 :: "u32 \<Rightarrow> string" where
  "json_u32 w \<equiv> print_nat (unat w)"

definition mp_cache_http_build_health_body :: "env \<Rightarrow> mp_cache_http_server \<Rightarrow> int \<Rightarrow> string option" where
  "mp_cache_http_build_health_body e server now =
     (let stats = mp_cache_store_get_stats (server_store server); config = server_config server in
      mp_cache_http_strdup_printf e (json_object
        [(''status'', json_text ''ok''), (''service'', json_text (service_name config)),
         (''environment'', json_text (environment_name config)), (''socket_path'', json_text (socket_path config)),
         (''uptime_seconds'', print_int (now - started_at_utc server)),
         (''default_ttl_seconds'', json_u32 (default_ttl_seconds config)),
         (''memory_limit_bytes'', json_u64 (stats_memory_limit stats)),
         (''entry_count'', json_u64 (stats_entry_count stats)), (''bytes_used'', json_u64 (stats_bytes_used stats))]))"

definition mp_cache_http_build_stats_body :: "env \<Rightarrow> mp_cache_http_server \<Rightarrow> int \<Rightarrow> string option" where
  "mp_cache_http_build_stats_body e server now =
     (let stats = mp_cache_store_get_stats (server_store server); m = metrics server in
      mp_cache_http_strdup_printf e (json_object
        [(''uptime_seconds'', print_int (now - started_at_utc server)),
         (''entry_count'', json_u64 (stats_entry_count stats)), (''bytes_used'', json_u64 (stats_bytes_used stats)),
         (''memory_limit_bytes'', json_u64 (stats_memory_limit stats)),
         (''total_requests'', json_u64 (total_requests m)),
         (''unauthorized_requests'', json_u64 (unauthorized_requests m)),
         (''forbidden_requests'', json_u64 (forbidden_requests m)),
         (''rate_limited_requests'', json_u64 (rate_limited_requests m)),
         (''cache_hits'', json_u64 (cache_hits m)), (''cache_misses'', json_u64 (cache_misses m)),
         (''cache_sets'', json_u64 (cache_sets m)), (''cache_deletes'', json_u64 (cache_deletes m)),
         (''client_registrations'', json_u64 (client_registrations m)),
         (''token_rotations'', json_u64 (token_rotations m)),
         (''token_invalidations'', json_u64 (token_invalidations m)),
         (''exports'', json_u64 (state_exports m)), (''imports'', json_u64 (state_imports m)),
         (''log_reads'', json_u64 (log_reads m))]))"

definition mp_cache_http_build_memory_body :: "env \<Rightarrow> mp_cache_http_server \<Rightarrow> string option" where
  "mp_cache_http_build_memory_body e server =
     (let stats = mp_cache_store_get_stats (server_store server) in
      mp_cache_http_strdup_printf e (json_object
        [(''entry_count'', json_u64 (stats_entry_count stats)), (''bytes_used'', json_u64 (stats_bytes_used stats)),
         (''memory_limit_bytes'', json_u64 (stats_memory_limit stats))]))"

definition mp_cache_http_resilient_checkpoint ::
  "env \<Rightarrow> mp_cache_http_server \<Rightarrow> filesystem \<Rightarrow> int \<Rightarrow> bool \<times> filesystem" where
  "mp_cache_http_resilient_checkpoint e server fs now =
     mp_cache_storage_checkpoint e (server_storage server) fs (server_store server) (server_security server) now"

text \<open>
  How every writing handler persists: the journal append, whose result is given, and a checkpoint
  only when it failed.
\<close>

definition persist ::
  "env \<Rightarrow> mp_cache_http_server \<Rightarrow> int \<Rightarrow> bool \<times> filesystem \<Rightarrow> bool \<times> filesystem" where
  "persist e server now appended =
     (case appended of
        (True, fs) \<Rightarrow> (True, fs)
      | (False, fs) \<Rightarrow> mp_cache_http_resilient_checkpoint e server fs now)"


section \<open>Cache endpoints\<close>

definition mp_cache_http_handle_cache_get ::
  "env \<Rightarrow> mp_cache_http_server \<Rightarrow> string \<Rightarrow> int \<Rightarrow> mp_cache_http_response \<times> mp_cache_http_server" where
  "mp_cache_http_handle_cache_get e server key now =
     (case mp_cache_store_get_copy (at 0 e) (server_store server) (Some (bytes_of key)) now of
        (status, out, store') \<Rightarrow>
          (let server' = server\<lparr>server_store := store'\<rparr>;
               (v, expires_at) = (case out of None \<Rightarrow> ([], 0) | Some found \<Rightarrow> found);
               capacity = ((length v + 2) div 3) * 4 + 1
           in if status = MP_CACHE_STORE_STATUS_NOT_FOUND \<or> status = MP_CACHE_STORE_STATUS_EXPIRED then
                (not_found (at 1 e) ''cache key not found'',
                 count_metric (\<lambda>m. m\<lparr>cache_misses := cache_misses m + 1\<rparr>) server')
              else if status \<noteq> MP_CACHE_STORE_STATUS_OK then (internal_error (at 2 e) ''cache read failed'', server')
              else if \<not> ok 3 e then (internal_error (at 4 e) ''value encoding failed'', server')
              else
                (case mp_cache_base64_encode v capacity of
                   Inl _ \<Rightarrow> (internal_error (at 4 e) ''value encoding failed'', server')
                 | Inr value_base64 \<Rightarrow>
                     (ok_response (at 5 e) (json_object
                        [(''key'', json_text key), (''value_base64'', json_text value_base64),
                         (''value_bytes'', print_nat (length v)),
                         (''expires_at_utc_seconds'', print_int expires_at)]),
                      count_metric (\<lambda>m. m\<lparr>cache_hits := cache_hits m + 1\<rparr>) server'))))"

definition mp_cache_http_handle_cache_put ::
  "env \<Rightarrow> mp_cache_http_server \<Rightarrow> filesystem \<Rightarrow> string \<Rightarrow> mp_cache_http_request \<Rightarrow> int \<Rightarrow>
     mp_cache_http_response \<times> mp_cache_http_server \<times> filesystem" where
  "mp_cache_http_handle_cache_put e server fs key request now =
     (case (if request_body request = None \<or> request_body_length request = 0 then Inl EINVAL
            else mp_cache_http_extract_json_string (request_body request) ''value_base64'' MP_CACHE_HTTP_BODY_CAPACITY) of
        Inl _ \<Rightarrow> (bad_request (at 0 e) ''value_base64 is required'', server, fs)
      | Inr value_base64 \<Rightarrow>
          (case (case mp_cache_http_extract_json_u32 (request_body request) ''ttl_seconds'' of
                   Inr ttl \<Rightarrow> Some ttl
                 | Inl err \<Rightarrow> if err = ENOENT then Some (default_ttl_seconds (server_config server)) else None) of
             None \<Rightarrow> (bad_request (at 1 e) ''ttl_seconds must be an integer'', server, fs)
           | Some ttl_seconds \<Rightarrow>
               if ttl_seconds < min_ttl_seconds (server_config server) \<or> ttl_seconds > max_ttl_seconds (server_config server)
               then (bad_request (at 2 e) ''ttl_seconds is outside the configured bounds'', server, fs)
               else
                 (case (if ok 3 e then mp_cache_base64_decode (Some value_base64) ((length value_base64 div 4) * 3 + 3)
                        else Inl ENOMEM) of
                    Inl _ \<Rightarrow> (bad_request (at 4 e) ''value_base64 is invalid'', server, fs)
                  | Inr value_bytes \<Rightarrow>
                      (case mp_cache_store_set (at 5 e) (server_store server) (Some (bytes_of key)) (Some value_bytes)
                          ttl_seconds now of
                         (status, store') \<Rightarrow>
                           (let server' = server\<lparr>server_store := store'\<rparr> in
                            if status = MP_CACHE_STORE_STATUS_LIMIT_EXCEEDED then
                              (mp_cache_http_make_error (at 6 e) 413 ''Payload Too Large'' (Some ''limit_exceeded'')
                                 (Some ''cache size limit exceeded'') None None, server', fs)
                            else if status \<noteq> MP_CACHE_STORE_STATUS_OK then
                              (internal_error (at 7 e) ''cache write failed'', server', fs)
                            else
                              (case persist (at 9 e) server' now
                                  (mp_cache_storage_append_set (at 8 e) (server_storage server') fs (Some (bytes_of key))
                                     (Some value_bytes) (now + uint ttl_seconds)) of
                                 (False, fs') \<Rightarrow>
                                   (internal_error (at 10 e) ''cache was updated but persistence failed'', server', fs')
                               | (True, fs') \<Rightarrow>
                                   (ok_response (at 11 e) (json_object
                                      [(''key'', json_text key), (''ttl_seconds'', json_u32 ttl_seconds),
                                       (''expires_at_utc_seconds'', print_int (now + uint ttl_seconds))]),
                                    count_metric (\<lambda>m. m\<lparr>cache_sets := cache_sets m + 1\<rparr>) server', fs')))))))"

definition mp_cache_http_handle_cache_delete ::
  "env \<Rightarrow> mp_cache_http_server \<Rightarrow> filesystem \<Rightarrow> string \<Rightarrow> int \<Rightarrow>
     mp_cache_http_response \<times> mp_cache_http_server \<times> filesystem" where
  "mp_cache_http_handle_cache_delete e server fs key now =
     (case mp_cache_store_delete (server_store server) (Some (bytes_of key)) of
        (status, store') \<Rightarrow>
          (let server' = server\<lparr>server_store := store'\<rparr> in
           if status = MP_CACHE_STORE_STATUS_NOT_FOUND then (not_found (at 0 e) ''cache key not found'', server', fs)
           else if status \<noteq> MP_CACHE_STORE_STATUS_OK then (internal_error (at 1 e) ''cache delete failed'', server', fs)
           else
             (case persist (at 3 e) server' now
                 (mp_cache_storage_append_delete (at 2 e) (server_storage server') fs (Some (bytes_of key))) of
                (False, fs') \<Rightarrow> (internal_error (at 4 e) ''cache was deleted but persistence failed'', server', fs')
              | (True, fs') \<Rightarrow>
                  (ok_response (at 5 e) (json_object [(''key'', json_text key), (''deleted'', ''true'')]),
                   count_metric (\<lambda>m. m\<lparr>cache_deletes := cache_deletes m + 1\<rparr>) server', fs'))))"


section \<open>Operator and administrator endpoints\<close>

definition mp_cache_http_handle_logs ::
  "env \<Rightarrow> mp_cache_http_server \<Rightarrow> filesystem \<Rightarrow> mp_cache_http_request \<Rightarrow> mp_cache_http_response \<times> mp_cache_http_server" where
  "mp_cache_http_handle_logs e server fs request =
     (case (case mp_cache_http_extract_query_u32 (Some (query_string request)) ''tail'' of
              Inr lines \<Rightarrow> Some lines
            | Inl err \<Rightarrow> if err = ENOENT then Some 50 else None) of
        None \<Rightarrow> (bad_request (at 0 e) ''tail must be a positive integer'', server)
      | Some tail_lines \<Rightarrow>
          (case mp_cache_log_read_latest_tail (at 1 e) fs (Some (log_directory (server_config server)))
              (max_log_lines (server_config server)) tail_lines (Some MP_CACHE_PATH_CAP) of
             Inl ENOENT \<Rightarrow>
               (ok_response (at 2 e) (json_object [(''file'', ''null''), (''tail_lines'', ''0''), (''text'', json_text [])]),
                server)
           | Inl _ \<Rightarrow> (internal_error (at 3 e) ''failed to read logs'', server)
           | Inr (log_file_name, log_text) \<Rightarrow>
               (case mp_cache_http_escape_json (at 4 e) log_text of
                  None \<Rightarrow> (internal_error (at 5 e) ''failed to encode logs'', server)
                | Some escaped \<Rightarrow>
                    (ok_response (at 6 e) (json_object
                       [(''file'', json_text log_file_name), (''tail_lines'', json_u32 tail_lines),
                        (''text'', json_text escaped)]),
                     count_metric (\<lambda>m. m\<lparr>log_reads := log_reads m + 1\<rparr>) server))))"

text \<open>The common end of the three client handlers: find the record and persist it.\<close>

definition persist_client ::
  "env \<Rightarrow> mp_cache_http_server \<Rightarrow> filesystem \<Rightarrow> string \<Rightarrow> int \<Rightarrow> bool \<times> filesystem" where
  "persist_client e server fs cid now =
     (case mp_cache_security_find_client (server_security server) (Some cid) of
        None \<Rightarrow> (False, fs)
      | Some client \<Rightarrow>
          persist (at 1 e) server now (mp_cache_storage_append_client (at 0 e) (server_storage server) fs (Some client)))"

definition mp_cache_http_handle_register_client ::
  "env \<Rightarrow> mp_cache_http_server \<Rightarrow> filesystem \<Rightarrow> mp_cache_http_request \<Rightarrow> int \<Rightarrow>
     mp_cache_http_response \<times> mp_cache_http_server \<times> filesystem" where
  "mp_cache_http_handle_register_client e server fs request now =
     (case (mp_cache_http_extract_json_string (request_body request) ''client_id'' MP_CACHE_CLIENT_ID_CAP,
            mp_cache_http_extract_json_string (request_body request) ''role'' 16) of
        (Inr cid, Inr role_text) \<Rightarrow>
          (let role = mp_cache_role_from_string (Some role_text) in
           if role = MP_CACHE_ROLE_NONE then
             (bad_request (at 1 e) ''role must be client, operator, or admin'', server, fs)
           else
             (case mp_cache_security_register_client (at 2 e) (server_security server) (Some cid) role
                 (Some MP_CACHE_TOKEN_TEXT_CAP) of
                (status, issued, security') \<Rightarrow>
                  (let server' = server\<lparr>server_security := security'\<rparr> in
                   if status = MP_CACHE_SECURITY_STATUS_CONFLICT then
                     (mp_cache_http_make_error (at 3 e) 409 ''Conflict'' (Some ''conflict'') (Some ''client_id already exists'')
                        None None, server', fs)
                   else if status \<noteq> MP_CACHE_SECURITY_STATUS_OK then
                     (bad_request (at 4 e) ''failed to register client'', server', fs)
                   else
                     (case persist_client (at 5 e) server' fs cid now of
                        (False, fs') \<Rightarrow> (internal_error (at 6 e) ''client was created but persistence failed'', server', fs')
                      | (True, fs') \<Rightarrow>
                          (ok_response (at 7 e) (json_object
                             [(''client_id'', json_text cid), (''role'', json_text (mp_cache_role_name role)),
                              (''token'', json_text (case issued of None \<Rightarrow> [] | Some tok \<Rightarrow> tok))]),
                           count_metric (\<lambda>m. m\<lparr>client_registrations := client_registrations m + 1\<rparr>) server', fs')))))
      | _ \<Rightarrow> (bad_request (at 0 e) ''client_id and role are required'', server, fs))"

definition mp_cache_http_handle_rotate_client ::
  "env \<Rightarrow> mp_cache_http_server \<Rightarrow> filesystem \<Rightarrow> string \<Rightarrow> int \<Rightarrow>
     mp_cache_http_response \<times> mp_cache_http_server \<times> filesystem" where
  "mp_cache_http_handle_rotate_client e server fs cid now =
     (case mp_cache_security_rotate_client_token (at 0 e) (server_security server) (Some cid)
         (Some MP_CACHE_TOKEN_TEXT_CAP) of
        (status, issued, security') \<Rightarrow>
          (let server' = server\<lparr>server_security := security'\<rparr> in
           if status = MP_CACHE_SECURITY_STATUS_NOT_FOUND then (not_found (at 1 e) ''client_id not found'', server', fs)
           else if status \<noteq> MP_CACHE_SECURITY_STATUS_OK then (bad_request (at 2 e) ''failed to rotate token'', server', fs)
           else
             (case persist_client (at 3 e) server' fs cid now of
                (False, fs') \<Rightarrow> (internal_error (at 4 e) ''token was rotated but persistence failed'', server', fs')
              | (True, fs') \<Rightarrow>
                  (ok_response (at 5 e) (json_object
                     [(''client_id'', json_text cid),
                      (''token'', json_text (case issued of None \<Rightarrow> [] | Some tok \<Rightarrow> tok))]),
                   count_metric (\<lambda>m. m\<lparr>token_rotations := token_rotations m + 1\<rparr>) server', fs'))))"

definition mp_cache_http_handle_invalidate_client ::
  "env \<Rightarrow> mp_cache_http_server \<Rightarrow> filesystem \<Rightarrow> string \<Rightarrow> int \<Rightarrow>
     mp_cache_http_response \<times> mp_cache_http_server \<times> filesystem" where
  "mp_cache_http_handle_invalidate_client e server fs cid now =
     (case mp_cache_security_invalidate_client_token (server_security server) (Some cid) of
        (status, security') \<Rightarrow>
          (let server' = server\<lparr>server_security := security'\<rparr> in
           if status = MP_CACHE_SECURITY_STATUS_NOT_FOUND then (not_found (at 0 e) ''client_id not found'', server', fs)
           else if status \<noteq> MP_CACHE_SECURITY_STATUS_OK then (bad_request (at 1 e) ''failed to invalidate token'', server', fs)
           else
             (case persist_client (at 2 e) server' fs cid now of
                (False, fs') \<Rightarrow> (internal_error (at 3 e) ''token was invalidated but persistence failed'', server', fs')
              | (True, fs') \<Rightarrow>
                  (ok_response (at 4 e) (json_object [(''client_id'', json_text cid), (''token_active'', ''false'')]),
                   count_metric (\<lambda>m. m\<lparr>token_invalidations := token_invalidations m + 1\<rparr>) server', fs'))))"

definition mp_cache_http_handle_export ::
  "env \<Rightarrow> mp_cache_http_server \<Rightarrow> filesystem \<Rightarrow> int \<Rightarrow> mp_cache_http_response \<times> mp_cache_http_server \<times> filesystem" where
  "mp_cache_http_handle_export e server fs now =
     (case mp_cache_storage_export_state (at 0 e) (server_storage server) fs (server_store server)
         (server_security server) now of
        (None, fs') \<Rightarrow> (internal_error (at 1 e) ''state export failed'', server, fs')
      | (Some export_result, fs') \<Rightarrow>
          (ok_response (at 2 e) (json_object
             [(''path'', json_text (export_path export_result)),
              (''digest_sha256'', json_text (digest_hex export_result)),
              (''entry_count'', print_nat (export_entry_count export_result)),
              (''client_count'', print_nat (export_client_count export_result))]),
           count_metric (\<lambda>m. m\<lparr>state_exports := state_exports m + 1\<rparr>) server, fs'))"

definition mp_cache_http_handle_import ::
  "env \<Rightarrow> mp_cache_http_server \<Rightarrow> filesystem \<Rightarrow> mp_cache_http_request \<Rightarrow> int \<Rightarrow>
     mp_cache_http_response \<times> mp_cache_http_server \<times> filesystem" where
  "mp_cache_http_handle_import e server fs request now =
     (case mp_cache_http_extract_json_string (request_body request) ''path'' MP_CACHE_PATH_CAP of
        Inl _ \<Rightarrow> (bad_request (at 0 e) ''path is required'', server, fs)
      | Inr import_path \<Rightarrow>
          (case mp_cache_storage_import_state (at 1 e) (server_storage server) fs (Some import_path)
              (server_store server) (server_security server) now of
             (result, fs', store', security') \<Rightarrow>
               (let server' = server\<lparr>server_store := store', server_security := security'\<rparr> in
                if \<not> result then
                  (bad_request (at 2 e) ''state import failed integrity or bounds checks'', server', fs')
                else
                  (ok_response (at 3 e) (json_object [(''path'', json_text import_path), (''imported'', ''true'')]),
                   count_metric (\<lambda>m. m\<lparr>state_imports := state_imports m + 1\<rparr>) server', fs'))))"

text \<open>
  The purge loop: deleted and missing counts and whether an append failed. It stops with an error
  when a deletion reports anything but success or a missing key.
\<close>

fun purge_selected_loop ::
  "env \<Rightarrow> mp_cache_storage \<Rightarrow> string list \<Rightarrow> mp_cache_store \<Rightarrow> filesystem \<Rightarrow> nat \<Rightarrow> nat \<Rightarrow> bool \<Rightarrow>
     bool \<times> mp_cache_store \<times> filesystem \<times> nat \<times> nat \<times> bool" where
  "purge_selected_loop e storage [] store fs purged missing needs_checkpoint =
     (True, store, fs, purged, missing, needs_checkpoint)"
| "purge_selected_loop e storage (key # request_keys) store fs purged missing needs_checkpoint =
     (case mp_cache_store_delete store (Some (bytes_of key)) of
        (status, store') \<Rightarrow>
          if status = MP_CACHE_STORE_STATUS_NOT_FOUND then
            purge_selected_loop e storage request_keys store' fs purged (missing + 1) needs_checkpoint
          else if status \<noteq> MP_CACHE_STORE_STATUS_OK then (False, store', fs, purged, missing, needs_checkpoint)
          else if needs_checkpoint then
            purge_selected_loop e storage request_keys store' fs (purged + 1) missing needs_checkpoint
          else
            (case mp_cache_storage_append_delete (at (length request_keys) e) storage fs (Some (bytes_of key)) of
               (appended, fs') \<Rightarrow>
                 purge_selected_loop e storage request_keys store' fs' (purged + 1) missing (\<not> appended)))"

definition mp_cache_http_handle_purge_selected ::
  "env \<Rightarrow> mp_cache_http_server \<Rightarrow> filesystem \<Rightarrow> mp_cache_http_request \<Rightarrow> int \<Rightarrow>
     mp_cache_http_response \<times> mp_cache_http_server \<times> filesystem" where
  "mp_cache_http_handle_purge_selected e server fs request now =
     (case (if request_body request = None \<or> request_body_length request = 0 then Inl EINVAL
            else mp_cache_http_extract_json_string_array (at 0 e) (request_body request) ''keys'') of
        Inl _ \<Rightarrow> (bad_request (at 1 e) ''keys must be a non-empty string array'', server, fs)
      | Inr request_keys \<Rightarrow>
          if request_keys = [] then (bad_request (at 1 e) ''keys must be a non-empty string array'', server, fs)
          else if list_ex (\<lambda>key. key = [] \<or> length key > unat (max_key_bytes (server_config server))) request_keys
          then (bad_request (at 2 e) ''keys must contain only valid cache keys'', server, fs)
          else
            (case purge_selected_loop (at 3 e) (server_storage server) request_keys (server_store server) fs 0 0 False of
               (done, store', fs', purged, missing, needs_checkpoint) \<Rightarrow>
                 (let server' = server\<lparr>server_store := store'\<rparr> in
                  if \<not> done then (internal_error (at 4 e) ''selected key purge failed'', server', fs')
                  else
                    (case (if needs_checkpoint then mp_cache_http_resilient_checkpoint (at 5 e) server' fs' now
                           else (True, fs')) of
                       (False, fs'') \<Rightarrow>
                         (internal_error (at 6 e) ''selected keys were purged but persistence failed'', server', fs'')
                     | (True, fs'') \<Rightarrow>
                         (ok_response (at 7 e) (json_object
                            [(''requested_keys'', print_nat (length request_keys)), (''purged_keys'', print_nat purged),
                             (''missing_keys'', print_nat missing)]),
                          count_metric (\<lambda>m. m\<lparr>cache_deletes := cache_deletes m + of_nat purged\<rparr>) server', fs'')))))"

definition mp_cache_http_handle_purge_all ::
  "env \<Rightarrow> mp_cache_http_server \<Rightarrow> filesystem \<Rightarrow> int \<Rightarrow> mp_cache_http_response \<times> mp_cache_http_server \<times> filesystem" where
  "mp_cache_http_handle_purge_all e server fs now =
     (let server' = server\<lparr>server_store := mp_cache_store_clear (server_store server)\<rparr> in
      case persist (at 1 e) server' now (mp_cache_storage_append_purge_all (at 0 e) (server_storage server') fs) of
        (False, fs') \<Rightarrow> (internal_error (at 2 e) ''cache was purged but persistence failed'', server', fs')
      | (True, fs') \<Rightarrow> (ok_response (at 3 e) (json_object [(''purged'', ''true'')]), server', fs'))"

definition mp_cache_http_handle_root :: "env \<Rightarrow> mp_cache_http_request \<Rightarrow> mp_cache_http_response" where
  "mp_cache_http_handle_root e request =
     (if request_method request \<noteq> ''GET'' then method_not_allowed (at 0 e) ''GET''
      else ok_response (at 1 e) (json_object
        [(''service'', json_text ''mp-cache''), (''message'', json_text ''use /health or /v1/* endpoints'')]))"

definition mp_cache_http_handle_uptime :: "env \<Rightarrow> mp_cache_http_server \<Rightarrow> int \<Rightarrow> mp_cache_http_response" where
  "mp_cache_http_handle_uptime e server now =
     ok_response e (json_object
       [(''uptime_seconds'', print_int (now - started_at_utc server)),
        (''started_at_utc_seconds'', print_int (started_at_utc server))])"


section \<open>Dispatch\<close>

text \<open>
  The three steps most routes repeat: the method check, authentication with the route's role, and
  the handler.
\<close>

definition guarded ::
  "env \<Rightarrow> mp_cache_http_server \<Rightarrow> filesystem \<Rightarrow> mp_cache_http_request \<Rightarrow> string \<Rightarrow> u32 \<Rightarrow> int \<Rightarrow>
     (env \<Rightarrow> mp_cache_http_server \<Rightarrow> mp_cache_http_response \<times> mp_cache_http_server \<times> filesystem) \<Rightarrow>
     mp_cache_http_response \<times> mp_cache_http_server \<times> filesystem" where
  "guarded e server fs request verb role now handler =
     (if request_method request \<noteq> verb then (method_not_allowed (at 0 e) verb, server, fs)
      else
        (case mp_cache_http_authenticate (at 1 e) server request role now of
           (Inl response, server') \<Rightarrow> (response, server', fs)
         | (Inr _, server') \<Rightarrow> handler (at 2 e) server'))"

text \<open>A handler that leaves the file system alone.\<close>

abbreviation keep_files ::
  "filesystem \<Rightarrow> mp_cache_http_response \<times> mp_cache_http_server \<Rightarrow>
     mp_cache_http_response \<times> mp_cache_http_server \<times> filesystem" where
  "keep_files fs result \<equiv> (fst result, snd result, fs)"

definition route_cache ::
  "env \<Rightarrow> mp_cache_http_server \<Rightarrow> filesystem \<Rightarrow> mp_cache_http_request \<Rightarrow> int \<Rightarrow>
     mp_cache_http_response \<times> mp_cache_http_server \<times> filesystem" where
  "route_cache e server fs request now =
     (case mp_cache_http_percent_decode (Some (drop (length ''/v1/cache/'') (request_path request)))
         (MP_CACHE_NAME_CAP * 4) of
        Inl _ \<Rightarrow> (bad_request (at 0 e) ''cache key is invalid'', server, fs)
      | Inr decoded \<Rightarrow>
          (let key = c_string decoded in
           if key = [] then (bad_request (at 0 e) ''cache key is invalid'', server, fs)
           else
             (case mp_cache_http_authenticate (at 1 e) server request MP_CACHE_ROLE_CLIENT now of
                (Inl response, server') \<Rightarrow> (response, server', fs)
              | (Inr _, server') \<Rightarrow>
                  if request_method request = ''GET'' then
                    keep_files fs (mp_cache_http_handle_cache_get (at 2 e) server' key now)
                  else if request_method request = ''PUT'' then
                    mp_cache_http_handle_cache_put (at 3 e) server' fs key request now
                  else if request_method request = ''DELETE'' then
                    mp_cache_http_handle_cache_delete (at 4 e) server' fs key now
                  else (method_not_allowed (at 5 e) ''GET, PUT, DELETE'', server', fs))))"

text \<open>The client id in front of a suffix that must end the path.\<close>

definition client_route_id :: "string \<Rightarrow> string \<Rightarrow> string option" where
  "client_route_id path suffix =
     (case strstr (drop (length ''/v1/clients/'') path) suffix of
        None \<Rightarrow> None
      | Some (before, from) \<Rightarrow> if from = suffix then Some before else None)"

definition checked_client_id ::
  "env \<Rightarrow> mp_cache_http_server \<Rightarrow> filesystem \<Rightarrow> string \<Rightarrow>
     (env \<Rightarrow> mp_cache_http_response \<times> mp_cache_http_server \<times> filesystem) \<Rightarrow>
     mp_cache_http_response \<times> mp_cache_http_server \<times> filesystem" where
  "checked_client_id e server fs cid handler =
     (if length cid = 0 \<or> length cid \<ge> MP_CACHE_CLIENT_ID_CAP
      then (bad_request (at 0 e) ''client_id is invalid'', server, fs)
      else handler (at 1 e))"

text \<open>The routes after the two client routes with an id.\<close>

definition route_admin ::
  "env \<Rightarrow> mp_cache_http_server \<Rightarrow> filesystem \<Rightarrow> mp_cache_http_request \<Rightarrow> int \<Rightarrow>
     mp_cache_http_response \<times> mp_cache_http_server \<times> filesystem" where
  "route_admin e server fs request now =
     (let path = request_path request in
      if path = ''/v1/export'' then
        guarded (at 0 e) server fs request ''POST'' MP_CACHE_ROLE_ADMIN now
          (\<lambda>e' server'. mp_cache_http_handle_export e' server' fs now)
      else if path = ''/v1/import'' then
        guarded (at 1 e) server fs request ''POST'' MP_CACHE_ROLE_ADMIN now
          (\<lambda>e' server'. mp_cache_http_handle_import e' server' fs request now)
      else if path = ''/v1/purge/all'' then
        guarded (at 2 e) server fs request ''POST'' MP_CACHE_ROLE_ADMIN now
          (\<lambda>e' server'. mp_cache_http_handle_purge_all e' server' fs now)
      else if path = ''/v1/purge/keys'' then
        guarded (at 3 e) server fs request ''POST'' MP_CACHE_ROLE_ADMIN now
          (\<lambda>e' server'. mp_cache_http_handle_purge_selected e' server' fs request now)
      else (not_found (at 4 e) ''route not found'', server, fs))"

definition mp_cache_http_route_request ::
  "env \<Rightarrow> mp_cache_http_server \<Rightarrow> filesystem \<Rightarrow> mp_cache_http_request \<Rightarrow>
     mp_cache_http_response \<times> mp_cache_http_server \<times> filesystem" where
  "mp_cache_http_route_request e server0 fs request =
     (let now = mp_cache_http_now (at 0 e);
          path = request_path request;
          server = mp_cache_http_maybe_sweep
            (count_metric (\<lambda>m. m\<lparr>total_requests := total_requests m + 1\<rparr>) server0) now
      in if mp_cache_http_path_is_health path then
           (if request_method request \<noteq> ''GET'' then (method_not_allowed (at 1 e) ''GET'', server, fs)
            else (zero_response\<lparr>status_code := 200, status_text := ''OK'',
                    response_body := mp_cache_http_build_health_body (at 2 e) server now\<rparr>, server, fs))
         else if path = ''/'' then (mp_cache_http_handle_root (at 3 e) request, server, fs)
         else if starts_with path ''/v1/cache/'' then route_cache (at 4 e) server fs request now
         else if path = ''/v1/stats'' then
           guarded (at 5 e) server fs request ''GET'' MP_CACHE_ROLE_OPERATOR now
             (\<lambda>e' server'. (zero_response\<lparr>status_code := 200, status_text := ''OK'',
                response_body := mp_cache_http_build_stats_body e' server' now\<rparr>, server', fs))
         else if path = ''/v1/metrics/memory'' then
           guarded (at 6 e) server fs request ''GET'' MP_CACHE_ROLE_OPERATOR now
             (\<lambda>e' server'. (zero_response\<lparr>status_code := 200, status_text := ''OK'',
                response_body := mp_cache_http_build_memory_body e' server'\<rparr>, server', fs))
         else if path = ''/v1/uptime'' then
           guarded (at 7 e) server fs request ''GET'' MP_CACHE_ROLE_OPERATOR now
             (\<lambda>e' server'. (mp_cache_http_handle_uptime e' server' now, server', fs))
         else if path = ''/v1/logs'' then
           guarded (at 8 e) server fs request ''GET'' MP_CACHE_ROLE_OPERATOR now
             (\<lambda>e' server'. keep_files fs (mp_cache_http_handle_logs e' server' fs request))
         else if path = ''/v1/clients'' then
           guarded (at 9 e) server fs request ''POST'' MP_CACHE_ROLE_ADMIN now
             (\<lambda>e' server'. mp_cache_http_handle_register_client e' server' fs request now)
         else if starts_with path ''/v1/clients/'' \<and> length path > length ''/v1/clients/'' then
           (case client_route_id path ''/rotate-token'' of
              Some cid \<Rightarrow>
                guarded (at 10 e) server fs request ''POST'' MP_CACHE_ROLE_ADMIN now
                  (\<lambda>e' server'. checked_client_id e' server' fs cid
                     (\<lambda>e''. mp_cache_http_handle_rotate_client e'' server' fs cid now))
            | None \<Rightarrow>
                (case client_route_id path ''/invalidate-token'' of
                   Some cid \<Rightarrow>
                     guarded (at 11 e) server fs request ''POST'' MP_CACHE_ROLE_ADMIN now
                       (\<lambda>e' server'. checked_client_id e' server' fs cid
                          (\<lambda>e''. mp_cache_http_handle_invalidate_client e'' server' fs cid now))
                 | None \<Rightarrow> route_admin (at 12 e) server fs request now))
         else route_admin (at 12 e) server fs request now)"


section \<open>Connections and the server's life\<close>

text \<open>One connection: what the client receives, and the new state.\<close>

definition mp_cache_http_handle_client ::
  "env \<Rightarrow> recv_result list \<Rightarrow> send_result list \<Rightarrow> mp_cache_http_server \<Rightarrow> filesystem \<Rightarrow>
     string \<times> mp_cache_http_server \<times> filesystem" where
  "mp_cache_http_handle_client e recvs sends server fs =
     (case mp_cache_http_read_request (at 0 e) recvs MP_CACHE_HTTP_REQUEST_CAPACITY of
        Inl _ \<Rightarrow> (snd (mp_cache_http_write_response sends (bad_request (at 1 e) ''malformed request'')), server, fs)
      | Inr request \<Rightarrow>
          (case mp_cache_http_route_request (at 2 e) server fs request of
             (response, server', fs') \<Rightarrow> (snd (mp_cache_http_write_response sends response), server', fs')))"

text \<open>The server when it starts, or none; the file system as the attempt leaves it.\<close>

definition mp_cache_http_server_start ::
  "env \<Rightarrow> filesystem \<Rightarrow> mp_cache_config \<Rightarrow> mp_cache_store \<Rightarrow> mp_cache_security \<Rightarrow> mp_cache_storage \<Rightarrow> int \<Rightarrow>
     mp_cache_http_server option \<times> filesystem" where
  "mp_cache_http_server_start e fs config store security storage started_at =
     (case mp_cache_fs_ensure_parent_directory (at 0 e) fs (Some (socket_path config)) of
        (Inl _, fs1) \<Rightarrow> (None, fs1)
      | (Inr _, fs1) \<Rightarrow>
          (case mp_cache_fs_remove_path_if_exists (at 1 e) fs1 (Some (socket_path config)) of
             (Inl _, fs2) \<Rightarrow> (None, fs2)
           | (Inr _, fs2) \<Rightarrow>
               if \<not> ok 2 e \<or> length (socket_path config) \<ge> SUN_PATH_CAPACITY then (None, fs2)
               else
                 (case posix_bind (ok 3 e) fs2 (socket_path config) of
                    (Inl _, fs3) \<Rightarrow> (None, fs3)
                  | (Inr _, fs3) \<Rightarrow>
                      if \<not> ok 4 e then (None, fs3)
                      else (Some \<lparr>server_open = True, started_at_utc = started_at, last_sweep_at_utc = started_at,
                        server_config = config, server_store = store, server_security = security,
                        server_storage = storage, rate_limiter = empty_limiter, metrics = zero_metrics\<rparr>, fs3))))"

text \<open>
  What one turn of the accept loop sees. The stop flag is read before each turn; it is set once the
  listed turns are over.
\<close>

datatype serve_event =
    PollIntr | PollError | PollTimeout | PollOther | AcceptIntr | AcceptError
  | Accepted "recv_result list" "send_result list"

fun serve_loop ::
  "env \<Rightarrow> nat \<Rightarrow> mp_cache_http_server \<Rightarrow> filesystem \<Rightarrow> serve_event list \<Rightarrow>
     bool \<times> mp_cache_http_server \<times> filesystem \<times> string list" where
  "serve_loop e n server fs [] = (True, server, fs, [])"
| "serve_loop e n server fs (event # events) =
     (case event of
        PollError \<Rightarrow> (False, server, fs, [])
      | AcceptError \<Rightarrow> (False, server, fs, [])
      | Accepted recvs sends \<Rightarrow>
          (case mp_cache_http_handle_client (at n e) recvs sends server fs of
             (reply, server', fs') \<Rightarrow>
               (case serve_loop e (Suc n) server' fs' events of
                  (status, server'', fs'', replies) \<Rightarrow> (status, server'', fs'', reply # replies)))
      | _ \<Rightarrow> serve_loop e (Suc n) server fs events)"

definition mp_cache_http_server_serve ::
  "env \<Rightarrow> mp_cache_http_server \<Rightarrow> filesystem \<Rightarrow> serve_event list \<Rightarrow>
     bool \<times> mp_cache_http_server \<times> filesystem \<times> string list" where
  "mp_cache_http_server_serve e server fs events =
     (if \<not> server_open server then (False, server, fs, []) else serve_loop e 0 server fs events)"

definition mp_cache_http_server_stop ::
  "env \<Rightarrow> mp_cache_http_server \<Rightarrow> filesystem \<Rightarrow> mp_cache_http_server \<times> filesystem" where
  "mp_cache_http_server_stop e server fs =
     (server\<lparr>server_open := False, rate_limiter := empty_limiter\<rparr>,
      if socket_path (server_config server) \<noteq> []
      then snd (mp_cache_fs_remove_path_if_exists e fs (Some (socket_path (server_config server)))) else fs)"

text \<open>The in-process request of the unit tests.\<close>

definition mp_cache_http_server_test_request ::
  "env \<Rightarrow> mp_cache_http_server \<Rightarrow> filesystem \<Rightarrow> string ptr \<Rightarrow>
     (nat \<times> string ptr) option \<times> mp_cache_http_server \<times> filesystem" where
  "mp_cache_http_server_test_request e server fs raw_request =
     (case raw_request of
        None \<Rightarrow> (None, server, fs)
      | Some raw \<Rightarrow>
          if \<not> ok 0 e then (None, server, fs)
          else
            (case mp_cache_http_parse_request_buffer (at 1 e) raw of
               Inl _ \<Rightarrow> (None, server, fs)
             | Inr request \<Rightarrow>
                 (case mp_cache_http_route_request (at 2 e) server fs request of
                    (response, server', fs') \<Rightarrow>
                      (Some (status_code response, response_body response), server', fs'))))"

end
