(* ===== verification/Http_Guard.thy ===== *)
theory Http_Guard
  imports Http_Server
begin

text \<open>
  What stands between a connection and the data: how many requests of a client the rate limiter lets
  through, and what a request can do with the credentials it carries. The dispatch is described by a
  relation with one rule per outcome; the theorems about requests go by cases on it.
\<close>


section \<open>The rate limiter\<close>

text \<open>The entry of a subject, as the limiter finds it.\<close>

definition limit_lookup :: "mp_cache_rate_limiter \<Rightarrow> string \<Rightarrow> mp_cache_rate_limit_entry option" where
  "limit_lookup limiter subject = find (\<lambda>entry. limit_subject entry = subject) (limit_entries limiter)"

lemma find_takeWhile:
  "find (\<lambda>x. f x = k) xs =
     (let i = length (takeWhile (\<lambda>x. f x \<noteq> k) xs) in if i < length xs then Some (xs ! i) else None)"
  by (induction xs) (auto simp: Let_def)

lemma find_list_update:
  "length (takeWhile (\<lambda>x. f x \<noteq> k) xs) < length xs \<Longrightarrow> f y = k \<Longrightarrow>
     find (\<lambda>x. f x = k') (xs[length (takeWhile (\<lambda>x. f x \<noteq> k) xs) := y]) =
     (if k' = k then Some y else find (\<lambda>x. f x = k') xs)"
  by (induction xs) auto

lemma find_snoc: "find P (xs @ [y]) = (case find P xs of None \<Rightarrow> if P y then Some y else None | Some x \<Rightarrow> Some x)"
  by (induction xs) auto

lemma limit_index_Some:
  assumes "limit_index limiter subject = Some index"
  shows "limit_lookup limiter subject = Some (limit_entries limiter ! index)"
    and "limit_subject entry = subject \<Longrightarrow>
      limit_lookup (limiter\<lparr>limit_entries := (limit_entries limiter)[index := entry]\<rparr>) s =
        (if s = subject then Some entry else limit_lookup limiter s)"
proof -
  have i: "index = length (takeWhile (\<lambda>en. limit_subject en \<noteq> subject) (limit_entries limiter))"
    "index < length (limit_entries limiter)"
    using assms by (auto simp: limit_index_def Let_def split: if_splits)
  then show "limit_lookup limiter subject = Some (limit_entries limiter ! index)"
    by (simp add: limit_lookup_def find_takeWhile)
  show "limit_lookup (limiter\<lparr>limit_entries := (limit_entries limiter)[index := entry]\<rparr>) s =
      (if s = subject then Some entry else limit_lookup limiter s)" if "limit_subject entry = subject"
    using find_list_update [of limit_subject subject "limit_entries limiter" entry s] that i
    by (simp add: limit_lookup_def)
qed

lemma limit_index_None: "limit_index limiter subject = None \<Longrightarrow> limit_lookup limiter subject = None"
  by (auto simp: limit_index_def limit_lookup_def find_takeWhile Let_def split: if_splits)

lemma limit_subject_count: "limit_count config entry now = (allowed, entry') \<Longrightarrow> limit_subject entry' = limit_subject entry"
  by (auto simp: limit_count_def Let_def split: if_splits)

lemma limit_lookup_subject: "limit_lookup limiter subject = Some entry \<Longrightarrow> limit_subject entry = subject"
  by (auto simp: limit_lookup_def find_Some_iff)

definition new_limit_entry :: "string \<Rightarrow> int \<Rightarrow> mp_cache_rate_limit_entry" where
  "new_limit_entry subject now = \<lparr>limit_subject = subject, window_started_at = now, request_count = 0\<rparr>"

text \<open>
  A call touches only the subject's own entry, which is new or counted; a failing allocation changes
  nothing and refuses.
\<close>

lemma rate_limit_allow_effect:
  assumes call: "mp_cache_http_rate_limit_allow e server (Some subject) now = (allowed, server')"
    and len: "length subject < MP_CACHE_CLIENT_ID_CAP"
  shows "server' = server\<lparr>rate_limiter := rate_limiter server'\<rparr>"
    and "s \<noteq> subject \<Longrightarrow> limit_lookup (rate_limiter server') s = limit_lookup (rate_limiter server) s"
    and "\<not> allowed \<and> server' = server \<or>
      (\<exists>entry'. limit_count (server_config server)
         (case limit_lookup (rate_limiter server) subject of Some entry \<Rightarrow> entry | None \<Rightarrow> new_limit_entry subject now) now =
         (allowed, entry') \<and> limit_lookup (rate_limiter server') subject = Some entry')"
proof -
  define limiter where "limiter = rate_limiter server"
  have "server' = server\<lparr>rate_limiter := rate_limiter server'\<rparr> \<and>
    (s \<noteq> subject \<longrightarrow> limit_lookup (rate_limiter server') s = limit_lookup (rate_limiter server) s) \<and>
    (\<not> allowed \<and> server' = server \<or>
      (\<exists>entry'. limit_count (server_config server)
         (case limit_lookup (rate_limiter server) subject of Some entry \<Rightarrow> entry | None \<Rightarrow> new_limit_entry subject now) now =
         (allowed, entry') \<and> limit_lookup (rate_limiter server') subject = Some entry'))"
  proof (cases "limit_index limiter subject")
    case (Some index)
    obtain a entry' where c: "limit_count (server_config server) (limit_entries limiter ! index) now = (a, entry')"
      by fastforce
    have l: "limit_lookup limiter subject = Some (limit_entries limiter ! index)"
      by (rule limit_index_Some(1) [OF Some])
    have "limit_subject entry' = subject"
      using limit_subject_count [OF c] limit_lookup_subject [OF l] by simp
    with limit_index_Some(2) [OF Some, of entry'] call c Some l show ?thesis
      by (auto simp: mp_cache_http_rate_limit_allow_def limiter_def)
  next
    case None
    then have n: "limit_lookup limiter subject = None"
      by (rule limit_index_None)
    show ?thesis
    proof (cases "limit_add_subject e limiter subject now")
      case N: None
      with call None show ?thesis
        by (auto simp: mp_cache_http_rate_limit_allow_def limiter_def)
    next
      case (Some limiter')
      then have entries: "limit_entries limiter' = limit_entries limiter @ [new_limit_entry subject now]"
        using len by (auto simp: limit_add_subject_def new_limit_entry_def split: if_splits)
      obtain a entry' where c: "limit_count (server_config server) (new_limit_entry subject now) now = (a, entry')"
        by fastforce
      have s: "limit_subject entry' = subject"
        using limit_subject_count [OF c] by (simp add: new_limit_entry_def)
      from call None Some c have "server' = server\<lparr>rate_limiter :=
          limiter'\<lparr>limit_entries := limit_entries limiter @ [entry']\<rparr>\<rparr>" "allowed = a"
        by (auto simp: mp_cache_http_rate_limit_allow_def limiter_def entries)
      with c n s show ?thesis
        by (auto simp: limiter_def limit_lookup_def find_snoc split: option.splits)
    qed
  qed
  then show "server' = server\<lparr>rate_limiter := rate_limiter server'\<rparr>"
    and "s \<noteq> subject \<Longrightarrow> limit_lookup (rate_limiter server') s = limit_lookup (rate_limiter server) s"
    and "\<not> allowed \<and> server' = server \<or>
      (\<exists>entry'. limit_count (server_config server)
         (case limit_lookup (rate_limiter server) subject of Some entry \<Rightarrow> entry | None \<Rightarrow> new_limit_entry subject now) now =
         (allowed, entry') \<and> limit_lookup (rate_limiter server') subject = Some entry')"
    by blast+
qed

text \<open>A sequence of calls, each with its environment, subject and time: how many of a subject's are allowed.\<close>

fun limit_allowed :: "string \<Rightarrow> mp_cache_http_server \<Rightarrow> (env \<times> string \<times> int) list \<Rightarrow> nat" where
  "limit_allowed subject server [] = 0"
| "limit_allowed subject server ((e, s, now) # calls) =
     (case mp_cache_http_rate_limit_allow e server (Some s) now of
        (allowed, server') \<Rightarrow> (if allowed \<and> s = subject then 1 else 0) + limit_allowed subject server' calls)"

definition call_ids_fit :: "(env \<times> string \<times> int) list \<Rightarrow> bool" where
  "call_ids_fit calls \<longleftrightarrow> (\<forall>(e, s, now) \<in> set calls. length s < MP_CACHE_CLIENT_ID_CAP)"

abbreviation call_times :: "(env \<times> string \<times> int) list \<Rightarrow> int list" where
  "call_times calls \<equiv> map (\<lambda>(e, s, now). now) calls"

definition remaining :: "mp_cache_config \<Rightarrow> mp_cache_rate_limit_entry \<Rightarrow> nat" where
  "remaining config entry = unat (rate_limit_requests config) - unat (request_count entry)"

text \<open>One count inside a window, and one that opens a window.\<close>

lemma limit_count_inside:
  assumes "limit_count config entry now = (allowed, entry')" "now - window_started_at entry < uint (rate_limit_window_seconds config)"
  shows "window_started_at entry' = window_started_at entry \<and>
    (if allowed then 1 else 0) + remaining config entry' \<le> remaining config entry"
proof (cases "rate_limit_requests config \<le> request_count entry")
  case True
  with assms show ?thesis by (auto simp: limit_count_def Let_def)
next
  case False
  then have less: "unat (request_count entry) < unat (rate_limit_requests config)"
    by (simp add: word_le_nat_alt)
  then have "unat (request_count entry + 1) = unat (request_count entry) + 1"
    using unsigned_less [where 'a = nat, of "rate_limit_requests config"]
    by (simp add: unat_word_ariths)
  with False less assms show ?thesis
    by (auto simp: limit_count_def Let_def remaining_def)
qed

lemma limit_count_reset:
  assumes "limit_count config entry now = (allowed, entry')" "\<not> now - window_started_at entry < uint (rate_limit_window_seconds config)"
    and "0 < uint (rate_limit_window_seconds config)"
  shows "window_started_at entry' = now \<and>
    (if allowed then 1 else 0) + remaining config entry' \<le> unat (rate_limit_requests config)"
proof -
  have "limit_count config (entry\<lparr>window_started_at := now, request_count := 0\<rparr>) now = (allowed, entry')"
    using assms by (simp add: limit_count_def Let_def)
  from limit_count_inside [OF this] assms(3) show ?thesis
    by (simp add: remaining_def)
qed

lemma limit_allowed_inside:
  assumes "limit_lookup (rate_limiter server) subject = Some entry" "call_ids_fit calls"
    and "\<forall>t \<in> set (call_times calls). t - window_started_at entry < uint (rate_limit_window_seconds (server_config server))"
  shows "limit_allowed subject server calls \<le> remaining (server_config server) entry"
  using assms
proof (induction calls arbitrary: server entry)
  case (Cons call calls)
  obtain e s now where call: "call = (e, s, now)" by (cases call)
  obtain allowed server' where a: "mp_cache_http_rate_limit_allow e server (Some s) now = (allowed, server')" by fastforce
  have len: "length s < MP_CACHE_CLIENT_ID_CAP" and fit: "call_ids_fit calls"
    using Cons.prems(2) by (auto simp: call call_ids_fit_def)
  note eff = rate_limit_allow_effect [OF a len]
  have cfg: "server_config server' = server_config server"
    by (subst eff(1)) simp
  show ?case
  proof (cases "s = subject \<and> \<not> (\<not> allowed \<and> server' = server)")
    case False
    then have "limit_lookup (rate_limiter server') subject = Some entry" "\<not> (allowed \<and> s = subject)"
      using eff(2) [of subject] Cons.prems(1) by auto
    with Cons.IH [OF this(1) fit] Cons.prems(3) cfg show ?thesis
      by (auto simp: call a)
  next
    case True
    with eff(3) Cons.prems(1) obtain entry' where
      c: "limit_count (server_config server) entry now = (allowed, entry')" "limit_lookup (rate_limiter server') subject = Some entry'"
      by auto
    from limit_count_inside [OF c(1)] Cons.prems(3) have i: "window_started_at entry' = window_started_at entry"
      "(if allowed then 1 else 0) + remaining (server_config server) entry' \<le> remaining (server_config server) entry"
      by (simp_all add: call)
    from Cons.IH [OF c(2) fit] Cons.prems(3) cfg i True a show ?thesis
      by (simp add: call split: if_splits)
  qed
qed simp

lemma limit_allowed_window:
  assumes "call_ids_fit calls" "sorted (call_times calls)"
    and "\<forall>t \<in> set (call_times calls). t0 \<le> t \<and> t < t0 + uint (rate_limit_window_seconds (server_config server))"
  shows "limit_allowed subject server calls \<le>
    (case limit_lookup (rate_limiter server) subject of None \<Rightarrow> 0 | Some entry \<Rightarrow> remaining (server_config server) entry) +
    unat (rate_limit_requests (server_config server))"
  using assms
proof (induction calls arbitrary: server)
  case (Cons call calls)
  obtain e s now where call: "call = (e, s, now)" by (cases call)
  obtain allowed server' where a: "mp_cache_http_rate_limit_allow e server (Some s) now = (allowed, server')" by fastforce
  have len: "length s < MP_CACHE_CLIENT_ID_CAP" and fit: "call_ids_fit calls"
    using Cons.prems(1) by (auto simp: call call_ids_fit_def)
  have sorted: "sorted (call_times calls)" "\<forall>t \<in> set (call_times calls). now \<le> t"
    using Cons.prems(2) by (auto simp: call)
  define window where "window = uint (rate_limit_window_seconds (server_config server))"
  have win: "t0 \<le> now" "now < t0 + window" "\<forall>t \<in> set (call_times calls). t0 \<le> t \<and> t < t0 + window"
    using Cons.prems(3) by (auto simp: call window_def)
  then have pos: "0 < window" by linarith
  note eff = rate_limit_allow_effect [OF a len]
  have cfg: "server_config server' = server_config server"
    by (subst eff(1)) simp
  note IH = Cons.IH [of server', OF fit sorted(1), unfolded cfg, OF win(3) [unfolded window_def]]
  show ?case
  proof (cases "s = subject \<and> \<not> (\<not> allowed \<and> server' = server)")
    case False
    then have "limit_lookup (rate_limiter server') subject = limit_lookup (rate_limiter server) subject" "\<not> (allowed \<and> s = subject)"
      using eff(2) [of subject] by auto
    with IH show ?thesis by (auto simp: call a)
  next
    case True
    define entry where "entry = (case limit_lookup (rate_limiter server) subject of Some en \<Rightarrow> en | None \<Rightarrow> new_limit_entry subject now)"
    from True eff(3) obtain entry' where
      c: "limit_count (server_config server) entry now = (allowed, entry')" "limit_lookup (rate_limiter server') subject = Some entry'"
      by (auto simp: entry_def)
    have fresh: "limit_allowed subject server' calls \<le> remaining (server_config server) entry'" if "window_started_at entry' = now"
    proof -
      have "\<forall>t \<in> set (call_times calls). t - window_started_at entry' < uint (rate_limit_window_seconds (server_config server'))"
      proof
        fix t assume "t \<in> set (call_times calls)"
        then have "t < t0 + window" using win(3) by blast
        with win(1) that show "t - window_started_at entry' < uint (rate_limit_window_seconds (server_config server'))"
          by (simp add: cfg window_def)
      qed
      from limit_allowed_inside [OF c(2) fit this] show ?thesis by (simp only: cfg)
    qed
    show ?thesis
    proof (cases "now - window_started_at entry < window")
      case False
      from limit_count_reset [OF c(1), folded window_def, OF False pos] fresh True a show ?thesis
        by (auto simp: call split: if_splits)
    next
      case inside: True
      note cnt = limit_count_inside [OF c(1), folded window_def, OF inside]
      show ?thesis
      proof (cases "limit_lookup (rate_limiter server) subject")
        case None
        then have "entry = new_limit_entry subject now" by (simp add: entry_def)
        with cnt fresh True None a show ?thesis
          by (auto simp: call new_limit_entry_def remaining_def split: if_splits)
      next
        case (Some en)
        with cnt IH c(2) True a show ?thesis
          by (auto simp: call entry_def split: if_splits)
      qed
    qed
  qed
qed (simp split: option.splits)


section \<open>Authorization\<close>

text \<open>The data a request can change: everything but the counters, the limiter and the sweep time.\<close>

definition same_data :: "mp_cache_http_server \<Rightarrow> mp_cache_http_server \<Rightarrow> bool" where
  "same_data server server' \<longleftrightarrow> server_store server' = server_store server \<and>
     server_security server' = server_security server \<and> server_storage server' = server_storage server \<and>
     server_config server' = server_config server"

lemma same_data_refl [simp]: "same_data server server"
  by (simp add: same_data_def)

lemma count_metric_data [simp]:
  "server_store (count_metric f server) = server_store server"
  "server_security (count_metric f server) = server_security server"
  "server_storage (count_metric f server) = server_storage server"
  "server_config (count_metric f server) = server_config server"
  "last_sweep_at_utc (count_metric f server) = last_sweep_at_utc server"
  "same_data server (count_metric f server')  = same_data server server'"
  by (simp_all add: count_metric_def same_data_def)

lemma make_error_status [simp]: "status_code (mp_cache_http_make_error e code reason c m a x) = code"
  by (simp add: mp_cache_http_make_error_def Let_def)

lemma unauthorized_status [simp]: "status_code (unauthorized_response e m) = 401"
  by (simp add: unauthorized_response_def)

lemma rate_limit_allow_data: "mp_cache_http_rate_limit_allow e server subject now = (allowed, server') \<Longrightarrow> same_data server server'"
  by (auto simp: mp_cache_http_rate_limit_allow_def same_data_def split: option.splits prod.splits)

text \<open>The request carries the token of a registered, active client whose role allows what is required.\<close>

definition credentials :: "mp_cache_security \<Rightarrow> mp_cache_http_request \<Rightarrow> u32 \<Rightarrow> bool" where
  "credentials security request role \<longleftrightarrow>
     (case mp_cache_http_extract_bearer_token (Some (authorization_header request)) of
        None \<Rightarrow> False
      | Some bearer_token \<Rightarrow> bearer_token \<noteq> [] \<and>
          (case mp_cache_security_authenticate security (Some bearer_token) of
             (MP_CACHE_SECURITY_STATUS_OK, Some out_principal) \<Rightarrow> mp_cache_role_allows (principal_role out_principal) role
           | _ \<Rightarrow> False))"

lemma authenticate_result:
  assumes "mp_cache_http_authenticate e server request role now = (result, server')"
  shows "same_data server server'"
    and "case result of Inl response \<Rightarrow> status_code response \<in> {401, 403, 429} | Inr _ \<Rightarrow> credentials (server_security server) request role"
proof -
  have "same_data server server' \<and>
      (case result of Inl response \<Rightarrow> status_code response \<in> {401, 403, 429} | Inr _ \<Rightarrow> credentials (server_security server) request role)"
  proof (cases "mp_cache_http_extract_bearer_token (Some (authorization_header request))")
    case None
    with assms show ?thesis by (auto simp: mp_cache_http_authenticate_def Let_def)
  next
    case (Some tok)
    show ?thesis
    proof (cases "tok = []")
      case True
      with assms Some show ?thesis by (auto simp: mp_cache_http_authenticate_def Let_def)
    next
      case False
      obtain st p where a: "mp_cache_security_authenticate (server_security server) (Some tok) = (st, p)" by fastforce
      show ?thesis
      proof (cases "st = MP_CACHE_SECURITY_STATUS_OK \<and> p \<noteq> None")
        case F: False
        with assms Some a False show ?thesis
          by (cases st; cases p) (auto simp: mp_cache_http_authenticate_def Let_def)
      next
        case True
        then obtain who where p: "p = Some who" "st = MP_CACHE_SECURITY_STATUS_OK" by auto
        show ?thesis
        proof (cases "mp_cache_role_allows (principal_role who) role")
          case True
          obtain allowed server1 where l: "mp_cache_http_rate_limit_allow (at 3 e) server (Some (principal_id who)) now = (allowed, server1)"
            by fastforce
          from assms Some a False p True l rate_limit_allow_data [OF l] show ?thesis
            by (cases allowed) (auto simp: mp_cache_http_authenticate_def Let_def credentials_def)
        next
          case F: False
          with assms Some a False p show ?thesis
            by (auto simp: mp_cache_http_authenticate_def Let_def)
        qed
      qed
    qed
  qed
  then show "same_data server server'"
    and "case result of Inl response \<Rightarrow> status_code response \<in> {401, 403, 429} | Inr _ \<Rightarrow> credentials (server_security server) request role"
    by blast+
qed

lemma credentials_weaker:
  "credentials security request role \<Longrightarrow> (\<And>r. mp_cache_role_allows r role \<Longrightarrow> mp_cache_role_allows r weaker) \<Longrightarrow>
     credentials security request weaker"
  by (auto simp: credentials_def split: option.splits prod.splits mp_cache_security_status.splits)

lemma guarded_result:
  assumes "guarded e server fs request verb role now handler = (response, server', fs')"
  shows "fs' = fs \<and> same_data server server' \<and> status_code response \<noteq> 200 \<or>
    credentials (server_security server) request role \<and> request_method request = verb \<and>
      (\<exists>server1. same_data server server1 \<and> handler (at 2 e) server1 = (response, server', fs'))"
proof (cases "request_method request = verb")
  case False
  with assms show ?thesis by (auto simp: guarded_def)
next
  case True
  obtain r server1 where a: "mp_cache_http_authenticate (at 1 e) server request role now = (r, server1)" by fastforce
  from assms True a authenticate_result [OF a] show ?thesis
    by (cases r) (auto simp: guarded_def)
qed


section \<open>What a request does\<close>

abbreviation is_public_path :: "string \<Rightarrow> bool" where
  "is_public_path path \<equiv> mp_cache_http_path_is_health path \<or> path = ''/''"

abbreviation is_cache_path :: "string \<Rightarrow> bool" where
  "is_cache_path path \<equiv> starts_with path ''/v1/cache/''"

text \<open>
  The dispatch as a relation on the swept server, one rule per outcome: a public page, a refusal, a
  report for operators, and one rule per handler that changes something, with the credentials it
  asks for.
\<close>

inductive routed ::
  "mp_cache_http_server \<Rightarrow> filesystem \<Rightarrow> mp_cache_http_request \<Rightarrow> int \<Rightarrow>
     mp_cache_http_response \<Rightarrow> mp_cache_http_server \<Rightarrow> filesystem \<Rightarrow> bool"
  for server fs request now where
  routed_public: "is_public_path (request_path request) \<Longrightarrow> same_data server server' \<Longrightarrow>
    routed server fs request now response server' fs"
| routed_refused: "status_code response \<noteq> 200 \<Longrightarrow> same_data server server' \<Longrightarrow>
    routed server fs request now response server' fs"
| routed_report: "credentials (server_security server) request MP_CACHE_ROLE_OPERATOR \<Longrightarrow> same_data server server' \<Longrightarrow>
    routed server fs request now response server' fs"
| routed_get: "credentials (server_security server) request MP_CACHE_ROLE_CLIENT \<Longrightarrow> is_cache_path (request_path request) \<Longrightarrow>
    same_data server server1 \<Longrightarrow> key \<noteq> [] \<Longrightarrow> mp_cache_http_handle_cache_get e server1 key now = (response, server') \<Longrightarrow>
    routed server fs request now response server' fs"
| routed_put: "credentials (server_security server) request MP_CACHE_ROLE_CLIENT \<Longrightarrow> is_cache_path (request_path request) \<Longrightarrow>
    same_data server server1 \<Longrightarrow> key \<noteq> [] \<Longrightarrow>
    mp_cache_http_handle_cache_put e server1 fs key request now = (response, server', fs') \<Longrightarrow>
    routed server fs request now response server' fs'"
| routed_delete: "credentials (server_security server) request MP_CACHE_ROLE_CLIENT \<Longrightarrow> is_cache_path (request_path request) \<Longrightarrow>
    same_data server server1 \<Longrightarrow> key \<noteq> [] \<Longrightarrow>
    mp_cache_http_handle_cache_delete e server1 fs key now = (response, server', fs') \<Longrightarrow>
    routed server fs request now response server' fs'"
| routed_register: "credentials (server_security server) request MP_CACHE_ROLE_ADMIN \<Longrightarrow> same_data server server1 \<Longrightarrow>
    mp_cache_http_handle_register_client e server1 fs request now = (response, server', fs') \<Longrightarrow>
    routed server fs request now response server' fs'"
| routed_rotate: "credentials (server_security server) request MP_CACHE_ROLE_ADMIN \<Longrightarrow> same_data server server1 \<Longrightarrow>
    mp_cache_http_handle_rotate_client e server1 fs cid now = (response, server', fs') \<Longrightarrow>
    routed server fs request now response server' fs'"
| routed_invalidate: "credentials (server_security server) request MP_CACHE_ROLE_ADMIN \<Longrightarrow> same_data server server1 \<Longrightarrow>
    mp_cache_http_handle_invalidate_client e server1 fs cid now = (response, server', fs') \<Longrightarrow>
    routed server fs request now response server' fs'"
| routed_export: "credentials (server_security server) request MP_CACHE_ROLE_ADMIN \<Longrightarrow> same_data server server1 \<Longrightarrow>
    request_path request = ''/v1/export'' \<Longrightarrow>
    mp_cache_http_handle_export e server1 fs now = (response, server', fs') \<Longrightarrow>
    routed server fs request now response server' fs'"
| routed_import: "credentials (server_security server) request MP_CACHE_ROLE_ADMIN \<Longrightarrow> same_data server server1 \<Longrightarrow>
    request_path request = ''/v1/import'' \<Longrightarrow>
    mp_cache_http_handle_import e server1 fs request now = (response, server', fs') \<Longrightarrow>
    routed server fs request now response server' fs'"
| routed_purge_all: "credentials (server_security server) request MP_CACHE_ROLE_ADMIN \<Longrightarrow> same_data server server1 \<Longrightarrow>
    mp_cache_http_handle_purge_all e server1 fs now = (response, server', fs') \<Longrightarrow>
    routed server fs request now response server' fs'"
| routed_purge_selected: "credentials (server_security server) request MP_CACHE_ROLE_ADMIN \<Longrightarrow> same_data server server1 \<Longrightarrow>
    mp_cache_http_handle_purge_selected e server1 fs request now = (response, server', fs') \<Longrightarrow>
    routed server fs request now response server' fs'"

lemma handle_logs_data:
  "same_data server server1 \<Longrightarrow> same_data server (snd (mp_cache_http_handle_logs e server1 fs request))"
  by (auto simp: mp_cache_http_handle_logs_def split: sum.splits errno.splits option.splits prod.splits)

lemma guarded_routed:
  assumes "guarded e server fs request verb role now handler = (response, server', fs')"
    and "\<And>server1. credentials (server_security server) request role \<Longrightarrow> same_data server server1 \<Longrightarrow>
      handler (at 2 e) server1 = (response, server', fs') \<Longrightarrow> routed server fs request now response server' fs'"
  shows "routed server fs request now response server' fs'"
  using guarded_result [OF assms(1)] assms(2) routed_refused by blast

lemma checked_routed:
  assumes "checked_client_id e server1 fs cid handler = (response, server', fs')" "same_data server server1"
    and "handler (at 1 e) = (response, server', fs') \<Longrightarrow> routed server fs request now response server' fs'"
  shows "routed server fs request now response server' fs'"
  using assms by (auto simp: checked_client_id_def intro: routed_refused split: if_splits)

lemma route_admin_routed:
  assumes "route_admin e server fs request now = (response, server', fs')"
  shows "routed server fs request now response server' fs'"
  using assms unfolding route_admin_def Let_def
  by (auto elim!: guarded_routed intro: routed_export routed_import routed_purge_all routed_purge_selected routed_refused
      split: if_splits)

lemma route_cache_routed:
  assumes "route_cache e server fs request now = (response, server', fs')" "is_cache_path (request_path request)"
  shows "routed server fs request now response server' fs'"
proof (cases "mp_cache_http_percent_decode (Some (drop (length ''/v1/cache/'') (request_path request))) (MP_CACHE_NAME_CAP * 4)")
  case (Inl err)
  with assms(1) have "response = bad_request (at 0 e) ''cache key is invalid''" "server' = server" "fs' = fs"
    by (simp_all add: route_cache_def)
  then show ?thesis by (simp add: routed_refused)
next
  case (Inr decoded)
  define key where "key = c_string decoded"
  obtain r server1 where a: "mp_cache_http_authenticate (at 1 e) server request MP_CACHE_ROLE_CLIENT now = (r, server1)"
    by fastforce
  note auth = authenticate_result [OF a]
  show ?thesis
  proof (cases "key = []")
    case True
    with assms(1) Inr have "response = bad_request (at 0 e) ''cache key is invalid''" "server' = server" "fs' = fs"
      by (simp_all add: route_cache_def Let_def key_def)
    then show ?thesis by (simp add: routed_refused)
  next
    case False
    show ?thesis
    proof (cases r)
      case (Inl refusal)
      with assms(1) Inr False a have "response = refusal" "server' = server1" "fs' = fs"
        by (simp_all add: route_cache_def Let_def key_def)
      with auth Inl show ?thesis by (auto intro: routed_refused)
    next
      case r: (Inr who)
      with auth have c: "credentials (server_security server) request MP_CACHE_ROLE_CLIENT" by simp
      note call = assms(1) [unfolded route_cache_def Inr a r Let_def, simplified, folded key_def]
      from call False routed_get [OF c assms(2) auth(1) False] routed_put [OF c assms(2) auth(1) False]
        routed_delete [OF c assms(2) auth(1) False] routed_refused [OF _ auth(1)]
      show ?thesis by (auto split: if_splits)
    qed
  qed
qed

abbreviation swept :: "mp_cache_http_server \<Rightarrow> int \<Rightarrow> mp_cache_http_server" where
  "swept server now \<equiv>
     mp_cache_http_maybe_sweep (count_metric (\<lambda>m. m\<lparr>total_requests := total_requests m + 1\<rparr>) server) now"

theorem route_request_routed:
  assumes "mp_cache_http_route_request e server fs request = (response, server', fs')"
  shows "routed (swept server (mp_cache_http_now (at 0 e))) fs request (mp_cache_http_now (at 0 e)) response server' fs'"
proof -
  define now where "now = mp_cache_http_now (at 0 e)"
  define server1 where "server1 = swept server now"
  note call = assms [unfolded mp_cache_http_route_request_def Let_def, folded now_def, folded server1_def]
  have "routed server1 fs request now response server' fs'"
  proof (cases "is_public_path (request_path request)")
    case True
    with call show ?thesis by (auto intro: routed_public split: if_splits)
  next
    case np: False
    show ?thesis
    proof (cases "is_cache_path (request_path request)")
      case True
      with call np route_cache_routed show ?thesis by (auto split: if_splits)
    next
      case False
      from np call show ?thesis
        by (auto simp: False elim!: guarded_routed checked_routed intro: routed_report handle_logs_data routed_register routed_rotate routed_invalidate
            dest: route_admin_routed split: if_splits option.splits)
    qed
  qed
  then show ?thesis by (simp add: server1_def now_def)
qed


text \<open>What each handler does to the data, on every branch.\<close>

lemma handle_get_effect:
  assumes "mp_cache_http_handle_cache_get e server key now = (response, server')"
  shows "same_data (server\<lparr>server_store := snd (snd (mp_cache_store_get_copy (at 0 e) (server_store server) (Some (bytes_of key)) now))\<rparr>) server'"
  using assms by (auto simp: mp_cache_http_handle_cache_get_def Let_def same_data_def split: prod.splits if_splits sum.splits)

text \<open>A PUT that answers 200 has stored a value and persisted it; any other answer may have stored it.\<close>

lemma handle_put_effect:
  assumes "mp_cache_http_handle_cache_put e server fs key request now = (response, server', fs')"
  shows "status_code response \<noteq> 200 \<and> same_data server server' \<and> fs' = fs \<or>
    (\<exists>v ttl status store'.
       mp_cache_store_set (at 5 e) (server_store server) (Some (bytes_of key)) (Some v) ttl now = (status, store') \<and>
       same_data (server\<lparr>server_store := store'\<rparr>) server' \<and>
       (status_code response \<noteq> 200 \<and> fs' = fs \<and> status \<noteq> MP_CACHE_STORE_STATUS_OK \<or>
        status = MP_CACHE_STORE_STATUS_OK \<and> status_code response \<in> {200, 500} \<and>
        persist (at 9 e) (server\<lparr>server_store := store'\<rparr>) now
          (mp_cache_storage_append_set (at 8 e) (server_storage server) fs (Some (bytes_of key)) (Some v) (now + uint ttl)) =
          (status_code response = 200, fs')))"
proof -
  let ?body = "if request_body request = None \<or> request_body_length request = 0 then Inl EINVAL
            else mp_cache_http_extract_json_string (request_body request) ''value_base64'' MP_CACHE_HTTP_BODY_CAPACITY"
  let ?ttl = "case mp_cache_http_extract_json_u32 (request_body request) ''ttl_seconds'' of
                   Inr ttl \<Rightarrow> Some ttl
                 | Inl err \<Rightarrow> if err = ENOENT then Some (default_ttl_seconds (server_config server)) else None"
  show ?thesis
  proof (cases ?body)
    case (Inl err)
    with assms show ?thesis by (auto simp: mp_cache_http_handle_cache_put_def)
  next
    case body: (Inr value_base64)
    show ?thesis
    proof (cases ?ttl)
      case None
      with assms body show ?thesis by (auto simp: mp_cache_http_handle_cache_put_def)
    next
      case ttl: (Some ttl)
      let ?decoded = "if ok 3 e then mp_cache_base64_decode (Some value_base64) ((length value_base64 div 4) * 3 + 3) else Inl ENOMEM"
      note call = assms [unfolded mp_cache_http_handle_cache_put_def body ttl, simplified]
      show ?thesis
      proof (cases "(ttl < min_ttl_seconds (server_config server) \<or> ttl > max_ttl_seconds (server_config server)) \<or> (\<exists>err. ?decoded = Inl err)")
        case True
        then have "status_code response = 400 \<and> server' = server \<and> fs' = fs"
          using call by (auto split: if_splits)
        then show ?thesis by auto
      next
        case False
        then obtain v where v: "?decoded = Inr v" by (cases ?decoded) auto
        obtain status store' where set: "mp_cache_store_set (at 5 e) (server_store server) (Some (bytes_of key)) (Some v) ttl now = (status, store')"
          by fastforce
        define server1 where "server1 = server\<lparr>server_store := store'\<rparr>"
        obtain saved fs1 where p: "persist (at 9 e) server1 now
          (mp_cache_storage_append_set (at 8 e) (server_storage server) fs (Some (bytes_of key)) (Some v) (now + uint ttl)) = (saved, fs1)"
          by fastforce
        have "same_data server1 server' \<and>
          (status_code response \<noteq> 200 \<and> fs' = fs \<and> status \<noteq> MP_CACHE_STORE_STATUS_OK \<or>
           status = MP_CACHE_STORE_STATUS_OK \<and> status_code response \<in> {200, 500} \<and> (saved, fs1) = (status_code response = 200, fs'))"
          using call False v set p by (cases saved) (auto simp: server1_def Let_def split: if_splits)
        with set p show ?thesis unfolding server1_def by blast
      qed
    qed
  qed
qed

lemma handle_delete_effect:
  assumes "mp_cache_http_handle_cache_delete e server fs key now = (response, server', fs')"
  shows "\<exists>status store'. mp_cache_store_delete (server_store server) (Some (bytes_of key)) = (status, store') \<and>
    same_data (server\<lparr>server_store := store'\<rparr>) server' \<and>
    (status_code response \<noteq> 200 \<and> fs' = fs \<and> status \<noteq> MP_CACHE_STORE_STATUS_OK \<or>
     status = MP_CACHE_STORE_STATUS_OK \<and> status_code response \<in> {200, 500} \<and>
     persist (at 3 e) (server\<lparr>server_store := store'\<rparr>) now
       (mp_cache_storage_append_delete (at 2 e) (server_storage server) fs (Some (bytes_of key))) =
       (status_code response = 200, fs'))"
  using assms by (auto simp: mp_cache_http_handle_cache_delete_def Let_def same_data_def split: prod.splits if_splits bool.splits)


text \<open>Role checks, and the store after the sweep.\<close>

lemma credentials_roles:
  "credentials security request MP_CACHE_ROLE_ADMIN \<Longrightarrow> credentials security request MP_CACHE_ROLE_OPERATOR"
  "credentials security request MP_CACHE_ROLE_OPERATOR \<Longrightarrow> credentials security request MP_CACHE_ROLE_CLIENT"
  "credentials security request MP_CACHE_ROLE_ADMIN \<Longrightarrow> credentials security request MP_CACHE_ROLE_CLIENT"
  by (erule credentials_weaker, simp add: mp_cache_role_allows_def MP_CACHE_ROLE_ADMIN_def MP_CACHE_ROLE_OPERATOR_def
      MP_CACHE_ROLE_CLIENT_def word_le_nat_alt)+

lemma maybe_sweep_data:
  "server_store (swept server now) = server_store (mp_cache_http_maybe_sweep server now)"
  "server_security (mp_cache_http_maybe_sweep server now) = server_security server"
  "server_storage (mp_cache_http_maybe_sweep server now) = server_storage server"
  "server_config (mp_cache_http_maybe_sweep server now) = server_config server"
  by (simp_all add: mp_cache_http_maybe_sweep_def count_metric_def)

lemma put_security:
  "mp_cache_http_handle_cache_put e server fs key request now = (response, server', fs') \<Longrightarrow>
     server_security server' = server_security server"
  using handle_put_effect [of e server fs key request now response server' fs'] by (auto simp: same_data_def)

lemma delete_security:
  "mp_cache_http_handle_cache_delete e server fs key now = (response, server', fs') \<Longrightarrow>
     server_security server' = server_security server"
  using handle_delete_effect [of e server fs key now response server' fs'] by (auto simp: same_data_def)

lemma routed_authorized:
  assumes "routed server fs request now response server' fs'"
  shows "(\<not> credentials (server_security server) request MP_CACHE_ROLE_CLIENT \<longrightarrow>
       same_data server server' \<and> fs' = fs \<and> (status_code response = 200 \<longrightarrow> is_public_path (request_path request))) \<and>
     (\<not> credentials (server_security server) request MP_CACHE_ROLE_ADMIN \<longrightarrow>
       server_security server' = server_security server \<and>
       (\<not> is_cache_path (request_path request) \<longrightarrow> same_data server server' \<and> fs' = fs)) \<and>
     (status_code response = 200 \<and> \<not> is_public_path (request_path request) \<and> \<not> is_cache_path (request_path request) \<longrightarrow>
       credentials (server_security server) request MP_CACHE_ROLE_OPERATOR)"
  using assms
proof cases
  case (routed_get server1 key e)
  with handle_get_effect [OF routed_get(6)] show ?thesis
    by (auto simp: same_data_def)
next
  case (routed_put server1 key e)
  with put_security [OF routed_put(5)] show ?thesis
    by (auto simp: same_data_def)
next
  case (routed_delete server1 key e)
  with delete_security [OF routed_delete(5)] show ?thesis
    by (auto simp: same_data_def)
qed (auto intro: credentials_roles simp: same_data_def)


section \<open>The theorems\<close>

text \<open>
  Property C4. What a request may change depends on the credentials it carries, whatever its
  method, path and body are. Without the token of an active client it changes neither the file
  system nor the registry, nothing but expired entries leaves the store, and only the public pages
  answer 200. Without an administrator's token no request changes the registry, and only the cache
  routes change the store or the files. Every other page that answers 200 was asked for with an
  operator's token at least.
\<close>

theorem route_authorized:
  assumes "mp_cache_http_route_request e server fs request = (response, server', fs')"
  shows "(\<not> credentials (server_security server) request MP_CACHE_ROLE_CLIENT \<longrightarrow>
       fs' = fs \<and> server_security server' = server_security server \<and>
       server_store server' = server_store (mp_cache_http_maybe_sweep server (mp_cache_http_now (at 0 e))) \<and>
       (status_code response = 200 \<longrightarrow> is_public_path (request_path request))) \<and>
     (\<not> credentials (server_security server) request MP_CACHE_ROLE_ADMIN \<longrightarrow>
       server_security server' = server_security server \<and>
       (\<not> is_cache_path (request_path request) \<longrightarrow> fs' = fs \<and>
         server_store server' = server_store (mp_cache_http_maybe_sweep server (mp_cache_http_now (at 0 e))))) \<and>
     (status_code response = 200 \<and> \<not> is_public_path (request_path request) \<and> \<not> is_cache_path (request_path request) \<longrightarrow>
       credentials (server_security server) request MP_CACHE_ROLE_OPERATOR)"
  using routed_authorized [OF route_request_routed [OF assms]] by (simp add: maybe_sweep_data same_data_def)

definition sample_server :: mp_cache_http_server where
  "sample_server = \<lparr>server_open = True, started_at_utc = 100, last_sweep_at_utc = 100,
     server_config = mp_cache_config_init_defaults, server_store = sample_store, server_security = sample_security,
     server_storage = sample_storage, rate_limiter = empty_limiter, metrics = zero_metrics\<rparr>"

theorem route_authorized_witness:
  "snd (snd (mp_cache_http_route_request good_env sample_server sample_fs
     (zero_request\<lparr>request_method := ''POST'', request_path := ''/v1/purge/all''\<rparr>))) = sample_fs \<and>
   server_store (fst (snd (mp_cache_http_route_request good_env sample_server sample_fs
     (zero_request\<lparr>request_method := ''POST'', request_path := ''/v1/purge/all''\<rparr>)))) =
     server_store (mp_cache_http_maybe_sweep sample_server (mp_cache_http_now (at 0 good_env))) \<and>
   status_code (fst (mp_cache_http_route_request good_env sample_server sample_fs
     (zero_request\<lparr>request_method := ''POST'', request_path := ''/v1/purge/all''\<rparr>))) \<noteq> 200"
proof -
  let ?request = "zero_request\<lparr>request_method := ''POST'', request_path := ''/v1/purge/all''\<rparr>"
  have "\<not> credentials (server_security sample_server) ?request MP_CACHE_ROLE_CLIENT"
    by (simp add: credentials_def mp_cache_http_extract_bearer_token_def starts_with_nocase_def)
  moreover have "\<not> is_public_path ''/v1/purge/all''"
    by (simp add: mp_cache_http_path_is_health_def)
  moreover obtain response server' fs' where
    r: "mp_cache_http_route_request good_env sample_server sample_fs ?request = (response, server', fs')"
    by (rule prod_cases3)
  ultimately show ?thesis
    using route_authorized [OF r] by (simp add: r)
qed

text \<open>
  Property C16. The rate limiter keeps its bound against any interleaving of clients: of the calls
  made for one subject at non-decreasing times inside any interval as long as the window, at most
  twice the configured number is allowed, in every state of the limiter and whatever allocations
  fail.
\<close>

theorem rate_limit_bound:
  assumes "call_ids_fit calls" "sorted (call_times calls)"
    and "\<forall>t \<in> set (call_times calls). t0 \<le> t \<and> t < t0 + uint (rate_limit_window_seconds (server_config server))"
  shows "limit_allowed subject server calls \<le> 2 * unat (rate_limit_requests (server_config server))"
  using limit_allowed_window [OF assms, of subject] by (auto simp: remaining_def split: option.splits)

theorem rate_limit_bound_witness:
  "limit_allowed ''app'' (sample_server\<lparr>server_config := mp_cache_config_init_defaults\<lparr>rate_limit_requests := 2,
       rate_limit_window_seconds := 60\<rparr>,
     rate_limiter := \<lparr>limit_entries = [\<lparr>limit_subject = ''app'', window_started_at = 0, request_count = 1\<rparr>], limit_capacity = 8\<rparr>\<rparr>)
     [(good_env, ''app'', 59), (good_env, ''job'', 59), (good_env, ''app'', 59), (good_env, ''app'', 60), (good_env, ''app'', 61)] = 3 \<and>
   limit_allowed ''app'' (sample_server\<lparr>server_config := mp_cache_config_init_defaults\<lparr>rate_limit_requests := 2,
       rate_limit_window_seconds := 60\<rparr>,
     rate_limiter := \<lparr>limit_entries = [\<lparr>limit_subject = ''app'', window_started_at = 0, request_count = 1\<rparr>], limit_capacity = 8\<rparr>\<rparr>)
     [(good_env, ''app'', 59), (good_env, ''job'', 59), (good_env, ''app'', 59), (good_env, ''app'', 60), (good_env, ''app'', 61)] \<le> 2 * 2"
proof -
  let ?server = "sample_server\<lparr>server_config := mp_cache_config_init_defaults\<lparr>rate_limit_requests := 2,
       rate_limit_window_seconds := 60\<rparr>,
     rate_limiter := \<lparr>limit_entries = [\<lparr>limit_subject = ''app'', window_started_at = 0, request_count = 1\<rparr>], limit_capacity = 8\<rparr>\<rparr>"
  let ?calls = "[(good_env, ''app'', 59), (good_env, ''job'', 59), (good_env, ''app'', 59), (good_env, ''app'', 60), (good_env, ''app'', 61)]"
  have "limit_allowed ''app'' ?server ?calls = 3"
    by (simp add: mp_cache_http_rate_limit_allow_def limit_index_def limit_add_subject_def limit_count_def Let_def
        snprintf_s_def capacity_defs env_simps word_le_nat_alt)
  moreover have "limit_allowed ''app'' ?server ?calls \<le> 2 * unat (rate_limit_requests (server_config ?server))"
    by (rule rate_limit_bound [of _ 59]) (simp_all add: call_ids_fit_def MP_CACHE_CLIENT_ID_CAP_def)
  ultimately show ?thesis by simp
qed

end
