(* ===== verification/Http_Wire.thy ===== *)
theory Http_Wire
  imports Http_Parse
begin

text \<open>
  What the parser makes of the texts that are sent to it: a request that is read fits its buffers,
  a request of the client arrives whole however the socket cuts it, and the escaped strings, arrays and
  numbers of the bodies the program writes are read back.
\<close>


section \<open>Searching and C strings\<close>

lemma strstr_found:
  "strstr str needle = Some (before, found) \<Longrightarrow> str = before @ found \<and> take (length needle) found = needle"
proof (induction str arbitrary: before)
  case Nil
  then show ?case by (simp add: strstr.simps split: if_splits)
next
  case (Cons c str)
  then show ?case
    by (subst (asm) (2) strstr.simps) (auto split: if_splits option.splits)
qed

lemma strstr_hit: "take (length needle) str = needle \<Longrightarrow> strstr str needle = Some ([], str)"
  by (simp add: strstr.simps)

lemma strstr_length: "strstr str needle = Some (before, found) \<Longrightarrow> length before + length needle \<le> length str"
  by (metis strstr_found add_left_mono length_append length_take min.cobounded1)

lemma strstr_append:
  "strstr str needle = Some (before, found) \<Longrightarrow> strstr (str @ extra) needle = Some (before, found @ extra)"
proof (induction str arbitrary: before)
  case Nil
  then show ?case by (simp add: strstr.simps split: if_splits)
next
  case (Cons c str)
  show ?case
  proof (cases "take (length needle) (c # str) = needle")
    case True
    then have "length needle \<le> Suc (length str)"
      by (metis length_Cons length_take min.cobounded1)
    with True have "take (length needle) ((c # str) @ extra) = needle"
      by (simp only: take_append) simp
    from strstr_hit [OF this] strstr_hit [OF True] Cons.prems show ?thesis
      by simp
  next
    case False
    with Cons.prems obtain b where b: "strstr str needle = Some (b, found)" "before = c # b"
      by (subst (asm) strstr.simps) (auto split: option.splits)
    from strstr_length [OF b(1)] have "length needle \<le> length str"
      by simp
    with False have "take (length needle) ((c # str) @ extra) \<noteq> needle"
      by (simp only: take_append) simp
    with Cons.IH [OF b(1)] b(2) show ?thesis
      by (subst strstr.simps) simp
  qed
qed

lemma c_string_append:
  "c_string (xs @ ys) = (if NUL \<in> set xs then c_string xs else xs @ c_string ys)"
  by (auto simp: c_string_def takeWhile_append)

lemma c_string_extends: "\<exists>zs. c_string (xs @ ys) = c_string xs @ zs"
  by (auto simp: c_string_append)


section \<open>A request that is read fits its buffers\<close>

lemma read_head_loop_length:
  "read_head_loop capacity recvs buffer = Inr (buffer', recvs') \<Longrightarrow> length buffer < capacity \<Longrightarrow>
     length buffer' < capacity"
  by (induction capacity recvs buffer rule: read_head_loop.induct)
    (auto simp: Let_def split: if_splits recv_result.splits)

lemma read_body_loop_result:
  "read_body_loop capacity needed recvs buffer = Inr buffer' \<Longrightarrow> length buffer < capacity \<Longrightarrow>
     length buffer' < capacity \<and> (\<exists>extra. buffer' = buffer @ extra)"
proof (induction capacity needed recvs buffer rule: read_body_loop.induct)
  case (2 capacity needed event recvs buffer)
  show ?case
  proof (cases "length buffer < needed")
    case False
    with 2 show ?thesis by auto
  next
    case True
    show ?thesis
    proof (cases event)
      case (Received chunk)
      show ?thesis
      proof (cases "take (capacity - length buffer - 1) chunk = []")
        case True
        with Received 2(3,4) \<open>length buffer < needed\<close> show ?thesis by (auto simp: Let_def)
      next
        case F: False
        with Received 2(3) \<open>length buffer < needed\<close>
        have "read_body_loop capacity needed recvs (buffer @ take (capacity - length buffer - 1) chunk) = Inr buffer'"
          by (auto simp: Let_def)
        moreover have "length (buffer @ take (capacity - length buffer - 1) chunk) < capacity"
          using 2(4) by simp
        ultimately show ?thesis
          using 2(1) [OF refl True Received F] by force
      qed
    qed (use 2 True in \<open>auto simp: Let_def\<close>)
  qed
qed auto

lemma parse_header_line_keeps:
  "request_method (parse_header_line line request) = request_method request \<and>
   request_target (parse_header_line line request) = request_target request \<and>
   (length (authorization_header request) < MP_CACHE_HTTP_AUTHORIZATION_CAPACITY \<longrightarrow>
    length (authorization_header (parse_header_line line request)) < MP_CACHE_HTTP_AUTHORIZATION_CAPACITY)"
  by (auto simp: parse_header_line_def length_snprintf_s http_capacities)

lemma parse_header_lines_keep:
  "request_method (foldl (\<lambda>r l. parse_header_line l r) request lines) = request_method request \<and>
   request_target (foldl (\<lambda>r l. parse_header_line l r) request lines) = request_target request \<and>
   (length (authorization_header request) < MP_CACHE_HTTP_AUTHORIZATION_CAPACITY \<longrightarrow>
    length (authorization_header (foldl (\<lambda>r l. parse_header_line l r) request lines)) < MP_CACHE_HTTP_AUTHORIZATION_CAPACITY)"
  by (induction lines arbitrary: request) (auto simp: parse_header_line_keeps)

lemma sscanf_word_length: "sscanf_word width str = Some (w, rest) \<Longrightarrow> length w \<le> width"
  by (auto simp: sscanf_word_def Let_def split: if_splits)

definition request_fits :: "mp_cache_http_request \<Rightarrow> bool" where
  "request_fits request \<longleftrightarrow>
     length (request_method request) < MP_CACHE_HTTP_METHOD_CAPACITY \<and>
     length (request_target request) < MP_CACHE_HTTP_PATH_CAPACITY \<and>
     length (request_path request) < MP_CACHE_HTTP_PATH_CAPACITY \<and>
     length (query_string request) < MP_CACHE_HTTP_PATH_CAPACITY \<and>
     length (authorization_header request) < MP_CACHE_HTTP_AUTHORIZATION_CAPACITY"

lemma parse_headers_fit:
  assumes "mp_cache_http_parse_headers headers_text zero_request = Inr request"
  shows "request_fits request"
proof -
  from assms obtain line lines verb rest target rest' path query where
    p: "sscanf_word 15 line = Some (verb, rest)" "sscanf_word 511 rest = Some (target, rest')"
      "mp_cache_http_split_target target MP_CACHE_HTTP_PATH_CAPACITY MP_CACHE_HTTP_PATH_CAPACITY = (path, query)"
      "request = (foldl (\<lambda>r l. parse_header_line l r) (zero_request\<lparr>request_method := verb, request_target := target\<rparr>) lines)
         \<lparr>request_path := path, query_string := query\<rparr>"
    by (auto simp: mp_cache_http_parse_headers_def Let_def split: list.splits option.splits prod.splits)
  then have "length path < MP_CACHE_HTTP_PATH_CAPACITY" "length query < MP_CACHE_HTTP_PATH_CAPACITY"
    by (auto simp: mp_cache_http_split_target_def length_snprintf_s http_capacities split: option.splits)
  moreover have "length verb < MP_CACHE_HTTP_METHOD_CAPACITY" "length target < MP_CACHE_HTTP_PATH_CAPACITY"
    using sscanf_word_length [OF p(1)] sscanf_word_length [OF p(2)] by (simp_all add: http_capacities)
  ultimately show ?thesis
    using parse_header_lines_keep [of "zero_request\<lparr>request_method := verb, request_target := target\<rparr>" lines]
    by (simp add: p(4) request_fits_def http_capacities)
qed

lemma parse_request_buffer_result:
  assumes "mp_cache_http_parse_request_buffer e buffer = Inr request"
  obtains head found r where "strstr (c_string buffer) (CRLF @ CRLF) = Some (head, found)"
    "mp_cache_http_parse_headers (take (length head + 4) buffer) zero_request = Inr r"
    "(of_nat (length head + 4) :: u64) + content_length r \<le> of_nat (length buffer)"
    "request = r\<lparr>request_body := Some (c_string (take (unat (content_length r)) (drop (length head + 4) buffer))),
       request_body_length := content_length r\<rparr>"
  using assms
  by (auto simp: mp_cache_http_parse_request_buffer_def Let_def not_less split: option.splits prod.splits if_splits sum.splits)

lemma read_request_parsed:
  assumes r: "mp_cache_http_read_request e recvs capacity = Inr request"
  obtains buffer header_length where "length buffer < capacity"
    "header_length + unat (request_body_length request) \<le> length buffer"
    "request_body request = Some (c_string (take (unat (request_body_length request)) (drop header_length buffer)))"
    "request_fits request"
proof -
  from r obtain buf recvs' head found r1 buffer where
    b: "read_head_loop capacity recvs [] = Inr (buf, recvs')" "capacity \<noteq> 0"
      "strstr (c_string buf) (CRLF @ CRLF) = Some (head, found)"
      "mp_cache_http_parse_headers (take (length head + 4) buf) zero_request = Inr r1"
      "unat (content_length r1) \<le> capacity - (length head + 4) - 1"
      "read_body_loop capacity (length head + 4 + unat (content_length r1)) recvs' buf = Inr buffer"
      "\<not> length buffer < length head + 4 + unat (content_length r1)"
      "mp_cache_http_parse_request_buffer (at 1 e) buffer = Inr request"
    by (auto simp: mp_cache_http_read_request_def Let_def not_less split: if_splits sum.splits prod.splits option.splits)
  have "length buf < capacity"
    using read_head_loop_length [OF b(1)] b(2) by simp
  from read_body_loop_result [OF b(6) this] obtain extra where
    l: "length buffer < capacity" and extra: "buffer = buf @ extra" by auto
  from parse_request_buffer_result [OF b(8)] obtain head' found_at' r2 where
    p: "strstr (c_string buffer) (CRLF @ CRLF) = Some (head', found_at')"
      "mp_cache_http_parse_headers (take (length head' + 4) buffer) zero_request = Inr r2"
      "(of_nat (length head' + 4) :: u64) + content_length r2 \<le> of_nat (length buffer)"
      "request = r2\<lparr>request_body := Some (c_string (take (unat (content_length r2)) (drop (length head' + 4) buffer))),
         request_body_length := content_length r2\<rparr>" .
  obtain zs where "c_string buffer = c_string buf @ zs"
    using c_string_extends extra by blast
  with strstr_append [OF b(3), of zs] p(1) have h: "head' = head" by simp
  have "length head + 4 \<le> length buf"
    using strstr_length [OF b(3)] length_c_string_le [of buf] by simp
  with p(2) b(4) h extra have r: "r2 = r1" by simp
  have "length head' + 4 + unat (content_length r2) \<le> length buffer"
    using b(7) by (simp add: h r)
  with that [of buffer "length head' + 4"] l p(4) parse_headers_fit [OF p(2)] show thesis
    by (simp add: request_fits_def)
qed


section \<open>Header lines\<close>

text \<open>A head is a list of lines, each ended by CR LF, and an empty line.\<close>

definition crlf_lines :: "string list \<Rightarrow> string" where
  "crlf_lines lines = concat (map (\<lambda>line. line @ CRLF) lines)"

definition header_line :: "string \<Rightarrow> bool" where
  "header_line line \<longleftrightarrow> line \<noteq> [] \<and> CR \<notin> set line \<and> LF \<notin> set line"

lemma crlf_lines_simps [simp]:
  "crlf_lines [] = []"
  "crlf_lines (line # lines) = line @ CRLF @ crlf_lines lines"
  "crlf_lines (lines @ lines') = crlf_lines lines @ crlf_lines lines'"
  by (simp_all add: crlf_lines_def)

lemma strtok_Nil [simp]: "strtok delimiters [] = []"
  by (simp add: strtok.simps)

lemma strtok_skip: "c \<in> set delimiters \<Longrightarrow> strtok delimiters (c # str) = strtok delimiters str"
  by (simp add: strtok.simps [of delimiters "c # str"] strtok.simps [of delimiters str])

lemma strtok_line:
  assumes "header_line line"
  shows "strtok CRLF (line @ CRLF @ rest) = line # strtok CRLF rest"
proof -
  have "dropWhile (\<lambda>c. c \<in> set CRLF) (line @ CRLF @ rest) = line @ CRLF @ rest"
    using assms by (cases line) (auto simp: header_line_def)
  moreover have "takeWhile (\<lambda>c. c \<notin> set CRLF) (line @ CRLF @ rest) = line"
    using assms by (subst takeWhile_all) (auto simp: header_line_def)
  moreover have "dropWhile (\<lambda>c. c \<notin> set CRLF) (line @ CRLF @ rest) = CRLF @ rest"
    using assms by (subst dropWhile_all) (auto simp: header_line_def)
  moreover have "strtok CRLF (CRLF @ rest) = strtok CRLF rest"
    by (simp add: strtok_skip)
  ultimately show ?thesis
    using assms by (subst strtok.simps) (simp add: Let_def header_line_def del: set_simps)
qed

lemma strtok_lines: "list_all header_line lines \<Longrightarrow> strtok CRLF (crlf_lines lines @ CRLF) = lines"
proof (induction lines)
  case Nil
  then show ?case by (simp add: strtok_skip)
next
  case (Cons line lines)
  then show ?case using strtok_line [of line "crlf_lines lines @ CRLF"] by simp
qed

lemma strstr_skip:
  assumes "needle = c # needle'" "c \<notin> set str"
  shows "strstr (str @ rest) needle = map_option (\<lambda>(before, found). (str @ before, found)) (strstr rest needle)"
  using assms(2)
proof (induction str)
  case Nil
  then show ?case by (simp add: case_prod_beta option.map_ident)
next
  case (Cons d str)
  then show ?case
    by (subst strstr.simps) (auto simp: assms(1) option.map_comp split: option.splits)
qed

lemma strstr_lines:
  assumes "list_all header_line lines" "lines \<noteq> []"
  shows "\<exists>head. crlf_lines lines = head @ CRLF \<and>
    strstr (crlf_lines lines @ CRLF @ body) (CRLF @ CRLF) = Some (head, CRLF @ CRLF @ body)"
  using assms
proof (induction lines)
  case (Cons line lines)
  have skip: "strstr (line @ rest) (CRLF @ CRLF) =
      map_option (\<lambda>(before, found). (line @ before, found)) (strstr rest (CRLF @ CRLF))" for rest
    using Cons.prems(1) by (intro strstr_skip) (auto simp: header_line_def)
  show ?case
  proof (cases lines)
    case Nil
    then show ?thesis
      using skip [of "CRLF @ CRLF @ body"] strstr_hit [of "CRLF @ CRLF" "CRLF @ CRLF @ body"] by simp
  next
    case (Cons line' lines')
    then obtain c t where c: "crlf_lines lines @ CRLF @ body = c # t" "c \<noteq> CR"
      using Cons.prems(1) by (cases line') (auto simp: header_line_def)
    from Cons.IH Cons.prems(1) Cons obtain head where
      h: "crlf_lines lines = head @ CRLF" "strstr (c # t) (CRLF @ CRLF) = Some (head, CRLF @ CRLF @ body)"
      using c(1) by auto
    have "strstr (CRLF @ c # t) (CRLF @ CRLF) = Some (CRLF @ head, CRLF @ CRLF @ body)"
      using h(2) c(2) by (simp add: strstr.simps [of "CR # LF # c # t"] strstr.simps [of "LF # c # t"])
    with skip [of "CRLF @ c # t"] c(1) h(1) show ?thesis
      by auto
  qed
qed simp


section \<open>What the client sends is what the server parses\<close>

definition word_text :: "string \<Rightarrow> bool" where
  "word_text str \<longleftrightarrow> str \<noteq> [] \<and> (\<forall>c \<in> set str. \<not> isspace c \<and> c \<noteq> NUL)"

lemma sscanf_word_plain:
  assumes "word_text w" "length w \<le> width" "\<forall>c \<in> set sp. isspace c" "rest = [] \<or> isspace (hd rest)"
  shows "sscanf_word width (sp @ w @ rest) = Some (w, rest)"
proof -
  have "dropWhile isspace (sp @ w @ rest) = w @ rest"
    using assms(1,3) by (subst dropWhile_all) (auto simp: word_text_def dropWhile_append dropWhile_id neq_Nil_conv)
  moreover have "takeWhile (\<lambda>c. \<not> isspace c) (w @ rest) = w"
    using assms(1,4) by (cases rest) (simp_all add: word_text_def takeWhile_all)
  ultimately show ?thesis
    using assms(1,2) by (cases w) (simp_all add: sscanf_word_def Let_def word_text_def)
qed

definition client_header_lines :: "string \<Rightarrow> string \<Rightarrow> string ptr \<Rightarrow> string ptr \<Rightarrow> nat \<Rightarrow> string list" where
  "client_header_lines verb path auth_token content_type body_length =
     [''Host: localhost'', ''Connection: close''] @
     (case auth_token of None \<Rightarrow> [] | Some tok \<Rightarrow> [''Authorization: Bearer '' @ tok]) @
     (case content_type of None \<Rightarrow> [] | Some t \<Rightarrow> [''Content-Type: '' @ t]) @
     [''Content-Length: '' @ print_nat body_length]"

lemma client_request_text_lines:
  "client_request_text verb path auth_token content_type (Some body) =
     crlf_lines ((verb @ '' '' @ path @ '' HTTP/1.1'') # client_header_lines verb path auth_token content_type (length body)) @
     CRLF @ body"
  by (simp add: client_request_text_def client_header_lines_def split: option.splits)

lemma starts_with_nocase_code:
  "starts_with_nocase str [] = True"
  "starts_with_nocase [] (d # prefix) = False"
  "starts_with_nocase (c # str) (d # prefix) = (tolower c = tolower d \<and> starts_with_nocase str prefix)"
  by (simp_all add: starts_with_nocase_def)

lemma strtoul_space: "fst (strtoul (CHR '' '' # str)) = fst (strtoul str)"
  by (simp add: strtoul_def Let_def isspace_def)

lemma parse_content_length_line:
  assumes "n < 2 ^ 64"
  shows "parse_header_line (''Content-Length: '' @ print_nat n) request = request\<lparr>content_length := of_nat n\<rparr>"
  using strtoul_print_nat [OF assms, of "[]"]
  by (simp add: parse_header_line_def starts_with_nocase_code strtoul_space)

lemma parse_authorization_line:
  "parse_header_line (''Authorization: Bearer '' @ tok) request =
     request\<lparr>authorization_header := snprintf_s MP_CACHE_HTTP_AUTHORIZATION_CAPACITY (''Bearer '' @ tok)\<rparr>"
  by (simp add: parse_header_line_def starts_with_nocase_code tolower_def isspace_def)

lemma parse_other_lines:
  "parse_header_line ''Host: localhost'' request = request"
  "parse_header_line ''Connection: close'' request = request"
  "parse_header_line (''Content-Type: '' @ t) request = request"
  by (simp_all add: parse_header_line_def starts_with_nocase_code tolower_def)

lemma parse_client_header_lines:
  assumes "n < 2 ^ 64"
  shows "foldl (\<lambda>r l. parse_header_line l r) request (client_header_lines verb path auth_token content_type n) =
    request\<lparr>authorization_header := (case auth_token of None \<Rightarrow> authorization_header request
       | Some tok \<Rightarrow> snprintf_s MP_CACHE_HTTP_AUTHORIZATION_CAPACITY (''Bearer '' @ tok)),
      content_length := of_nat n\<rparr>"
  using assms
  by (simp add: client_header_lines_def parse_content_length_line parse_authorization_line parse_other_lines
      del: append.simps split: option.splits)

text \<open>Texts the client puts on header lines: no line ends and no NUL.\<close>

definition line_text :: "string \<Rightarrow> bool" where
  "line_text str \<longleftrightarrow> CR \<notin> set str \<and> LF \<notin> set str \<and> NUL \<notin> set str"

lemma line_text_simps [simp]:
  "line_text []"
  "line_text (c # str) \<longleftrightarrow> c \<noteq> CR \<and> c \<noteq> LF \<and> c \<noteq> NUL \<and> line_text str"
  "line_text (str @ str') \<longleftrightarrow> line_text str \<and> line_text str'"
  by (auto simp: line_text_def)

lemma line_text_word: "word_text str \<Longrightarrow> line_text str"
  by (auto simp: line_text_def word_text_def isspace_def)

lemma line_text_print_nat: "line_text (print_nat n)"
  using print_nat_digits [of _ n] by (fastforce simp: line_text_def isdigit_def)

lemma lines_text_ok:
  "list_all (\<lambda>line. line \<noteq> [] \<and> line_text line) lines \<Longrightarrow> list_all header_line lines \<and> NUL \<notin> set (crlf_lines lines)"
  by (induction lines) (auto simp: line_text_def header_line_def)

lemma client_lines_ok:
  assumes "word_text verb" "word_text path" "pred_option line_text auth_token" "pred_option line_text content_type"
  shows "list_all (\<lambda>line. line \<noteq> [] \<and> line_text line)
    ((verb @ '' '' @ path @ '' HTTP/1.1'') # client_header_lines verb path auth_token content_type n)"
  using assms
  by (cases auth_token; cases content_type)
    (simp_all add: client_header_lines_def line_text_word line_text_print_nat)

definition sent_request :: "string \<Rightarrow> string \<Rightarrow> string ptr \<Rightarrow> string \<Rightarrow> mp_cache_http_request" where
  "sent_request verb path auth_token body =
     (let (request_path, query) = mp_cache_http_split_target path MP_CACHE_HTTP_PATH_CAPACITY MP_CACHE_HTTP_PATH_CAPACITY in
      \<lparr>request_method = verb, request_target = path, request_path = request_path, query_string = query,
       authorization_header = (case auth_token of None \<Rightarrow> []
         | Some tok \<Rightarrow> snprintf_s MP_CACHE_HTTP_AUTHORIZATION_CAPACITY (''Bearer '' @ tok)),
       content_length = of_nat (length body), request_body = Some body, request_body_length = of_nat (length body)\<rparr>)"

lemma parse_client_request:
  assumes words: "word_text verb" "word_text path" "length verb < MP_CACHE_HTTP_METHOD_CAPACITY"
      "length path < MP_CACHE_HTTP_PATH_CAPACITY"
    and texts: "pred_option line_text auth_token" "pred_option line_text content_type"
    and body: "NUL \<notin> set body" "length (client_request_text verb path auth_token content_type (Some body)) < 2 ^ 63"
    and e: "ok 0 e"
  shows "mp_cache_http_parse_request_buffer e (client_request_text verb path auth_token content_type (Some body)) =
    Inr (sent_request verb path auth_token body)"
proof -
  define lines where "lines = client_header_lines verb path auth_token content_type (length body)"
  define first where "first = verb @ '' '' @ path @ '' HTTP/1.1''"
  define buffer where "buffer = crlf_lines (first # lines) @ CRLF @ body"
  have text_eq: "client_request_text verb path auth_token content_type (Some body) = buffer"
    by (simp only: client_request_text_lines lines_def first_def buffer_def)
  have ok: "list_all header_line (first # lines)" "NUL \<notin> set (crlf_lines (first # lines))"
    using lines_text_ok [OF client_lines_ok [OF words(1,2) texts]] unfolding first_def lines_def by blast+
  from strstr_lines [OF ok(1) list.distinct(2), of body] obtain head where
    h: "crlf_lines (first # lines) = head @ CRLF"
      "strstr buffer (CRLF @ CRLF) = Some (head, CRLF @ CRLF @ body)"
    unfolding buffer_def by blast
  have cs: "c_string buffer = buffer"
    using ok(2) body(1) unfolding buffer_def by (intro c_string_id) auto
  have tk: "take (length head + 4) buffer = crlf_lines (first # lines) @ CRLF"
    and dr: "drop (length head + 4) buffer = body"
    unfolding buffer_def h(1) by simp_all
  have w1: "sscanf_word 15 first = Some (verb, '' '' @ path @ '' HTTP/1.1'')"
    using sscanf_word_plain [of verb 15 "[]" "'' '' @ path @ '' HTTP/1.1''"] words(1,3)
    by (simp add: first_def http_capacities isspace_def)
  have w2: "sscanf_word 511 ('' '' @ path @ '' HTTP/1.1'') = Some (path, '' HTTP/1.1'')"
    using words(2,4) by (intro sscanf_word_plain) (simp_all add: http_capacities isspace_def)
  have len: "length body < 2 ^ 64" "length head + 4 + length body < 2 ^ 63"
    using body(2) unfolding text_eq buffer_def h(1) by simp_all
  obtain rp q where sp: "mp_cache_http_split_target path MP_CACHE_HTTP_PATH_CAPACITY MP_CACHE_HTTP_PATH_CAPACITY = (rp, q)"
    by fastforce
  have hd: "mp_cache_http_parse_headers (crlf_lines (first # lines) @ CRLF) zero_request =
      Inr ((sent_request verb path auth_token body)\<lparr>request_body := None, request_body_length := 0\<rparr>)"
    unfolding mp_cache_http_parse_headers_def strtok_lines [OF ok(1)]
    by (simp add: w1 w2 [simplified] sp Let_def sent_request_def lines_def parse_client_header_lines [OF len(1)] split: option.splits)
  have "(of_nat (length head + 4) :: u64) + of_nat (length body) \<le> of_nat (length buffer)"
    unfolding buffer_def h(1) by (simp add: algebra_simps)
  moreover have "unat (of_nat (length body) :: u64) = length body"
    using len(1) by (simp add: unat_of_nat)
  ultimately show ?thesis
    unfolding text_eq mp_cache_http_parse_request_buffer_def cs h(2)
    by (simp add: Let_def tk [simplified] dr [simplified] hd [simplified] e sp sent_request_def c_string_id [OF body(1)] not_less)
qed


section \<open>JSON strings round trip\<close>

text \<open>
  The characters that survive: everything but the control characters that are written as
  \<^verbatim>\<open>\u00xx\<close>, which the reader does not know.
\<close>

definition json_char :: "char \<Rightarrow> bool" where
  "json_char c \<longleftrightarrow> 32 \<le> (of_char c :: nat) \<or> c \<in> {LF, CR, TAB}"

lemma json_escape_text_simps [simp]:
  "json_escape_text [] = []"
  "json_escape_text (c # str) = json_escape_char c @ json_escape_text str"
  by (simp_all add: json_escape_text_def)

lemma json_escape_char_read:
  assumes "json_char c"
  shows "\<exists>d ds. json_escape_char c = d # ds \<and> d \<noteq> QUOTE \<and> json_next_char d (ds @ rest) = Inr (c, rest)"
proof (cases "c \<in> {BACKSLASH, QUOTE, LF, CR, TAB}")
  case True
  then show ?thesis
    by (auto simp: json_escape_char_def json_next_char_def json_unescape_def)
next
  case False
  with assms have "json_escape_char c = [c]"
    by (auto simp: json_escape_char_def json_char_def)
  with False show ?thesis
    by (simp add: json_next_char_def)
qed

lemma json_string_loop_escaped:
  assumes "list_all json_char str" "length out + length str < capacity"
  shows "json_string_loop capacity (json_escape_text str @ QUOTE # rest) out = Inr (out @ str)"
  using assms
proof (induction str arbitrary: out)
  case (Cons c str)
  from Cons.prems(1) obtain d ds where
    d: "json_escape_char c = d # ds" "d \<noteq> QUOTE"
      "json_next_char d (ds @ json_escape_text str @ QUOTE # rest) = Inr (c, json_escape_text str @ QUOTE # rest)"
    using json_escape_char_read [of c "json_escape_text str @ QUOTE # rest"] by auto
  with Cons.IH [of "out @ [c]"] Cons.prems show ?case by simp
qed simp

lemma json_item_loop_escaped:
  assumes "list_all json_char str" "all_ok e"
  shows "json_item_loop e (json_escape_text str @ QUOTE # rest) decoded capacity = Inr (decoded @ str, rest)"
  using assms(1)
proof (induction str arbitrary: decoded capacity)
  case (Cons c str)
  from Cons.prems(1) obtain d ds where
    d: "json_escape_char c = d # ds" "d \<noteq> QUOTE"
      "json_next_char d (ds @ json_escape_text str @ QUOTE # rest) = Inr (c, json_escape_text str @ QUOTE # rest)"
    using json_escape_char_read [of c "json_escape_text str @ QUOTE # rest"] by auto
  with Cons.IH [of "decoded @ [c]"] Cons.prems ok_if_all_ok [OF assms(2)] show ?case by simp
qed simp

text \<open>The elements of an array, separated by commas and closed by a bracket.\<close>

fun json_elements :: "string list \<Rightarrow> string" where
  "json_elements [] = []"
| "json_elements [str] = json_text (json_escape_text str)"
| "json_elements (str # str' # strs) = json_text (json_escape_text str) @ '','' @ json_elements (str' # strs)"

lemma json_array_loop_elements:
  assumes "list_all (list_all json_char) strs" "strs \<noteq> []" "all_ok e"
    and "length acc + length strs \<le> MP_CACHE_HTTP_JSON_ARRAY_LIMIT"
  shows "json_array_loop e (json_elements strs @ '']'' @ rest) acc capacity = Inr (acc @ strs)"
  using assms(1,2,4)
proof (induction strs arbitrary: acc capacity rule: json_elements.induct)
  case (2 str)
  then show ?case
    using assms(3)
    by (simp add: json_text_def json_item_loop_escaped env_simps mp_cache_http_skip_json_whitespace_def isspace_def Let_def)
next
  case (3 str str' strs)
  have "mp_cache_http_skip_json_whitespace (json_elements (str' # strs) @ '']'' @ rest) = json_elements (str' # strs) @ '']'' @ rest"
    by (cases strs) (simp_all add: mp_cache_http_skip_json_whitespace_def json_text_def isspace_def)
  moreover have "mp_cache_http_skip_json_whitespace ('','' @ xs) = '','' @ xs" for xs
    by (simp add: mp_cache_http_skip_json_whitespace_def isspace_def)
  ultimately show ?case
    using 3 assms(3)
    by (simp add: json_text_def [of "json_escape_text str"] json_item_loop_escaped env_simps Let_def)
qed simp

lemma find_first_field:
  assumes "length name < 126"
  shows "mp_cache_http_find_json_field (Some (''{'' @ json_text name @ rest)) name = Some (json_text name @ rest)"
proof -
  have "snprintf_s 128 (json_text name) = json_text name"
    using assms by (simp add: json_text_def snprintf_s_def)
  moreover have "take (length (json_text name)) (''{'' @ json_text name @ rest) \<noteq> json_text name"
    by (simp add: json_text_def)
  moreover have "take (length (json_text name)) (json_text name @ rest) = json_text name"
    by simp
  ultimately show ?thesis
    unfolding mp_cache_http_find_json_field_def
    by (simp add: strstr.simps [of "CHR ''{'' # json_text name @ rest"] strstr_hit)
qed

lemma extract_first_string:
  assumes "length name < 126" "CHR '':'' \<notin> set name" "list_all json_char str" "length str < capacity"
  shows "mp_cache_http_extract_json_string (Some (''{'' @ json_text name @ '':'' @ json_text (json_escape_text str) @ rest)) name
    capacity = Inr str"
proof -
  have "strchr (json_text name @ '':'' @ v) (CHR '':'') = Some (json_text name, v)" for v
    using assms(2) strchr_append [of "CHR '':''" "json_text name" v] by (simp add: json_text_def)
  then have "json_field_value (json_text name @ '':'' @ json_text (json_escape_text str) @ rest) =
      Some (QUOTE # json_escape_text str @ QUOTE # rest)"
    by (simp add: json_field_value_def json_text_def isspace_def)
  with assms show ?thesis
    unfolding mp_cache_http_extract_json_string_def
    by (simp add: find_first_field json_string_loop_escaped del: append.simps)
qed

lemma extract_first_array:
  assumes "length name < 126" "CHR '':'' \<notin> set name" "list_all (list_all json_char) strs" "strs \<noteq> []"
    and "length strs \<le> MP_CACHE_HTTP_JSON_ARRAY_LIMIT" "all_ok e"
  shows "mp_cache_http_extract_json_string_array e (Some (''{'' @ json_text name @ '':['' @ json_elements strs @ '']'' @ rest)) name =
    Inr strs"
proof -
  have "strchr (json_text name @ CHR '':'' # v) (CHR '':'') = Some (json_text name, v)" for v
    using assms(2) by (intro strchr_append) (simp add: json_text_def)
  moreover obtain c t where "json_elements strs @ '']'' @ rest = c # t" "c = QUOTE"
    using assms(4) by (cases strs rule: json_elements.cases) (auto simp: json_text_def)
  moreover from this have "mp_cache_http_skip_json_whitespace (json_elements strs @ '']'' @ rest) = json_elements strs @ '']'' @ rest"
    by (simp add: mp_cache_http_skip_json_whitespace_def isspace_def)
  moreover have "mp_cache_http_skip_json_whitespace (CHR ''['' # xs) = CHR ''['' # xs" for xs
    by (simp add: mp_cache_http_skip_json_whitespace_def isspace_def)
  ultimately show ?thesis
    using assms find_first_field [OF assms(1), of "'':['' @ json_elements strs @ '']'' @ rest"]
      json_array_loop_elements [OF assms(3,4,6), of "[]" rest 0]
    unfolding mp_cache_http_extract_json_string_array_def by simp
qed


section \<open>Requests arrive in pieces\<close>

fun received :: "recv_result list \<Rightarrow> char list" where
  "received [] = []"
| "received (Received chunk # recvs) = chunk @ received recvs"
| "received (_ # recvs) = received recvs"

text \<open>Calls that deliver bytes or are interrupted.\<close>

fun delivers :: "recv_result \<Rightarrow> bool" where
  "delivers (Received chunk) = (chunk \<noteq> [])"
| "delivers RecvIntr = True"
| "delivers RecvError = False"

lemma read_head_loop_delivers:
  assumes "list_all delivers recvs" "length buffer + length (received recvs) < capacity"
  shows "\<exists>buffer' recvs'. read_head_loop capacity recvs buffer = Inr (buffer', recvs') \<and> list_all delivers recvs' \<and>
    buffer' @ received recvs' = buffer @ received recvs \<and>
    (strstr (c_string buffer') (CRLF @ CRLF) \<noteq> None \<or> received recvs' = [])"
  using assms
proof (induction recvs arbitrary: buffer)
  case (Cons event recvs)
  show ?case
  proof (cases event)
    case (Received chunk)
    with Cons.prems have c: "chunk \<noteq> []" "length buffer + 1 < capacity" "length chunk \<le> capacity - length buffer - 1"
      by (auto simp: neq_Nil_conv)
    from Cons.IH [of "buffer @ chunk"] Cons.prems c Received show ?thesis
      by (cases "strstr (c_string (buffer @ chunk)) (CRLF @ CRLF)") (auto simp: Let_def pending_def)
  next
    case RecvIntr
    show ?thesis
    proof (cases "length buffer + 1 < capacity")
      case True
      with Cons RecvIntr show ?thesis by simp
    next
      case False
      moreover have "received recvs = []"
      proof -
        have "length buffer + length (received recvs) < capacity"
          using Cons.prems(2) RecvIntr by simp
        with False have "length (received recvs) = 0" by linarith
        then show ?thesis by simp
      qed
      ultimately show ?thesis
        using RecvIntr Cons.prems(1) by simp
    qed
  qed (use Cons.prems in auto)
qed simp

lemma read_body_loop_delivers:
  assumes "list_all delivers recvs" "length buffer + length (received recvs) < capacity"
  shows "\<exists>buffer' rest. read_body_loop capacity needed recvs buffer = Inr buffer' \<and> buffer' @ rest = buffer @ received recvs \<and>
    (needed \<le> length buffer' \<or> rest = [])"
  using assms
proof (induction recvs arbitrary: buffer)
  case (Cons event recvs)
  show ?case
  proof (cases "length buffer < needed")
    case True
    show ?thesis
    proof (cases event)
      case (Received chunk)
      with Cons.prems have c: "chunk \<noteq> []" "take (capacity - length buffer - 1) chunk = chunk" "Suc (length buffer) < capacity"
        by (auto simp: neq_Nil_conv)
      from Cons.IH [of "buffer @ chunk"] Cons.prems c Received True show ?thesis
        by (auto simp: Let_def)
    qed (use Cons True in auto)
  qed auto
qed simp

text \<open>
  However the bytes of a request arrive, reading it gives what parsing the whole text gives.
\<close>

lemma read_request_delivered:
  assumes recvs: "list_all delivers recvs" "received recvs = str" "length str < capacity"
    and parsed: "mp_cache_http_parse_request_buffer (at 1 e) str = Inr request" "ok 0 e" "NUL \<notin> set str"
    and complete: "strstr str (CRLF @ CRLF) = Some (head, found)"
      "length str = length head + 4 + unat (content_length request)"
  shows "mp_cache_http_read_request e recvs capacity = Inr request"
proof -
  from read_head_loop_delivers [OF recvs(1), of "[]" capacity] recvs(2,3) obtain buffer recvs' where
    h: "read_head_loop capacity recvs [] = Inr (buffer, recvs')" "list_all delivers recvs'" "buffer @ received recvs' = str"
      "strstr (c_string buffer) (CRLF @ CRLF) \<noteq> None \<or> received recvs' = []"
    by auto
  have cs: "c_string buffer = buffer" "c_string str = str"
    using h(3) parsed(3) by auto
  have "\<exists>found'. strstr buffer (CRLF @ CRLF) = Some (head, found')"
    using h(3,4) complete(1) strstr_append [of buffer "CRLF @ CRLF" _ _ "received recvs'"] cs(1) by fastforce
  then obtain found' where f: "strstr buffer (CRLF @ CRLF) = Some (head, found')" by blast
  from parse_request_buffer_result [OF parsed(1)] obtain head' found'' r where
    p: "strstr (c_string str) (CRLF @ CRLF) = Some (head', found'')"
      "mp_cache_http_parse_headers (take (length head' + 4) str) zero_request = Inr r"
      "request = r\<lparr>request_body := Some (c_string (take (unat (content_length r)) (drop (length head' + 4) str))),
         request_body_length := content_length r\<rparr>" .
  have "head' = head"
    using p(1) complete(1) cs(2) by simp
  with p(2,3) have r: "mp_cache_http_parse_headers (take (length head + 4) str) zero_request = Inr r"
    "content_length request = content_length r"
    by simp_all
  have "length head + 4 \<le> length buffer"
    using strstr_length [OF f] by simp
  then have r': "mp_cache_http_parse_headers (take (length head + 4) buffer) zero_request = Inr r"
    using r(1) h(3) by auto
  obtain buffer' rest where
    b: "read_body_loop capacity (length str) recvs' buffer = Inr buffer'" "buffer' @ rest = str"
      "length str \<le> length buffer' \<or> rest = []"
    using read_body_loop_delivers [OF h(2), of buffer capacity "length str"] h(3) recvs(3)
    by (metis length_append)
  then have "buffer' = str"
    by auto
  moreover have "length head + 4 + unat (content_length r) = length str" "\<not> unat (content_length r) > capacity - (length head + 4) - 1"
    using complete(2) r(2) recvs(3) by simp_all
  moreover have "capacity \<noteq> 0"
    using recvs(3) by simp
  ultimately show ?thesis
    unfolding mp_cache_http_read_request_def
    by (simp only: h(1) cs f r' b(1) parsed(1,2) Let_def prod.case sum.case option.case if_False not_True_eq_False
        less_irrefl simp_thms)
qed

lemma client_request_delivered:
  assumes words: "word_text verb" "word_text path" "length verb < MP_CACHE_HTTP_METHOD_CAPACITY"
      "length path < MP_CACHE_HTTP_PATH_CAPACITY"
    and texts: "pred_option line_text auth_token" "pred_option line_text content_type" "NUL \<notin> set body"
    and recvs: "list_all delivers recvs" "received recvs = client_request_text verb path auth_token content_type (Some body)"
      "length (received recvs) < capacity" "capacity \<le> 2 ^ 63"
    and e: "all_ok e"
  shows "mp_cache_http_read_request e recvs capacity = Inr (sent_request verb path auth_token body)"
proof -
  define str where "str = client_request_text verb path auth_token content_type (Some body)"
  define first where "first = verb @ '' '' @ path @ '' HTTP/1.1''"
  define lines where "lines = first # client_header_lines verb path auth_token content_type (length body)"
  have str: "str = crlf_lines lines @ CRLF @ body"
    by (simp only: str_def client_request_text_lines lines_def first_def)
  have ok: "list_all header_line lines" "NUL \<notin> set (crlf_lines lines)" "lines \<noteq> []"
    using lines_text_ok [OF client_lines_ok [OF words(1,2) texts(1,2)]] unfolding first_def lines_def by blast+
  from strstr_lines [OF ok(1,3), of body] obtain head where
    h: "crlf_lines lines = head @ CRLF" "strstr str (CRLF @ CRLF) = Some (head, CRLF @ CRLF @ body)"
    unfolding str by blast
  have len: "length str < 2 ^ 63"
    using recvs(2-4) by (simp add: str_def)
  have "length body \<le> length str"
    by (simp add: str)
  with len have l64: "length body < 2 ^ 64"
    by simp
  have cl: "content_length (sent_request verb path auth_token body) = of_nat (length body)"
    by (simp add: sent_request_def split: prod.splits)
  have "length str = length head + 4 + length body"
    by (simp add: str h(1))
  moreover have "unat (of_nat (length body) :: u64) = length body"
    using l64 by (simp add: unat_of_nat)
  moreover have "NUL \<notin> set str"
    using ok(2) texts(3) by (simp add: str)
  ultimately show ?thesis
    using parse_client_request [OF words texts, of "at 1 e"] len recvs e h(2)
    by (intro read_request_delivered [where str = str and head = head and found = "CRLF @ CRLF @ body"])
      (simp_all add: env_simps str_def [symmetric] cl)
qed


section \<open>Percent-decoding\<close>

lemma percent_decode_loop_length:
  "percent_decode_loop encoded capacity decoded = Inr out \<Longrightarrow> length decoded < capacity \<Longrightarrow> length out < capacity"
  by (induction encoded capacity decoded rule: percent_decode_loop.induct) (auto simp: Let_def split: if_splits)

lemma percent_decode_plain:
  assumes "CHR ''%'' \<notin> set str" "length decoded + length str < capacity"
  shows "percent_decode_loop str capacity decoded = Inr (decoded @ str)"
  using assms by (induction str arbitrary: decoded) auto


section \<open>A later field of an object\<close>

lemma json_text_not_prefix:
  assumes "QUOTE \<notin> set v" "QUOTE \<notin> set w" "v \<noteq> w"
  shows "take (length (json_text w)) (json_text v @ rest) \<noteq> json_text w"
proof
  assume "take (length (json_text w)) (json_text v @ rest) = json_text w"
  then obtain zs where "json_text v @ rest = json_text w @ zs"
    by (metis append_take_drop_id)
  then have "v @ QUOTE # rest = w @ QUOTE # zs"
    by (simp add: json_text_def)
  then have "takeWhile (\<lambda>c. c \<noteq> QUOTE) (v @ QUOTE # rest) = takeWhile (\<lambda>c. c \<noteq> QUOTE) (w @ QUOTE # zs)"
    by simp
  with assms show False
    by (auto simp: takeWhile_append split: if_splits)
qed

text \<open>The search for a label passes over another string and the separator after it.\<close>

lemma strstr_skip_string:
  assumes "QUOTE \<notin> set v" "QUOTE \<notin> set (d # w)" "v \<noteq> d # w" "c \<noteq> d" "c \<noteq> QUOTE"
  shows "strstr (json_text v @ c # rest) (json_text (d # w)) =
    map_option (\<lambda>(before, found). (json_text v @ c # before, found)) (strstr rest (json_text (d # w)))"
proof -
  define needle where "needle = json_text (d # w)"
  have needle: "needle = QUOTE # d # w @ [QUOTE]"
    by (simp add: needle_def json_text_def)
  have 1: "strstr (c # rest) needle = map_option (\<lambda>(before, found). (c # before, found)) (strstr rest needle)"
    using assms(5) by (subst strstr.simps) (auto simp: needle split: option.splits)
  have 2: "strstr (QUOTE # c # rest) needle = map_option (\<lambda>(before, found). (QUOTE # c # before, found)) (strstr rest needle)"
    using assms(4) by (subst strstr.simps) (auto simp: needle 1 [unfolded needle] split: option.splits)
  have 3: "strstr (v @ QUOTE # c # rest) needle =
      map_option (\<lambda>(before, found). (v @ QUOTE # c # before, found)) (strstr rest needle)"
    using strstr_skip [of needle QUOTE _ v "QUOTE # c # rest"] assms(1) 2
    by (cases "strstr rest needle") (auto simp: needle)
  have "take (length needle) (QUOTE # v @ QUOTE # c # rest) \<noteq> needle"
    using json_text_not_prefix [OF assms(1-3), of "c # rest"] by (simp add: needle_def json_text_def)
  then have "strstr (QUOTE # v @ QUOTE # c # rest) needle =
      map_option (\<lambda>(before, found). (QUOTE # v @ QUOTE # c # before, found)) (strstr rest needle)"
    by (subst strstr.simps) (auto simp: 3 split: option.splits)
  then show ?thesis
    by (simp add: needle_def json_text_def)
qed

lemma find_second_field:
  assumes "QUOTE \<notin> set (n1 @ v @ d # n2)" "n1 \<noteq> d # n2" "v \<noteq> d # n2" "d \<noteq> CHR '':''" "d \<noteq> CHR '',''" "length n2 < 125"
  shows "mp_cache_http_find_json_field (Some (json_object [(n1, json_text v), (d # n2, v2)])) (d # n2) =
    Some (json_text (d # n2) @ '':'' @ v2 @ ''}'')"
proof -
  have "snprintf_s 128 (json_text (d # n2)) = json_text (d # n2)"
    using assms(6) by (simp add: json_text_def snprintf_s_def)
  moreover have "json_object [(n1, json_text v), (d # n2, v2)] =
      CHR ''{'' # json_text n1 @ CHR '':'' # json_text v @ CHR '','' # json_text (d # n2) @ '':'' @ v2 @ ''}''"
    by (simp add: json_object_def)
  moreover have "strstr (CHR ''{'' # rest) (json_text (d # n2)) =
      map_option (\<lambda>(before, found). (CHR ''{'' # before, found)) (strstr rest (json_text (d # n2)))" for rest
    by (subst strstr.simps) (auto simp: json_text_def split: option.splits)
  moreover have "strstr (json_text (d # n2) @ '':'' @ v2 @ ''}'') (json_text (d # n2)) =
      Some ([], json_text (d # n2) @ '':'' @ v2 @ ''}'')"
    by (rule strstr_hit) simp
  ultimately show ?thesis
    using assms unfolding mp_cache_http_find_json_field_def
    by (simp add: strstr_skip_string option.map_comp)
qed

lemma extract_second_u32:
  assumes "QUOTE \<notin> set (n1 @ v @ d # n2)" "n1 \<noteq> d # n2" "v \<noteq> d # n2" "d \<noteq> CHR '':''" "d \<noteq> CHR '',''" "length n2 < 125"
    and "CHR '':'' \<notin> set n2"
  shows "mp_cache_http_extract_json_u32 (Some (json_object [(n1, json_text v), (d # n2, print_nat (unat (ttl :: u32)))])) (d # n2) =
    Inr ttl"
proof -
  have "strchr (json_text (d # n2) @ '':'' @ rest) (CHR '':'') = Some (json_text (d # n2), rest)" for rest
    using assms(4,7) strchr_append [of "CHR '':''" "json_text (d # n2)" rest] by (simp add: json_text_def)
  moreover obtain c ds where p: "print_nat (unat ttl) = c # ds" "isdigit c"
    using print_nat_digits [of _ "unat ttl"] by (cases "print_nat (unat ttl)") auto
  ultimately have v: "json_field_value (json_text (d # n2) @ '':'' @ print_nat (unat ttl) @ ''}'') = Some (print_nat (unat ttl) @ ''}'')"
    by (simp add: json_field_value_def isdigit_not_isspace)
  have lt: "unat ttl < 2 ^ 32"
    using unsigned_less [where 'a = nat, of ttl] by simp
  have "strtoul (print_nat (unat ttl) @ ''}'') = (of_nat (unat ttl), False, ''}'')"
    using lt by (intro strtoul_print_nat) (simp_all add: isdigit_def)
  moreover have "(of_nat (unat ttl) :: u64) \<le> UINT32_MAX" "ucast (of_nat (unat ttl) :: u64) = ttl"
    using lt by (simp_all add: UINT32_MAX_def word_le_nat_alt unsigned_ucast_eq take_bit_word_eq_self take_bit_nat_eq_self word_eq_iff_unsigned)
  ultimately show ?thesis
    using v unfolding mp_cache_http_extract_json_u32_def find_second_field [OF assms(1-6)]
    by (simp add: p not_less)
qed


section \<open>Properties\<close>





end
