(* ===== verification/Http_Data.thy ===== *)
theory Http_Data
  imports Http_Guard Http_Wire
begin

text \<open>
  What requests do to the data, on top of the relation of \<open>Http_Guard\<close>: they change the table and the
  registry only through the operations of the two components, and a request that is answered without
  an error is on disk before the answer. The first part gives the invariants of the components for
  every run of the server, the second part the durability of acknowledged writes.
\<close>


section \<open>Only the operations of the store and of the registry change them\<close>

abbreviation store_steps :: "mp_cache_store \<Rightarrow> mp_cache_store \<Rightarrow> bool" where
  "store_steps \<equiv> store_step\<^sup>*\<^sup>*"

abbreviation security_steps :: "mp_cache_security \<Rightarrow> mp_cache_security \<Rightarrow> bool" where
  "security_steps \<equiv> security_step\<^sup>*\<^sup>*"

lemma store_step_first: "store_step store store1 \<Longrightarrow> store_steps store1 store' \<Longrightarrow> store_steps store store'"
  by (rule converse_rtranclp_into_rtranclp)

lemma security_step_first: "security_step security security1 \<Longrightarrow> security_steps security1 security' \<Longrightarrow> security_steps security security'"
  by (rule converse_rtranclp_into_rtranclp)

lemma consume_client_hash:
  "consume_client version payload offset = Some ((cid, role, active, hash), offset') \<Longrightarrow> length hash = MP_CACHE_TOKEN_HASH_SIZE"
  by (auto simp: consume_client_def mp_cache_consume_bytes_def split: if_splits bind_splits)

lemma deserialize_entries_steps: "store_steps store (snd (deserialize_entries e payload now n offset store))"
proof (induction n arbitrary: offset store)
  case (Suc n)
  show ?case
  proof (cases "consume_entry payload offset")
    case (Some consumed)
    obtain key v t offset' where c: "consumed = ((key, v, t), offset')" by (metis surj_pair)
    obtain st store1 where r: "mp_cache_store_restore_entry (at n e) store (Some key) (Some v) t = (st, store1)" by fastforce
    from Suc [of store offset'] Suc [of store1 offset'] step_restore [OF r] Some c r show ?thesis
      by (cases st) (auto intro: store_step_first)
  qed simp
qed simp

lemma deserialize_clients_steps: "security_steps security (snd (deserialize_clients e version payload n offset security))"
proof (induction n arbitrary: offset security)
  case (Suc n)
  show ?case
  proof (cases "consume_client version payload offset")
    case (Some consumed)
    obtain cid role active hash offset' where c: "consumed = ((cid, role, active, hash), offset')" by (metis surj_pair)
    obtain st security1 where
      r: "mp_cache_security_import_client_hash (at n e) security (Some cid) role (Some hash) active = (st, security1)" by fastforce
    have "security_step security security1"
      using step_import [OF r] consume_client_hash Some c by blast
    with Suc [of security1 offset'] Some c r show ?thesis
      by (cases st) (auto intro: security_step_first)
  qed simp
qed simp

lemma deserialize_entries_steps':
  "deserialize_entries e payload now n offset store = (result, store') \<Longrightarrow> store_steps store store'"
  using deserialize_entries_steps by (metis snd_conv)

lemma deserialize_clients_steps':
  "deserialize_clients e version payload n offset security = (result, security') \<Longrightarrow> security_steps security security'"
  using deserialize_clients_steps by (metis snd_conv)

lemma deserialize_state_steps:
  assumes "mp_cache_storage_deserialize_state e payload store security now = (result, store', security')"
  shows "store_steps store store'" "security_steps security security'"
  using assms by (auto simp: mp_cache_storage_deserialize_state_def split: option.splits prod.splits
      dest: deserialize_entries_steps' deserialize_clients_steps')

lemma apply_journal_payload_steps:
  assumes "mp_cache_storage_apply_journal_payload e payload store security now = (result, store', security')"
  shows "store_steps store store'" "security_steps security security'"
proof -
  have delete: "store_step store (snd (mp_cache_store_delete store key))" for key
    using step_delete by (metis surjective_pairing)
  have client: "security_step security security1"
    if "consume_client version payload offset = Some ((cid, role, active, hash), final)"
      "mp_cache_security_import_client_hash e1 security (Some cid) role (Some hash) active = (st, security1)"
    for version offset cid role active hash final e1 st security1
    using step_import [OF that(2)] consume_client_hash [OF that(1)] by blast
  have "store_steps store store' \<and> security_steps security security'"
    using assms unfolding mp_cache_storage_apply_journal_payload_def
    by (auto intro!: r_into_rtranclp delete step_clear split: option.splits prod.splits if_splits
        mp_cache_store_status.splits mp_cache_security_status.splits dest: step_restore client)
  then show "store_steps store store'" "security_steps security security'" by blast+
qed

lemma replay_journal_steps:
  "replay_journal e n storage stream now store security = (result, store', security') \<Longrightarrow>
     store_steps store store' \<and> security_steps security security'"
proof (induction e n storage stream now store security rule: replay_journal.induct)
  case (1 e n storage stream now store security)
  obtain packet rest where p: "mp_cache_storage_read_packet_stream (at 0 (at n e)) storage stream MP_CACHE_STORAGE_JOURNAL_MAGIC =
    (packet, rest)" by fastforce
  note call = 1(2) [unfolded replay_journal.simps [of e n] p]
  show ?case
  proof (cases packet)
    case (Packet payload digest)
    obtain r store1 security1 where a: "mp_cache_storage_apply_journal_payload (at 1 (at n e)) payload store security now =
      (r, store1, security1)" by (metis surj_pair)
    note steps = apply_journal_payload_steps [OF a]
    show ?thesis
    proof (cases r)
      case True
      then have t: "r = True" by simp
      from 1(1) [OF p [symmetric] Packet a [symmetric] t refl] call Packet a True steps show ?thesis
        by (auto intro: rtranclp_trans)
    qed (use call Packet a steps in auto)
  qed (use call in auto)
qed

lemma load_state_steps:
  assumes "mp_cache_storage_load_state e storage fs store security now = (result, store', security')"
  shows "store_steps store store'" "security_steps security security'"
proof -
  have clear: "store_step store (mp_cache_store_clear store)" "security_step security (mp_cache_security_clear_clients security)"
    by (rule step_clear step_clear_clients)+
  have "store_steps (mp_cache_store_clear store) store' \<and> security_steps (mp_cache_security_clear_clients security) security'"
    using assms unfolding mp_cache_storage_load_state_def Let_def
    by (auto split: packet_read.splits sum.splits prod.splits bool.splits
        dest: replay_journal_steps deserialize_state_steps intro: rtranclp_trans)
  with clear show "store_steps store store'" "security_steps security security'"
    by (auto intro: store_step_first security_step_first)
qed

lemma import_state_steps:
  assumes "mp_cache_storage_import_state e storage fs path store security now = (result, fs', store', security')"
  shows "store_steps store store'" "security_steps security security'"
proof -
  have clear: "store_step store (mp_cache_store_clear store)" "security_step security (mp_cache_security_clear_clients security)"
    by (rule step_clear step_clear_clients)+
  have "store' = store \<and> security' = security \<or>
    store_steps (mp_cache_store_clear store) store' \<and> security_steps (mp_cache_security_clear_clients security) security'"
    using assms unfolding mp_cache_storage_import_state_def
    by (auto split: option.splits sum.splits packet_read.splits prod.splits bool.splits dest: deserialize_state_steps)
  with clear show "store_steps store store'" "security_steps security security'"
    by (auto intro: store_step_first security_step_first)
qed

lemma purge_selected_steps:
  "purge_selected_loop e storage ks store fs purged missing needs = (result, store', fs', rest) \<Longrightarrow> store_steps store store'"
proof (induction ks arbitrary: store fs purged missing needs)
  case (Cons key ks)
  obtain st store1 where d: "mp_cache_store_delete store (Some (bytes_of key)) = (st, store1)" by fastforce
  note IH = Cons.IH [of store1, THEN store_step_first [OF step_delete [OF d]]]
  from Cons.prems d step_delete [OF d] show ?case
    by (auto split: if_splits prod.splits intro: IH)
qed simp

lemma register_handler_steps:
  assumes "mp_cache_http_handle_register_client e server fs request now = (response, server', fs')"
  shows "server_store server' = server_store server \<and> security_steps (server_security server) (server_security server') \<and>
    server_storage server' = server_storage server \<and> server_config server' = server_config server"
  using assms unfolding mp_cache_http_handle_register_client_def Let_def
  by (auto split: sum.splits if_splits prod.splits bool.splits dest: step_register)

lemma rotate_handler_steps:
  assumes "mp_cache_http_handle_rotate_client e server fs cid now = (response, server', fs')"
  shows "server_store server' = server_store server \<and> security_steps (server_security server) (server_security server') \<and>
    server_storage server' = server_storage server \<and> server_config server' = server_config server"
  using assms unfolding mp_cache_http_handle_rotate_client_def Let_def
  by (auto split: if_splits prod.splits bool.splits dest: step_rotate)

lemma invalidate_handler_steps:
  assumes "mp_cache_http_handle_invalidate_client e server fs cid now = (response, server', fs')"
  shows "server_store server' = server_store server \<and> security_steps (server_security server) (server_security server') \<and>
    server_storage server' = server_storage server \<and> server_config server' = server_config server"
  using assms unfolding mp_cache_http_handle_invalidate_client_def Let_def
  by (auto split: if_splits prod.splits bool.splits dest: step_invalidate)

lemma import_handler_steps:
  assumes "mp_cache_http_handle_import e server fs request now = (response, server', fs')"
  shows "store_steps (server_store server) (server_store server') \<and>
    security_steps (server_security server) (server_security server') \<and>
    server_storage server' = server_storage server \<and> server_config server' = server_config server"
  using assms unfolding mp_cache_http_handle_import_def Let_def
  by (auto split: sum.splits if_splits prod.splits dest: import_state_steps)

lemma purge_selected_handler_steps:
  assumes "mp_cache_http_handle_purge_selected e server fs request now = (response, server', fs')"
  shows "store_steps (server_store server) (server_store server') \<and>
    server_security server' = server_security server \<and>
    server_storage server' = server_storage server \<and> server_config server' = server_config server"
  using assms unfolding mp_cache_http_handle_purge_selected_def Let_def
  by (auto split: sum.splits if_splits prod.splits bool.splits dest: purge_selected_steps)

definition data_steps :: "mp_cache_http_server \<Rightarrow> mp_cache_http_server \<Rightarrow> bool" where
  "data_steps server server' \<longleftrightarrow> store_steps (server_store server) (server_store server') \<and>
     security_steps (server_security server) (server_security server') \<and>
     server_storage server' = server_storage server \<and> server_config server' = server_config server"

lemma routed_steps:
  assumes "routed server fs request now response server' fs'"
  shows "data_steps server server'"
  using assms
proof cases
  case (routed_get server1 key e)
  have "store_step (server_store server1) (snd (snd (mp_cache_store_get_copy (at 0 e) (server_store server1) (Some (bytes_of key)) now)))"
    using step_get by (metis surjective_pairing)
  with routed_get handle_get_effect [OF routed_get(6)] show ?thesis
    by (auto simp: same_data_def data_steps_def)
next
  case (routed_put server1 key e)
  with handle_put_effect [OF routed_put(5)] show ?thesis
    by (auto simp: same_data_def data_steps_def dest: step_set)
next
  case (routed_delete server1 key e)
  with handle_delete_effect [OF routed_delete(5)] show ?thesis
    by (auto simp: same_data_def data_steps_def dest: step_delete)
next
  case (routed_register server1 e)
  with register_handler_steps [OF routed_register(3)] show ?thesis
    by (simp add: same_data_def data_steps_def)
next
  case (routed_rotate server1 e cid)
  with rotate_handler_steps [OF routed_rotate(3)] show ?thesis
    by (simp add: same_data_def data_steps_def)
next
  case (routed_invalidate server1 e cid)
  with invalidate_handler_steps [OF routed_invalidate(3)] show ?thesis
    by (simp add: same_data_def data_steps_def)
next
  case (routed_export server1 e)
  then show ?thesis
    by (auto simp: mp_cache_http_handle_export_def same_data_def data_steps_def split: prod.splits option.splits)
next
  case (routed_import server1 e)
  with import_handler_steps [OF routed_import(4)] show ?thesis
    by (simp add: same_data_def data_steps_def)
next
  case (routed_purge_all server1 e)
  then show ?thesis
    by (auto simp: mp_cache_http_handle_purge_all_def Let_def same_data_def data_steps_def step_clear split: prod.splits bool.splits)
next
  case (routed_purge_selected server1 e)
  with purge_selected_handler_steps [OF routed_purge_selected(3)] show ?thesis
    by (simp add: same_data_def data_steps_def)
qed (simp_all add: same_data_def data_steps_def)

lemma data_steps_trans: "data_steps server server1 \<Longrightarrow> data_steps server1 server2 \<Longrightarrow> data_steps server server2"
  by (auto simp: data_steps_def)

lemma swept_steps: "data_steps server (swept server now)"
proof -
  have "store_step (server_store server) (snd (mp_cache_store_purge_expired (server_store server) now))"
    using step_purge by (metis surjective_pairing)
  then show ?thesis
    by (auto simp: mp_cache_http_maybe_sweep_def data_steps_def)
qed

lemma route_request_steps:
  "mp_cache_http_route_request e server fs request = (response, server', fs') \<Longrightarrow> data_steps server server'"
  using route_request_routed routed_steps swept_steps data_steps_trans by blast

lemma handle_client_steps:
  "mp_cache_http_handle_client e recvs sends server fs = (reply, server', fs') \<Longrightarrow> data_steps server server'"
  by (auto simp: mp_cache_http_handle_client_def data_steps_def split: sum.splits prod.splits
      dest!: route_request_steps [unfolded data_steps_def])

lemma serve_loop_steps: "serve_loop e n server fs events = (result, server', fs', replies) \<Longrightarrow> data_steps server server'"
proof (induction events arbitrary: n server fs replies)
  case (Cons event events)
  show ?case
  proof (cases event)
    case (Accepted recvs sends)
    obtain reply server1 fs1 where h: "mp_cache_http_handle_client (at n e) recvs sends server fs = (reply, server1, fs1)"
      by (metis surj_pair)
    from Cons.prems Accepted h Cons.IH handle_client_steps [OF h] show ?thesis
      by (auto split: prod.splits intro: data_steps_trans)
  qed (use Cons.prems Cons.IH in \<open>auto simp: data_steps_def\<close>)
qed (simp add: data_steps_def)


section \<open>What the files know of the server's state\<close>

text \<open>What a record stands for when it is written: the operation just performed.\<close>

fun performed :: "journal_record \<Rightarrow> kv_op list" where
  "performed (JSet key v t) = [Put key v t]"
| "performed (JDelete key) = [Del key]"
| "performed (JClient r) = []"
| "performed JPurge = [Clear]"

text \<open>
  The files hold a checkpoint of a table and a registry taken at \<open>since\<close> and the given records, and the
  server's state is that checkpoint with the recorded operations applied, up to entries that have
  expired by \<open>now\<close>.
\<close>

definition logged ::
  "mp_cache_http_server \<Rightarrow> filesystem \<Rightarrow> int \<Rightarrow> mp_cache_store \<Rightarrow> mp_cache_security \<Rightarrow> int \<Rightarrow> journal_record list \<Rightarrow> bool" where
  "logged server fs now base registry since records \<longleftrightarrow>
     persisted (server_storage server) base registry since records fs \<and> since \<le> now \<and>
     (\<forall>t \<ge> now. live_map t (store_abs (server_store server)) =
        live_map t (foldl kv_effect (store_abs base) (concat (map performed records)))) \<and>
     clients_abs (server_security server) = foldl record_clients (clients_abs registry) records"

lemma live_map_effect:
  "live_map t m = live_map t m' \<Longrightarrow> live_map t (kv_effect m op) = live_map t (kv_effect m' op)"
  by (cases op) (auto simp: live_map_def fun_eq_iff)

lemma live_map_effects:
  "live_map t m = live_map t m' \<Longrightarrow> live_map t (foldl kv_effect m ops) = live_map t (foldl kv_effect m' ops)"
proof (induction ops arbitrary: m m')
  case (Cons op ops)
  from Cons.IH [OF live_map_effect [OF Cons.prems]] show ?case by simp
qed simp

lemma live_map_later: "now \<le> t \<Longrightarrow> live_map t (live_map now m) = live_map t m"
  by (auto simp: live_map_def fun_eq_iff split: option.splits)

text \<open>The three ways a request leaves the log: untouched, with a record more, replaced by a checkpoint.\<close>

lemma logged_same:
  assumes "logged server fs now base registry since records" "now \<le> now'"
    and "server_storage server' = server_storage server"
      "clients_abs (server_security server') = clients_abs (server_security server)"
    and "\<forall>t \<ge> now'. live_map t (store_abs (server_store server')) = live_map t (store_abs (server_store server))"
  shows "logged server' fs now' base registry since records"
  using assms by (simp add: logged_def)

lemma logged_append:
  assumes log: "logged server fs now base registry since records" and "record_encodable r" "now \<le> now'"
    and "append_record e (server_storage server) fs r = (True, fs')" "server_storage server' = server_storage server"
    and eff: "\<forall>t \<ge> now'. live_map t (store_abs (server_store server')) =
      live_map t (foldl kv_effect (store_abs (server_store server)) (performed r))"
    and "clients_abs (server_security server') = record_clients (clients_abs (server_security server)) r"
  shows "logged server' fs' now' base registry since (records @ [r])"
proof -
  have "live_map t (store_abs (server_store server')) =
      live_map t (foldl kv_effect (store_abs base) (concat (map performed (records @ [r]))))" if t: "t \<ge> now'" for t
  proof -
    have "live_map t (store_abs (server_store server)) = live_map t (foldl kv_effect (store_abs base) (concat (map performed records)))"
      using log assms(3) t by (simp add: logged_def)
    from live_map_effects [OF this, of "performed r"] eff t show ?thesis by simp
  qed
  with assms persisted_append [of "server_storage server" base registry since records fs r e fs'] show ?thesis
    by (simp add: logged_def)
qed

lemma logged_checkpoint:
  assumes "mp_cache_storage_checkpoint e (server_storage server) fs (server_store server) (server_security server) now = (True, fs')"
  shows "logged server fs' now (server_store server) (server_security server) now []"
  using persisted_checkpoint [OF assms] by (simp add: logged_def)

text \<open>What a request that answers without an error does to the log.\<close>

definition log_grown ::
  "mp_cache_http_server \<Rightarrow> filesystem \<Rightarrow> int \<Rightarrow> mp_cache_store \<Rightarrow> mp_cache_security \<Rightarrow> int \<Rightarrow> journal_record list \<Rightarrow> bool" where
  "log_grown server fs now base registry since records \<longleftrightarrow>
     (\<exists>new. logged server fs now base registry since (records @ new)) \<or>
     logged server fs now (server_store server) (server_security server) now []"

lemma log_grown_same: "logged server fs now base registry since records \<Longrightarrow> log_grown server fs now base registry since records"
  unfolding log_grown_def by (metis append_Nil2)

lemma logged_data:
  "same_data server server' \<Longrightarrow> logged server' fs now base registry since records = logged server fs now base registry since records"
  by (simp add: logged_def same_data_def)

lemma log_grown_data:
  "same_data server server' \<Longrightarrow> log_grown server' fs now base registry since records = log_grown server fs now base registry since records"
  by (simp add: log_grown_def logged_data) (simp add: same_data_def)

lemma log_grown_kept:
  assumes "logged server fs now base registry since records" "now \<le> now'" "same_data server server'"
  shows "log_grown server' fs now' base registry since records"
  using log_grown_same [OF logged_same [OF assms(1,2), of server]] assms(3) by (simp add: log_grown_data)

lemma log_grown_persist:
  assumes "logged server fs now base registry since records" "record_encodable r" "now \<le> now'"
    and p: "persist e2 server' now' (append_record e (server_storage server) fs r) = (True, fs')"
    and "server_storage server' = server_storage server"
    and "\<forall>t \<ge> now'. live_map t (store_abs (server_store server')) =
      live_map t (foldl kv_effect (store_abs (server_store server)) (performed r))"
    and "clients_abs (server_security server') = record_clients (clients_abs (server_security server)) r"
  shows "log_grown server' fs' now' base registry since records"
proof -
  obtain ok1 fs1 where a: "append_record e (server_storage server) fs r = (ok1, fs1)" by fastforce
  show ?thesis
  proof (cases ok1)
    case True
    with p a have "fs1 = fs'" by (simp add: persist_def)
    with logged_append [OF assms(1-3) _ assms(5-7), of e fs'] a True show ?thesis
      by (auto simp: log_grown_def)
  next
    case False
    with p a have "mp_cache_storage_checkpoint e2 (server_storage server') fs1 (server_store server') (server_security server') now' = (True, fs')"
      by (simp add: persist_def mp_cache_http_resilient_checkpoint_def)
    from logged_checkpoint [OF this] show ?thesis by (simp add: log_grown_def)
  qed
qed

text \<open>Sizes: what is in the table can be written to the journal.\<close>

definition journal_limits :: "mp_cache_store \<Rightarrow> bool" where
  "journal_limits store \<longleftrightarrow> unat (store_max_key_bytes store) + unat (store_max_value_bytes store) < 2 ^ 31"

lemma store_abs_lengths:
  assumes "store_inv store" "store_abs store key = Some (v, t)" "journal_limits store"
  shows "length key + length v < 2 ^ 31"
proof -
  obtain en where en: "store_lookup store key = Some en" "entry_value en = v"
    using assms(2) by (auto simp: store_abs_Some)
  then have "en \<in> set (buckets store ! bucket_index store key)" "entry_key en = key"
    by (auto simp: store_lookup_chain dest!: map_of_SomeD)
  moreover have "bucket_index store key < store_bucket_count store"
    using bucket_index_less [OF assms(1)] assms(1) by (simp add: store_inv_def)
  ultimately have "entry_ok store en"
    using assms(1) by (auto simp: store_inv_def)
  with en \<open>entry_key en = key\<close> assms(3) show ?thesis
    by (auto simp: entry_ok_def journal_limits_def)
qed

lemma set_ok:
  assumes "store_inv store" "mp_cache_store_set e store (Some key) (Some v) ttl now = (MP_CACHE_STORE_STATUS_OK, store')"
  shows "store_inv store' \<and> store_abs store' = (store_abs store)(key \<mapsto> (v, now + uint ttl)) \<and> same_limits store store'"
  using assms write_entry_ok [OF assms(1)] write_limits by (auto simp: mp_cache_store_set_def split: if_splits)

lemma set_failed:
  "mp_cache_store_set e store key v ttl now = (st, store') \<Longrightarrow> st \<noteq> MP_CACHE_STORE_STATUS_OK \<Longrightarrow> store' = store"
  by (auto simp: mp_cache_store_set_def split: if_splits dest: write_entry_failed)

lemma get_live:
  assumes "store_inv store" "mp_cache_store_get_copy e store (Some key) now = (st, copied, store')" "now \<le> t"
  shows "live_map t (store_abs store') = live_map t (store_abs store)"
proof (cases "store_lookup store key")
  case (Some en)
  have k: "store_abs store key = Some (entry_value en, entry_expires_at en)"
    using Some by (simp add: store_abs_def)
  from assms(2,3) Some removed_store_facts(2) [OF assms(1) Some] k show ?thesis
    by (auto simp: store_get_result live_map_def fun_eq_iff split: if_splits)
qed (use assms in \<open>simp add: store_get_result\<close>)

lemma purge_live:
  assumes "store_inv store" "now \<le> t"
  shows "live_map t (store_abs (snd (mp_cache_store_purge_expired store now))) = live_map t (store_abs store)"
proof -
  obtain removed store' where p: "mp_cache_store_purge_expired store now = (removed, store')" by fastforce
  show ?thesis
    using purge_expired_facts(2) [OF assms(1) p] assms(2) p
    by (auto simp: live_map_def fun_eq_iff split: option.splits)
qed

text \<open>The three operations on clients replace one record, which the handlers then find.\<close>

lemma find_client_abs: "mp_cache_security_find_client security (Some cid) = clients_abs security cid"
proof -
  have m: "map_of (map (\<lambda>r. (client_id r, r)) rs) cid = find (\<lambda>r. client_id r = cid) rs" for rs
    by (induction rs) auto
  show ?thesis
    using m [of "client_records security"]
    by (simp add: mp_cache_security_find_client_def mp_cache_security_find_record_def clients_abs_def find_takeWhile Let_def)
qed

lemma clients_abs_ok: "security_inv security \<Longrightarrow> clients_abs security cid = Some r \<Longrightarrow> client_ok r \<and> client_id r = cid"
  by (auto simp: clients_abs_def security_inv_def list_all_iff dest!: map_of_SomeD)

lemma update_client_abs:
  assumes "security_inv security" "mp_cache_security_find_record security (Some cid) = Some index" "client_id r = cid"
  shows "clients_abs (security\<lparr>client_records := (client_records security)[index := r]\<rparr>) = (clients_abs security)(cid \<mapsto> r)"
  using map_of_list_update [of client_id "client_records security" index r] find_record_Some [OF assms(2)] assms
  by (simp add: clients_abs_def security_inv_def)

lemma register_abs:
  assumes "security_inv security" "mp_cache_security_register_client e security (Some cid) role out = (MP_CACHE_SECURITY_STATUS_OK, tok, security')"
  shows "\<exists>r. clients_abs security' = (clients_abs security)(cid \<mapsto> r)"
proof -
  from register_result [OF assms(2)] obtain r where r: "client_records security' = client_records security @ [r]" "client_id r = cid"
    "cid \<notin> client_id ` set (client_records security)"
    by auto
  then have "map_of (map (\<lambda>r. (client_id r, r)) (client_records security)) cid = None"
    by (auto simp: map_of_eq_None_iff)
  with r have "clients_abs security' = (clients_abs security)(cid \<mapsto> r)"
    by (auto simp: clients_abs_def map_add_def fun_eq_iff split: option.splits)
  then show ?thesis by blast
qed

lemma register_failed:
  "mp_cache_security_register_client e security (Some cid) role out = (status, tok, security') \<Longrightarrow>
     status \<noteq> MP_CACHE_SECURITY_STATUS_OK \<Longrightarrow> clients_abs security' = clients_abs security"
  using register_result [of e security cid role out status tok security'] ensure_capacity_records by (auto simp: clients_abs_def)

lemma rotate_abs:
  assumes "security_inv security"
    and "mp_cache_security_rotate_client_token e security (Some cid) out = (MP_CACHE_SECURITY_STATUS_OK, tok, security')"
  shows "\<exists>r. clients_abs security' = (clients_abs security)(cid \<mapsto> r)"
proof -
  from rotate_result [OF assms(2)] obtain index r where i: "mp_cache_security_find_record security (Some cid) = Some index"
    "security' = security\<lparr>client_records := (client_records security)[index := r]\<rparr>" "client_id r = client_id (client_records security ! index)"
    by auto
  with update_client_abs [OF assms(1) i(1), of r] find_record_Some(2) [OF i(1)] show ?thesis by auto
qed

lemma invalidate_abs:
  assumes "security_inv security"
    and "mp_cache_security_invalidate_client_token security (Some cid) = (MP_CACHE_SECURITY_STATUS_OK, security')"
  shows "\<exists>r. clients_abs security' = (clients_abs security)(cid \<mapsto> r)"
proof -
  from assms(2) obtain index r where i: "mp_cache_security_find_record security (Some cid) = Some index"
    "security' = security\<lparr>client_records := (client_records security)[index := r]\<rparr>" "client_id r = client_id (client_records security ! index)"
    by (auto simp: mp_cache_security_invalidate_client_token_def split: if_splits option.splits)
  with update_client_abs [OF assms(1) i(1), of r] find_record_Some(2) [OF i(1)] show ?thesis by auto
qed

lemma invalidate_failed:
  "mp_cache_security_invalidate_client_token security cid = (status, security') \<Longrightarrow>
     status \<noteq> MP_CACHE_SECURITY_STATUS_OK \<Longrightarrow> security' = security"
  by (auto simp: mp_cache_security_invalidate_client_token_def split: if_splits option.splits)

text \<open>
  The contract the three handlers rely on: the operation keeps the registry well formed; when it succeeds
  it has replaced one record, and when it does not the records are as before. Persisting the record
  that is found afterwards then brings the log up to date.
\<close>

locale client_operation =
  fixes operation :: "env \<Rightarrow> mp_cache_security \<Rightarrow> string \<Rightarrow> mp_cache_security_status \<times> string option \<times> mp_cache_security"
  assumes operation_inv: "security_inv security \<Longrightarrow> operation e security cid = (status, tok, security') \<Longrightarrow> security_inv security'"
    and operation_ok: "security_inv security \<Longrightarrow> operation e security cid = (MP_CACHE_SECURITY_STATUS_OK, tok, security') \<Longrightarrow>
      \<exists>r. clients_abs security' = (clients_abs security)(cid \<mapsto> r)"
    and operation_failed: "operation e security cid = (status, tok, security') \<Longrightarrow> status \<noteq> MP_CACHE_SECURITY_STATUS_OK \<Longrightarrow>
      clients_abs security' = clients_abs security"
begin

lemma operation_log:
  assumes oper: "operation e (server_security server) cid = (status, tok, security')"
    and log: "logged server fs now base registry since records" "now \<le> now'"
    and inv: "security_inv (server_security server)"
    and saved: "if status = MP_CACHE_SECURITY_STATUS_OK
      then persist_client es (server\<lparr>server_security := security'\<rparr>) fs cid now' = (True, fs') else fs' = fs"
    and same: "same_data (server\<lparr>server_security := security'\<rparr>) server'"
  shows "log_grown server' fs' now' base registry since records"
proof -
  have "log_grown (server\<lparr>server_security := security'\<rparr>) fs' now' base registry since records"
  proof (cases "status = MP_CACHE_SECURITY_STATUS_OK")
    case True
    with operation_ok [OF inv] oper obtain r where r: "clients_abs security' = (clients_abs (server_security server))(cid \<mapsto> r)" by blast
    then have ok: "client_ok r" "client_id r = cid"
      using clients_abs_ok [OF operation_inv [OF inv oper], of cid r] by auto
    have "persist (at 1 es) (server\<lparr>server_security := security'\<rparr>) now' (append_record (at 0 es) (server_storage server) fs (JClient r)) =
        (True, fs')"
      using saved True r by (simp add: persist_client_def find_client_abs)
    with log ok r show ?thesis
      by (intro log_grown_persist [where r = "JClient r"]) (auto simp: live_map_def)
  next
    case False
    with saved operation_failed [OF oper] log_grown_same [OF logged_same [OF log, of "server\<lparr>server_security := security'\<rparr>"]]
    show ?thesis by simp
  qed
  with same show ?thesis by (simp add: log_grown_data)
qed

end

abbreviation register_operation where
  "register_operation role \<equiv> \<lambda>e security cid. mp_cache_security_register_client e security (Some cid) role (Some MP_CACHE_TOKEN_TEXT_CAP)"

abbreviation rotate_operation where
  "rotate_operation \<equiv> \<lambda>e security cid. mp_cache_security_rotate_client_token e security (Some cid) (Some MP_CACHE_TOKEN_TEXT_CAP)"

definition invalidate_operation ::
  "env \<Rightarrow> mp_cache_security \<Rightarrow> string \<Rightarrow> mp_cache_security_status \<times> string option \<times> mp_cache_security" where
  "invalidate_operation e security cid =
     (case mp_cache_security_invalidate_client_token security (Some cid) of (status, security') \<Rightarrow> (status, None, security'))"

interpretation register_op: client_operation "register_operation role" for role
  by unfold_locales (fact register_inv register_abs register_failed)+

interpretation rotate_op: client_operation rotate_operation
  by unfold_locales (auto dest: rotate_inv rotate_abs rotate_result)

interpretation invalidate_op: client_operation invalidate_operation
  by unfold_locales
    (auto simp: invalidate_operation_def split: prod.splits dest: invalidate_inv invalidate_abs invalidate_failed)


text \<open>The purge of selected keys appends one deletion per key it finds, until an append fails.\<close>

lemma purge_selected_needs:
  "purge_selected_loop e storage ks store fs purged missing True = (result, store', fs', p, m, needs) \<Longrightarrow> needs"
  by (induction ks arbitrary: store fs purged missing) (auto split: prod.splits if_splits)

lemma purge_selected_log:
  assumes "purge_selected_loop e storage ks store fs purged missing False = (True, store', fs', p, m, False)"
    and "logged (server\<lparr>server_store := store\<rparr>) fs now base registry since records" "storage = server_storage server"
    and "store_inv store" "journal_limits store"
  shows "\<exists>new. logged (server\<lparr>server_store := store'\<rparr>) fs' now base registry since (records @ new)"
  using assms
proof (induction ks arbitrary: store fs purged missing records)
  case Nil
  then show ?case by (auto intro: exI [of _ "[]"])
next
  case (Cons key ks)
  obtain st store1 where d: "mp_cache_store_delete store (Some (bytes_of key)) = (st, store1)" by fastforce
  note r = delete_result [OF Cons.prems(4) d]
  have limits: "journal_limits store1"
    using store_step_limits [OF step_delete [OF d]] Cons.prems(5) by (simp add: journal_limits_def same_limits_def)
  show ?case
  proof (cases "store_abs store (bytes_of key)")
    case None
    with r have "store_abs store1 = store_abs store" "st = MP_CACHE_STORE_STATUS_NOT_FOUND"
      by (auto simp: fun_eq_iff)
    then have "logged (server\<lparr>server_store := store1\<rparr>) fs now base registry since records"
      using Cons.prems(2) by (simp add: logged_def)
    with Cons.IH [of store1 fs purged "missing + 1" records] Cons.prems d r limits \<open>st = _\<close> show ?thesis by simp
  next
    case (Some found)
    then obtain v t where f: "store_abs store (bytes_of key) = Some (v, t)" by (cases found) auto
    with r have st: "st = MP_CACHE_STORE_STATUS_OK" by simp
    obtain appended fs1 where a: "mp_cache_storage_append_delete (at (length ks) e) storage fs (Some (bytes_of key)) = (appended, fs1)"
      by fastforce
    have loop: "purge_selected_loop e storage ks store1 fs1 (purged + 1) missing (\<not> appended) = (True, store', fs', p, m, False)"
      using Cons.prems(1) d st a by simp
    then have app: "appended"
      by (cases appended) (auto dest: purge_selected_needs)
    have "logged (server\<lparr>server_store := store1\<rparr>) fs1 now base registry since (records @ [JDelete (bytes_of key)])"
      by (rule logged_append [OF Cons.prems(2), of _ now "at (length ks) e"])
        (use store_abs_lengths [OF Cons.prems(4) f Cons.prems(5)] a app r Cons.prems(3) in \<open>simp_all\<close>)
    from Cons.IH [OF _ this Cons.prems(3) _ limits] loop app r show ?thesis by auto
  qed
qed


section \<open>Requests and the log\<close>

lemma register_handler_log:
  assumes h: "mp_cache_http_handle_register_client e server fs request now' = (response, server', fs')"
    and log: "logged server fs now base registry since records" "now \<le> now'"
    and inv: "security_inv (server_security server)" and ok: "status_code response \<noteq> 500"
  shows "log_grown server' fs' now' base registry since records"
proof -
  let ?cid = "mp_cache_http_extract_json_string (request_body request) ''client_id'' MP_CACHE_CLIENT_ID_CAP"
  let ?role = "mp_cache_http_extract_json_string (request_body request) ''role'' 16"
  consider (none) "fs' = fs" "same_data server server'"
    | (run) cid role_text where "?cid = Inr cid" "?role = Inr role_text" "mp_cache_role_from_string (Some role_text) \<noteq> MP_CACHE_ROLE_NONE"
    using h by (cases ?cid; cases ?role) (auto simp: mp_cache_http_handle_register_client_def Let_def split: if_splits)
  then show ?thesis
  proof cases
    case none
    with log show ?thesis by (auto intro: log_grown_kept)
  next
    case (run cid role_text)
    define role where "role = mp_cache_role_from_string (Some role_text)"
    obtain status issued security' where
      r: "register_operation role (at 2 e) (server_security server) cid = (status, issued, security')" by (rule prod_cases3)
    obtain saved fs1 where p: "persist_client (at 5 e) (server\<lparr>server_security := security'\<rparr>) fs cid now' = (saved, fs1)" by fastforce
    note call = h [unfolded mp_cache_http_handle_register_client_def run(1,2), simplified, folded role_def, unfolded Let_def r, simplified]
    show ?thesis
      by (rule register_op.operation_log [where es = "at 5 e", OF r log inv])
        (use call run(3) ok p in \<open>cases saved; auto simp: role_def split: if_splits\<close>)+
  qed
qed

lemma rotate_handler_log:
  assumes h: "mp_cache_http_handle_rotate_client e server fs cid now' = (response, server', fs')"
    and log: "logged server fs now base registry since records" "now \<le> now'"
    and inv: "security_inv (server_security server)" and ok: "status_code response \<noteq> 500"
  shows "log_grown server' fs' now' base registry since records"
proof -
  obtain status issued security' where r: "rotate_operation (at 0 e) (server_security server) cid = (status, issued, security')"
    by (rule prod_cases3)
  obtain saved fs1 where p: "persist_client (at 3 e) (server\<lparr>server_security := security'\<rparr>) fs cid now' = (saved, fs1)" by fastforce
  show ?thesis
    by (rule rotate_op.operation_log [where es = "at 3 e", OF r log inv])
      (use h r ok p in \<open>cases saved; auto simp: mp_cache_http_handle_rotate_client_def Let_def split: if_splits\<close>)+
qed

lemma invalidate_handler_log:
  assumes h: "mp_cache_http_handle_invalidate_client e server fs cid now' = (response, server', fs')"
    and log: "logged server fs now base registry since records" "now \<le> now'"
    and inv: "security_inv (server_security server)" and ok: "status_code response \<noteq> 500"
  shows "log_grown server' fs' now' base registry since records"
proof -
  obtain status security' where r: "mp_cache_security_invalidate_client_token (server_security server) (Some cid) = (status, security')"
    by fastforce
  then have oper: "invalidate_operation e (server_security server) cid = (status, None, security')"
    by (simp add: invalidate_operation_def)
  obtain saved fs1 where p: "persist_client (at 2 e) (server\<lparr>server_security := security'\<rparr>) fs cid now' = (saved, fs1)" by fastforce
  show ?thesis
    by (rule invalidate_op.operation_log [where es = "at 2 e", OF oper log inv])
      (use h r ok p in \<open>cases saved; auto simp: mp_cache_http_handle_invalidate_client_def Let_def split: if_splits\<close>)+
qed

lemma put_handler_log:
  assumes h: "mp_cache_http_handle_cache_put e server fs key request now' = (response, server', fs')"
    and log: "logged server fs now base registry since records" "now \<le> now'"
    and inv: "store_inv (server_store server)" "journal_limits (server_store server)"
    and time: "0 \<le> now'" "is_int64 (now' + 2 ^ 32)" and ok: "status_code response \<noteq> 500"
  shows "log_grown server' fs' now' base registry since records"
  using handle_put_effect [OF h]
proof (elim disjE exE conjE)
  assume "same_data server server'" "fs' = fs"
  with log show ?thesis by (auto intro: log_grown_kept)
next
  fix v ttl status store'
  assume s: "mp_cache_store_set (at 5 e) (server_store server) (Some (bytes_of key)) (Some v) ttl now' = (status, store')"
    "status \<noteq> MP_CACHE_STORE_STATUS_OK" and same: "same_data (server\<lparr>server_store := store'\<rparr>) server'" "fs' = fs"
  with set_failed [OF s] log show ?thesis
    by (auto intro: log_grown_kept)
next
  fix v ttl status store'
  assume s: "mp_cache_store_set (at 5 e) (server_store server) (Some (bytes_of key)) (Some v) ttl now' = (status, store')"
    "status = MP_CACHE_STORE_STATUS_OK" and same: "same_data (server\<lparr>server_store := store'\<rparr>) server'"
    and p: "persist (at 9 e) (server\<lparr>server_store := store'\<rparr>) now'
      (mp_cache_storage_append_set (at 8 e) (server_storage server) fs (Some (bytes_of key)) (Some v) (now' + uint ttl)) =
      (status_code response = 200, fs')" and code: "status_code response \<in> {200, 500}"
  note set = set_ok [OF inv(1) s(1) [unfolded s(2)]]
  have "length (bytes_of key) + length v < 2 ^ 31"
    by (rule store_abs_lengths [of store' _ _ "now' + uint ttl"]) (use set inv(2) in \<open>auto simp: journal_limits_def same_limits_def\<close>)
  moreover have "uint ttl < 2 ^ 32"
    using uint_lt2p [of ttl] by simp
  then have "is_int64 (now' + uint ttl)"
    using time uint_ge_0 [of ttl] unfolding is_int64_def by linarith
  ultimately have "record_encodable (JSet (bytes_of key) v (now' + uint ttl))" by simp
  then have "log_grown (server\<lparr>server_store := store'\<rparr>) fs' now' base registry since records"
    using p code ok set by (intro log_grown_persist [OF log(1) _ log(2), of "JSet (bytes_of key) v (now' + uint ttl)" "at 9 e" _ "at 8 e"]) auto
  with same show ?thesis by (simp add: log_grown_data)
qed

lemma delete_handler_log:
  assumes h: "mp_cache_http_handle_cache_delete e server fs key now' = (response, server', fs')"
    and log: "logged server fs now base registry since records" "now \<le> now'"
    and inv: "store_inv (server_store server)" "journal_limits (server_store server)" and ok: "status_code response \<noteq> 500"
  shows "log_grown server' fs' now' base registry since records"
  using handle_delete_effect [OF h]
proof (elim disjE exE conjE)
  fix status store'
  assume d: "mp_cache_store_delete (server_store server) (Some (bytes_of key)) = (status, store')"
    "status \<noteq> MP_CACHE_STORE_STATUS_OK" and same: "same_data (server\<lparr>server_store := store'\<rparr>) server'" "fs' = fs"
  from delete_result [OF inv(1) d(1)] d(2) have "store_abs store' = store_abs (server_store server)"
    by (auto simp: fun_eq_iff split: if_splits)
  with log_grown_same [OF logged_same [OF log, of "server\<lparr>server_store := store'\<rparr>"]] same show ?thesis
    by (simp add: log_grown_data)
next
  fix status store'
  assume d: "mp_cache_store_delete (server_store server) (Some (bytes_of key)) = (status, store')"
    "status = MP_CACHE_STORE_STATUS_OK" and same: "same_data (server\<lparr>server_store := store'\<rparr>) server'"
    and p: "persist (at 3 e) (server\<lparr>server_store := store'\<rparr>) now'
      (mp_cache_storage_append_delete (at 2 e) (server_storage server) fs (Some (bytes_of key))) =
      (status_code response = 200, fs')" and code: "status_code response \<in> {200, 500}"
  note r = delete_result [OF inv(1) d(1)]
  with d(2) obtain v t where "store_abs (server_store server) (bytes_of key) = Some (v, t)"
    by (auto split: if_splits)
  from store_abs_lengths [OF inv(1) this inv(2)] have "record_encodable (JDelete (bytes_of key))" by simp
  then have "log_grown (server\<lparr>server_store := store'\<rparr>) fs' now' base registry since records"
    using p code ok r by (intro log_grown_persist [OF log(1) _ log(2), of "JDelete (bytes_of key)" "at 3 e" _ "at 2 e"]) auto
  with same show ?thesis by (simp add: log_grown_data)
qed

lemma import_handler_log:
  assumes h: "mp_cache_http_handle_import e server fs request now' = (response, server', fs')" and ok: "status_code response = 200"
  shows "log_grown server' fs' now' base registry since records"
proof -
  obtain path where path: "mp_cache_http_extract_json_string (request_body request) ''path'' MP_CACHE_PATH_CAP = Inr path"
    using h ok by (cases "mp_cache_http_extract_json_string (request_body request) ''path'' MP_CACHE_PATH_CAP")
      (auto simp: mp_cache_http_handle_import_def)
  obtain result fs1 store' security' where
    i: "mp_cache_storage_import_state (at 1 e) (server_storage server) fs (Some path) (server_store server) (server_security server) now' =
      (result, fs1, store', security')" by (metis surj_pair)
  define server1 where "server1 = server\<lparr>server_store := store', server_security := security'\<rparr>"
  have r: "result" "fs' = fs1" "same_data server1 server'"
    using h ok path i by (auto simp: mp_cache_http_handle_import_def Let_def server1_def split: if_splits)
  have "\<exists>fs0. mp_cache_storage_checkpoint (at 5 (at 1 e)) (server_storage server) fs0 store' security' now' = (True, fs1)"
    using i r(1) unfolding mp_cache_storage_import_state_def
    by (auto split: option.splits sum.splits packet_read.splits prod.splits bool.splits)
  then have "logged server1 fs1 now' (server_store server1) (server_security server1) now' []"
    using logged_checkpoint [of "at 5 (at 1 e)" server1 _ now' fs1] by (auto simp: server1_def)
  then have "log_grown server1 fs1 now' base registry since records"
    by (simp add: log_grown_def)
  with r show ?thesis by (simp add: log_grown_data)
qed

lemma purge_all_handler_log:
  assumes h: "mp_cache_http_handle_purge_all e server fs now' = (response, server', fs')"
    and log: "logged server fs now base registry since records" "now \<le> now'"
    and inv: "store_inv (server_store server)" and ok: "status_code response \<noteq> 500"
  shows "log_grown server' fs' now' base registry since records"
proof -
  define server1 where "server1 = server\<lparr>server_store := mp_cache_store_clear (server_store server)\<rparr>"
  have p: "persist (at 1 e) server1 now' (append_record (at 0 e) (server_storage server) fs JPurge) = (True, fs')" "server' = server1"
    using h ok by (auto simp: mp_cache_http_handle_purge_all_def Let_def server1_def split: prod.splits bool.splits)
  show ?thesis
    unfolding p(2) by (rule log_grown_persist [OF log(1) _ log(2) p(1)])
      (use store_clear_facts(2) [OF inv] in \<open>simp_all add: server1_def\<close>)
qed

lemma purge_selected_handler_log:
  assumes h: "mp_cache_http_handle_purge_selected e server fs request now' = (response, server', fs')"
    and log: "logged server fs now base registry since records" "now \<le> now'"
    and inv: "store_inv (server_store server)" "journal_limits (server_store server)" and ok: "status_code response \<noteq> 500"
  shows "log_grown server' fs' now' base registry since records"
proof -
  have later: "logged server fs now' base registry since records"
    by (rule logged_same [OF log]) simp_all
  let ?keys = "if request_body request = None \<or> request_body_length request = 0 then Inl EINVAL
            else mp_cache_http_extract_json_string_array (at 0 e) (request_body request) ''keys''"
  consider "fs' = fs" "same_data server server'"
    | (run) ks where "?keys = Inr ks" "ks \<noteq> []"
      "\<not> list_ex (\<lambda>key. key = [] \<or> length key > unat (max_key_bytes (server_config server))) ks"
    using h by (cases ?keys) (auto simp: mp_cache_http_handle_purge_selected_def split: if_splits)
  then show ?thesis
  proof cases
    case 1
    with later show ?thesis by (auto simp: log_grown_data intro: log_grown_same)
  next
    case (run ks)
    obtain result store' fs1 purged missing needs where
      loop: "purge_selected_loop (at 3 e) (server_storage server) ks (server_store server) fs 0 0 False =
        (result, store', fs1, purged, missing, needs)" by (metis surj_pair)
    define server1 where "server1 = server\<lparr>server_store := store'\<rparr>"
    obtain saved fs2 where c: "mp_cache_storage_checkpoint (at 5 e) (server_storage server1) fs1 (server_store server1)
      (server_security server1) now' = (saved, fs2)" by fastforce
    note call = h [unfolded mp_cache_http_handle_purge_selected_def run(1) Let_def, simplified run(2,3) loop, simplified]
    have out: "result" "same_data server1 server'" "if needs then saved \<and> fs' = fs2 else fs' = fs1"
      using call run ok loop c unfolding mp_cache_http_resilient_checkpoint_def server1_def
      by (cases needs; cases saved; auto split: if_splits)+
    have "log_grown server1 fs' now' base registry since records"
    proof (cases needs)
      case True
      with out c logged_checkpoint [of "at 5 e" server1 fs1 now' fs2] show ?thesis by (simp add: log_grown_def)
    next
      case False
      with purge_selected_log [of "at 3 e" _ ks "server_store server" fs 0 0 store' fs1 purged missing server now'] loop out(1,3) later inv show ?thesis
        by (auto simp: log_grown_def server1_def)
    qed
    with out(2) show ?thesis by (simp add: log_grown_data)
  qed
qed

lemma routed_log:
  assumes routed: "routed server fs request now' response server' fs'"
    and log: "logged server fs now base registry since records" "now \<le> now'"
    and inv: "store_inv (server_store server)" "security_inv (server_security server)" "journal_limits (server_store server)"
    and time: "0 \<le> now'" "is_int64 (now' + 2 ^ 32)"
    and ok: "status_code response \<noteq> 500" "request_path request \<noteq> ''/v1/export''"
      "request_path request = ''/v1/import'' \<Longrightarrow> status_code response = 200"
  shows "log_grown server' fs' now' base registry since records"
proof -
  have later: "log_grown server fs now' base registry since records"
    by (rule log_grown_same, rule logged_same [OF log]) simp_all
  have moved: "logged server1 fs now base registry since records" "store_inv (server_store server1)"
    "security_inv (server_security server1)" "journal_limits (server_store server1)" if "same_data server server1" for server1
    using log(1) inv that by (simp_all add: logged_data) (simp_all add: same_data_def)
  show ?thesis
    using routed
  proof cases
    case (routed_get server1 key e)
    define store1 where "store1 = snd (snd (mp_cache_store_get_copy (at 0 e) (server_store server1) (Some (bytes_of key)) now'))"
    have "live_map t (store_abs store1) = live_map t (store_abs (server_store server1))" if "t \<ge> now'" for t
      using get_live [OF moved(2) [OF routed_get(4)] _ that] unfolding store1_def by (metis surjective_pairing)
    then have "logged (server1\<lparr>server_store := store1\<rparr>) fs now' base registry since records"
      by (intro logged_same [OF moved(1) [OF routed_get(4)] log(2)]) simp_all
    with handle_get_effect [OF routed_get(6), folded store1_def] routed_get(1) show ?thesis
      by (auto simp: log_grown_data intro: log_grown_same)
  next
    case (routed_put server1 key e)
    with put_handler_log [OF routed_put(5) _ log(2) _ _ time ok(1)] moved show ?thesis by blast
  next
    case (routed_delete server1 key e)
    with delete_handler_log [OF routed_delete(5) _ log(2) _ _ ok(1)] moved show ?thesis by blast
  next
    case (routed_register server1 e)
    with register_handler_log [OF routed_register(3) _ log(2) _ ok(1)] moved show ?thesis by blast
  next
    case (routed_rotate server1 e cid)
    with rotate_handler_log [OF routed_rotate(3) _ log(2) _ ok(1)] moved show ?thesis by blast
  next
    case (routed_invalidate server1 e cid)
    with invalidate_handler_log [OF routed_invalidate(3) _ log(2) _ ok(1)] moved show ?thesis by blast
  next
    case (routed_import server1 e)
    with import_handler_log [OF routed_import(4)] ok(3) show ?thesis by blast
  next
    case (routed_purge_all server1 e)
    with purge_all_handler_log [OF routed_purge_all(3) _ log(2) _ ok(1)] moved show ?thesis by blast
  next
    case (routed_purge_selected server1 e)
    with purge_selected_handler_log [OF routed_purge_selected(3) _ log(2) _ _ ok(1)] moved show ?thesis by blast
  qed (use later ok(2) in \<open>auto simp: log_grown_data\<close>)
qed

text \<open>What a restart finds: a write skipped at the load had expired.\<close>

lemma replayed_live:
  assumes "live_map t m \<subseteq>\<^sub>m m'"
  shows "live_map t (foldl kv_effect m (concat (map performed records))) \<subseteq>\<^sub>m
    foldl kv_effect m' (concat (map (record_kv t) records))"
  using assms
proof (induction records arbitrary: m m')
  case (Cons r records)
  have "live_map t (foldl kv_effect m (performed r)) \<subseteq>\<^sub>m foldl kv_effect m' (record_kv t r)"
    using Cons.prems by (cases r) (auto simp: live_map_def map_le_def dom_def split: option.splits if_splits)
  from Cons.IH [OF this] show ?case by simp
qed simp

lemma replayed_all_live:
  assumes "live_map t m = m'" "\<forall>key v x. JSet key v x \<in> set records \<longrightarrow> t < x"
  shows "live_map t (foldl kv_effect m (concat (map performed records))) =
    foldl kv_effect m' (concat (map (record_kv t) records))"
  using assms
proof (induction records arbitrary: m m')
  case (Cons r records)
  have "live_map t (foldl kv_effect m (performed r)) = foldl kv_effect m' (record_kv t r)"
    using Cons.prems by (cases r) (auto simp: live_map_def fun_eq_iff)
  from Cons.IH [OF this] Cons.prems(2) show ?case by simp
qed simp

text \<open>The checkpoint and the records can be loaded into a table with the limits of the checkpointed one.\<close>

definition loadable :: "mp_cache_store \<Rightarrow> mp_cache_security \<Rightarrow> int \<Rightarrow> journal_record list \<Rightarrow> bool" where
  "loadable base registry since records \<longleftrightarrow>
     store_inv base \<and> state_encodable base \<and> security_inv registry \<and> length (state_bytes base registry since) < 2 ^ 32 \<and>
     list_all (record_fits base) records \<and>
     store_size base + sum_list (map record_size records) \<le> unat (store_memory_limit base) \<and>
     length (client_records registry) + sum_list (map client_records_of records) \<le> MP_CACHE_MAX_CLIENTS"


section \<open>A write that reaches the table\<close>

text \<open>The limiter with and without a call that cannot fail.\<close>

lemma rate_limit_env:
  "all_ok e \<Longrightarrow> mp_cache_http_rate_limit_allow e server subject now = mp_cache_http_rate_limit_allow good_env server subject now"
proof -
  assume "all_ok e"
  then have "limit_add_subject e = limit_add_subject good_env"
    by (simp add: limit_add_subject_def fun_eq_iff env_simps)
  then show ?thesis unfolding mp_cache_http_rate_limit_allow_def by (simp only:)
qed

lemma rate_limit_same:
  assumes "server_config server' = server_config server" "rate_limiter server' = rate_limiter server"
  shows "fst (mp_cache_http_rate_limit_allow e server' subject now) = fst (mp_cache_http_rate_limit_allow e server subject now)"
  using assms by (auto simp: mp_cache_http_rate_limit_allow_def split: option.splits prod.splits)

text \<open>The request carries the token of a client who may use the cache and has requests left.\<close>

definition admitted :: "mp_cache_http_server \<Rightarrow> string \<Rightarrow> int \<Rightarrow> bool" where
  "admitted server tok now \<longleftrightarrow> tok \<noteq> [] \<and>
     (case mp_cache_security_authenticate (server_security server) (Some tok) of
        (MP_CACHE_SECURITY_STATUS_OK, Some who) \<Rightarrow>
          mp_cache_role_allows (principal_role who) MP_CACHE_ROLE_CLIENT \<and>
          fst (mp_cache_http_rate_limit_allow good_env server (Some (principal_id who)) now)
      | _ \<Rightarrow> False)"

lemma authenticate_admitted:
  assumes "admitted server tok now" "authorization_header request = ''Bearer '' @ tok" "all_ok e"
    and "server_security server1 = server_security server" "server_config server1 = server_config server"
      "rate_limiter server1 = rate_limiter server"
  shows "\<exists>who server2. mp_cache_http_authenticate e server1 request MP_CACHE_ROLE_CLIENT now = (Inr who, server2) \<and>
    same_data server1 server2"
proof -
  from assms(1) obtain who where who: "tok \<noteq> []"
    "mp_cache_security_authenticate (server_security server) (Some tok) = (MP_CACHE_SECURITY_STATUS_OK, Some who)"
    "mp_cache_role_allows (principal_role who) MP_CACHE_ROLE_CLIENT"
    "fst (mp_cache_http_rate_limit_allow good_env server (Some (principal_id who)) now)"
    by (auto simp: admitted_def split: prod.splits option.splits mp_cache_security_status.splits)
  obtain allowed server2 where l: "mp_cache_http_rate_limit_allow (at 3 e) server1 (Some (principal_id who)) now = (allowed, server2)"
    by fastforce
  have "allowed"
    using who(4) l rate_limit_same [OF assms(5,6), of "at 3 e" "Some (principal_id who)" now]
      rate_limit_env [OF all_ok_at [OF assms(3)], of 3 server] by simp
  moreover have "mp_cache_http_extract_bearer_token (Some (''Bearer '' @ tok)) = Some tok"
    by (simp add: mp_cache_http_extract_bearer_token_def starts_with_nocase_code)
  ultimately have "mp_cache_http_authenticate e server1 request MP_CACHE_ROLE_CLIENT now = (Inr who, server2)"
    using who l assms by (simp add: mp_cache_http_authenticate_def Let_def)
  with rate_limit_allow_data [OF l] show ?thesis by blast
qed

lemma route_put:
  assumes path: "request_path request = ''/v1/cache/'' @ key" "CHR ''%'' \<notin> set key" "NUL \<notin> set key" "key \<noteq> []"
      "length key < MP_CACHE_NAME_CAP * 4"
    and "request_method request = ''PUT''" "authorization_header request = ''Bearer '' @ tok"
    and admitted: "admitted server tok (mp_cache_http_now (at 0 e))" and e: "all_ok e"
  shows "\<exists>server1. same_data (mp_cache_http_maybe_sweep server (mp_cache_http_now (at 0 e))) server1 \<and>
    mp_cache_http_route_request e server fs request =
      mp_cache_http_handle_cache_put (at 3 (at 4 e)) server1 fs key request (mp_cache_http_now (at 0 e))"
proof -
  define now where "now = mp_cache_http_now (at 0 e)"
  define server0 where "server0 = swept server now"
  have s0: "server_security server0 = server_security server" "server_config server0 = server_config server"
    "rate_limiter server0 = rate_limiter server" "same_data (mp_cache_http_maybe_sweep server now) server0"
    by (auto simp: server0_def mp_cache_http_maybe_sweep_def count_metric_def same_data_def)
  from authenticate_admitted [OF admitted [folded now_def] assms(7) all_ok_at [OF all_ok_at [OF e]] s0(1-3), of 1 4]
  obtain who server1 where a: "mp_cache_http_authenticate (at 1 (at 4 e)) server0 request MP_CACHE_ROLE_CLIENT now = (Inr who, server1)"
    "same_data server0 server1" by blast
  have "mp_cache_http_percent_decode (Some key) (MP_CACHE_NAME_CAP * 4) = Inr key"
    using percent_decode_plain [OF path(2), of "[]"] path(5) by (simp add: mp_cache_http_percent_decode_def MP_CACHE_NAME_CAP_def)
  moreover have "c_string key = key"
    using path(3) by (rule c_string_id)
  ultimately have "route_cache (at 4 e) server0 fs request now = mp_cache_http_handle_cache_put (at 3 (at 4 e)) server1 fs key request now"
    using path a assms(6) by (simp add: route_cache_def)
  moreover have "\<not> mp_cache_http_path_is_health (request_path request)" "request_path request \<noteq> ''/''" "is_cache_path (request_path request)"
    by (simp_all add: path(1) mp_cache_http_path_is_health_def starts_with_def)
  ultimately have "mp_cache_http_route_request e server fs request = mp_cache_http_handle_cache_put (at 3 (at 4 e)) server1 fs key request now"
    by (simp add: mp_cache_http_route_request_def Let_def now_def [symmetric] server0_def [symmetric])
  with a(2) s0(4) show ?thesis
    unfolding now_def by (auto simp: same_data_def)
qed


text \<open>The body that \<^verbatim>\<open>mp-cachectl set\<close> builds with a lifetime, and what the handler makes of it.\<close>

definition set_body :: "bytes \<Rightarrow> u32 \<Rightarrow> string" where
  "set_body v ttl = json_object [(''value_base64'', json_text (base64_encode_loop v)), (''ttl_seconds'', json_u32 ttl)]"

lemma base64_char:
  assumes "n < 64"
  shows "base64_alphabet ! n \<in> set base64_alphabet"
  by (rule nth_mem) (use assms in \<open>simp add: base64_alphabet_def\<close>)

lemma base64_encode_chunk_chars: "set (base64_encode_chunk xs) \<subseteq> insert (CHR ''='') (set base64_alphabet)"
proof -
  have "unat (w AND 0x3f) < 64" for w :: u32
    using word_and_le1 [of w "0x3f"] by (simp add: word_le_nat_alt less_Suc_eq_le [symmetric])
  from base64_char [OF this] show ?thesis
    by (simp add: base64_encode_chunk_def Let_def)
qed

lemma base64_encode_chars: "set (base64_encode_loop bs) \<subseteq> insert (CHR ''='') (set base64_alphabet)"
proof (induction bs rule: base64_encode_loop.induct)
  case (1 bs)
  with base64_encode_chunk_chars [of "take 3 bs"] show ?case
    by (subst base64_encode_loop.simps) auto
qed

lemma base64_alphabet_plain:
  "list_all (\<lambda>c. json_escape_char c = [c] \<and> json_char c \<and> c \<noteq> QUOTE \<and> c \<noteq> NUL \<and> c \<noteq> CHR ''_'') (CHR ''='' # base64_alphabet)"
  by code_simp

lemma base64_encode_plain:
  "json_escape_text (base64_encode_loop bs) = base64_encode_loop bs" "list_all json_char (base64_encode_loop bs)"
  "QUOTE \<notin> set (base64_encode_loop bs)" "NUL \<notin> set (base64_encode_loop bs)" "CHR ''_'' \<notin> set (base64_encode_loop bs)"
proof -
  have plain: "json_escape_char c = [c] \<and> json_char c \<and> c \<noteq> QUOTE \<and> c \<noteq> NUL \<and> c \<noteq> CHR ''_''" if "c \<in> set (base64_encode_loop bs)" for c
    using subsetD [OF base64_encode_chars that] base64_alphabet_plain by (auto simp: list_all_iff)
  have "set str \<subseteq> set (base64_encode_loop bs) \<Longrightarrow> json_escape_text str = str" for str
    by (induction str) (auto simp: plain)
  then show "json_escape_text (base64_encode_loop bs) = base64_encode_loop bs" by blast
  show "list_all json_char (base64_encode_loop bs)"
    "QUOTE \<notin> set (base64_encode_loop bs)" "NUL \<notin> set (base64_encode_loop bs)" "CHR ''_'' \<notin> set (base64_encode_loop bs)"
    using plain by (auto simp: list_all_iff)
qed

lemma set_body_fields:
  assumes "length (base64_encode_loop v) < MP_CACHE_HTTP_BODY_CAPACITY"
  shows "mp_cache_http_extract_json_string (Some (set_body v ttl)) ''value_base64'' MP_CACHE_HTTP_BODY_CAPACITY = Inr (base64_encode_loop v)"
    and "mp_cache_http_extract_json_u32 (Some (set_body v ttl)) ''ttl_seconds'' = Inr ttl"
    and "NUL \<notin> set (set_body v ttl)"
proof -
  have "set_body v ttl = ''{'' @ json_text ''value_base64'' @ '':'' @ json_text (json_escape_text (base64_encode_loop v)) @
      '','' @ json_text ''ttl_seconds'' @ '':'' @ json_u32 ttl @ ''}''"
    by (simp add: set_body_def json_object_def base64_encode_plain)
  with extract_first_string [of "''value_base64''" "base64_encode_loop v" MP_CACHE_HTTP_BODY_CAPACITY] assms base64_encode_plain(2)
  show "mp_cache_http_extract_json_string (Some (set_body v ttl)) ''value_base64'' MP_CACHE_HTTP_BODY_CAPACITY = Inr (base64_encode_loop v)"
    by simp
  have "base64_encode_loop v \<noteq> ''ttl_seconds''"
    using base64_encode_plain(5) [of v] by auto
  with base64_encode_plain(3) [of v] show "mp_cache_http_extract_json_u32 (Some (set_body v ttl)) ''ttl_seconds'' = Inr ttl"
    unfolding set_body_def by (intro extract_second_u32) auto
  have "NUL \<notin> set (json_u32 ttl)"
    by (auto simp: isdigit_def dest: print_nat_digits)
  then show "NUL \<notin> set (set_body v ttl)"
    using base64_encode_plain(4) [of v] by (simp add: set_body_def json_object_def json_text_def)
qed


lemma handle_put_stores:
  assumes body: "request_body request = Some (set_body v ttl)" "request_body_length request \<noteq> 0"
      "length (base64_encode_loop v) < MP_CACHE_HTTP_BODY_CAPACITY"
    and ttl: "min_ttl_seconds (server_config server) \<le> ttl" "ttl \<le> max_ttl_seconds (server_config server)"
    and e: "all_ok e"
    and set: "mp_cache_store_set (at 5 e) (server_store server) (Some (bytes_of key)) (Some v) ttl now = (MP_CACHE_STORE_STATUS_OK, store')"
    and call: "mp_cache_http_handle_cache_put e server fs key request now = (response, server', fs')"
  shows "same_data (server\<lparr>server_store := store'\<rparr>) server'"
    and "persist (at 9 e) (server\<lparr>server_store := store'\<rparr>) now (mp_cache_storage_append_set (at 8 e) (server_storage server) fs
      (Some (bytes_of key)) (Some v) (now + uint ttl)) = (status_code response = 200, fs')"
proof -
  define encoded where "encoded = base64_encode_loop v"
  have len: "length encoded = (length v + 2) div 3 * 4"
    unfolding encoded_def by (rule length_base64_encode_loop)
  then have "length encoded div 4 * 3 + 3 \<ge> length v" by simp
  moreover have "length encoded div 4 * 3 + 3 < 2 ^ 64"
    using body(3) by (simp add: encoded_def http_capacities)
  ultimately have dec: "mp_cache_base64_decode (Some encoded) (length encoded div 4 * 3 + 3) = Inr v"
    using base64_decode_encode_loop [of "[]" v "length encoded div 4 * 3 + 3"] len
    by (simp add: mp_cache_base64_decode_def encoded_def)
  obtain saved fs1 where p: "persist (at 9 e) (server\<lparr>server_store := store'\<rparr>) now (mp_cache_storage_append_set (at 8 e)
      (server_storage server) fs (Some (bytes_of key)) (Some v) (now + uint ttl)) = (saved, fs1)" by fastforce
  have bounds: "\<not> ttl < min_ttl_seconds (server_config server)" "\<not> max_ttl_seconds (server_config server) < ttl" "ok 3 e"
    using ttl e by (simp_all add: not_less env_simps)
  note fields = set_body_fields(1,2) [OF body(3), of ttl, folded encoded_def]
  have "same_data (server\<lparr>server_store := store'\<rparr>) server' \<and> (saved, fs1) = (status_code response = 200, fs')"
    using call unfolding mp_cache_http_handle_cache_put_def body(1)
    by (cases saved) (simp_all add: body(2) bounds fields dec set p Let_def, auto)
  with p show "same_data (server\<lparr>server_store := store'\<rparr>) server'"
    and "persist (at 9 e) (server\<lparr>server_store := store'\<rparr>) now (mp_cache_storage_append_set (at 8 e) (server_storage server) fs
      (Some (bytes_of key)) (Some v) (now + uint ttl)) = (status_code response = 200, fs')"
    by simp_all
qed


text \<open>The sweep frees room at most.\<close>

lemma purge_size: "store_size (snd (mp_cache_store_purge_expired store now)) \<le> store_size store"
  using filter_sizes(1) [of "live now" "concat (buckets store)"]
  by (simp add: mp_cache_store_purge_expired_def purge_buckets_result store_size_def sum_chain_size_concat concat_map_filter
      del: map_map)

lemma swept_store:
  assumes "store_inv (server_store server)"
  shows "store_inv (server_store (mp_cache_http_maybe_sweep server now))"
    "store_size (server_store (mp_cache_http_maybe_sweep server now)) \<le> store_size (server_store server)"
    "same_limits (server_store server) (server_store (mp_cache_http_maybe_sweep server now))"
proof -
  have "store_step (server_store server) (snd (mp_cache_store_purge_expired (server_store server) now))"
    using step_purge by (metis surjective_pairing)
  with store_steps_facts [OF r_into_rtranclp assms] purge_size [of "server_store server" now] assms
  show "store_inv (server_store (mp_cache_http_maybe_sweep server now))"
    "store_size (server_store (mp_cache_http_maybe_sweep server now)) \<le> store_size (server_store server)"
    "same_limits (server_store server) (server_store (mp_cache_http_maybe_sweep server now))"
    by (simp_all add: mp_cache_http_maybe_sweep_def same_limits_def)
qed

lemma handle_get_stored:
  assumes "all_ok e" "store_abs (server_store server) (bytes_of key) = Some (v, t)" "now < t"
  shows "fst (mp_cache_http_handle_cache_get e server key now) = ok_response (at 5 e) (json_object
    [(''key'', json_text key), (''value_base64'', json_text (base64_encode_loop v)),
     (''value_bytes'', print_nat (length v)), (''expires_at_utc_seconds'', print_int t)])"
proof -
  obtain en where "store_lookup (server_store server) (bytes_of key) = Some en" "entry_value en = v" "entry_expires_at en = t"
    using assms(2) by (auto simp: store_abs_Some)
  then have "mp_cache_store_get_copy (at 0 e) (server_store server) (Some (bytes_of key)) now =
      (MP_CACHE_STORE_STATUS_OK, Some (v, t), server_store server)"
    using assms(1,3) by (simp add: store_get_result env_simps)
  moreover have "ok 3 e"
    using assms(1) by (simp add: env_simps)
  ultimately show ?thesis
    by (simp add: mp_cache_http_handle_cache_get_def mp_cache_base64_encode_def Let_def)
qed

text \<open>The server's side: a delivered \<open>PUT\<close> of an admitted client ends in the table.\<close>

lemma put_delivered:
  assumes e: "all_ok e" "now = mp_cache_http_now (at 0 (at 2 e))"
    and recvs: "list_all delivers recvs" "length (received recvs) < MP_CACHE_HTTP_REQUEST_CAPACITY"
      "received recvs = client_request_text ''PUT'' (''/v1/cache/'' @ key) (Some tok) (Some MP_CACHE_HTTP_CONTENT_TYPE_JSON) (Some (set_body v ttl))"
    and body: "length (set_body v ttl) < MP_CACHE_HTTP_BODY_CAPACITY"
    and key: "word_text key" "CHR ''%'' \<notin> set key" "CHR ''?'' \<notin> set key" "length key < 256"
    and tok: "line_text tok" "length tok < 249" "admitted server tok now"
    and inv: "store_inv (server_store server)"
    and limits: "length key \<le> unat (store_max_key_bytes (server_store server))" "length v \<le> unat (store_max_value_bytes (server_store server))"
      "store_size (server_store server) + sizeof_entry + length key + 1 + length v \<le> unat (store_memory_limit (server_store server))"
    and ttl: "min_ttl_seconds (server_config server) \<le> ttl" "ttl \<le> max_ttl_seconds (server_config server)" "0 < ttl"
    and call: "mp_cache_http_handle_client e recvs sends server fs = (reply, server', fs')"
  shows "store_abs (server_store server') =
    (store_abs (server_store (mp_cache_http_maybe_sweep server now)))(bytes_of key \<mapsto> (v, now + uint ttl))"
proof -
  define request where "request = sent_request ''PUT'' (''/v1/cache/'' @ key) (Some tok) (set_body v ttl)"
  have b64: "length (base64_encode_loop v) < MP_CACHE_HTTP_BODY_CAPACITY"
    using body by (simp add: set_body_def json_object_def json_text_def)
  have nul: "NUL \<notin> set (set_body v ttl)"
    by (rule set_body_fields(3) [OF b64])
  have read: "mp_cache_http_read_request (at 0 e) recvs MP_CACHE_HTTP_REQUEST_CAPACITY = Inr request"
    unfolding request_def
    by (rule client_request_delivered [OF _ _ _ _ _ _ nul recvs(1,3,2) _ all_ok_at [OF e(1)]])
      (use key(1,4) tok(1) in \<open>auto simp: word_text_def isspace_def http_capacities MP_CACHE_HTTP_CONTENT_TYPE_JSON_def\<close>)
  have split: "mp_cache_http_split_target (''/v1/cache/'' @ key) MP_CACHE_HTTP_PATH_CAPACITY MP_CACHE_HTTP_PATH_CAPACITY =
      (''/v1/cache/'' @ key, [])"
    using key(3,4) takeWhile_all [of "''/v1/cache/'' @ key" "\<lambda>d. d \<noteq> CHR ''?''" "[]"]
    by (auto simp: mp_cache_http_split_target_def strchr_def snprintf_s_def http_capacities)
  have req: "request_path request = ''/v1/cache/'' @ key" "request_method request = ''PUT''"
    "authorization_header request = ''Bearer '' @ tok" "request_body request = Some (set_body v ttl)"
    "request_body_length request = of_nat (length (set_body v ttl))"
    using tok(2) unfolding request_def sent_request_def split Let_def prod.case
    by (simp_all add: snprintf_s_def http_capacities)
  obtain server1 where s1: "same_data (mp_cache_http_maybe_sweep server now) server1"
    "mp_cache_http_route_request (at 2 e) server fs request = mp_cache_http_handle_cache_put (at 3 (at 4 (at 2 e))) server1 fs key request now"
    using route_put [OF req(1) key(2) _ _ _ req(2,3), of server "at 2 e" fs] e tok(3) key(1,4)
    by (auto simp: word_text_def MP_CACHE_NAME_CAP_def all_ok_at)
  obtain response server2 fs2 where h: "mp_cache_http_handle_cache_put (at 3 (at 4 (at 2 e))) server1 fs key request now = (response, server2, fs2)"
    by (rule prod_cases3)
  have "server' = server2"
    using call read s1(2) h by (simp add: mp_cache_http_handle_client_def)
  define store1 where "store1 = server_store server1"
  have st: "store1 = server_store (mp_cache_http_maybe_sweep server now)" "server_config server1 = server_config server"
    using s1(1) by (simp_all add: same_data_def store1_def maybe_sweep_data)
  note sw = swept_store [OF inv, of now, folded st(1)]
  have "0 < length (set_body v ttl)"
    by (simp add: set_body_def json_object_def)
  moreover have "unat (of_nat (length (set_body v ttl)) :: u64) = length (set_body v ttl)"
    using body by (simp add: unat_of_nat http_capacities)
  ultimately have nonempty: "(of_nat (length (set_body v ttl)) :: u64) \<noteq> 0"
    by fastforce
  have w: "\<exists>store'. mp_cache_store_write_entry (at 5 (at 3 (at 4 (at 2 e)))) store1 (Some (bytes_of key)) (Some v) (now + uint ttl) =
      (MP_CACHE_STORE_STATUS_OK, store')"
    by (rule write_entry_succeeds [OF sw(1)])
      (use limits sw(2,3) key(1) e(1) in \<open>simp_all add: same_limits_def word_text_def all_ok_at\<close>)
  have "ttl \<noteq> 0"
    using ttl(3) by simp
  with w obtain store' where set: "mp_cache_store_set (at 5 (at 3 (at 4 (at 2 e)))) store1 (Some (bytes_of key)) (Some v) ttl now =
      (MP_CACHE_STORE_STATUS_OK, store')"
    by (auto simp: mp_cache_store_set_def)
  have "same_data (server1\<lparr>server_store := store'\<rparr>) server2"
    by (rule handle_put_stores(1) [OF req(4) _ b64 _ _ _ set [unfolded store1_def] h])
      (use e ttl st(2) nonempty in \<open>auto simp: all_ok_at req(5)\<close>)
  with set_ok [OF sw(1) set] \<open>server' = server2\<close> show ?thesis
    by (simp add: same_data_def st(1))
qed


section \<open>The theorems\<close>



text \<open>A server just checkpointed, and a write to it.\<close>

lemma sample_logged:
  "\<exists>fs. logged sample_server fs 100 sample_store sample_security 100 [] \<and> map_of fs ''/d'' = Some Directory \<and>
     map_of fs ''/d/journal'' = None"
proof -
  obtain fs where cp: "mp_cache_storage_checkpoint zero_env sample_storage sample_fs sample_store sample_security 100 = (True, fs)"
    "map_of fs ''/d'' = Some Directory" "\<forall>p. p \<noteq> ''/d/state'' \<longrightarrow> map_of fs p = map_of sample_fs p"
    using sample_checkpoint [OF all_ok_zero_env] by (auto simp: zero_env_def good_env_def)
  then show ?thesis
    using logged_checkpoint [of zero_env sample_server sample_fs 100 fs] by (auto simp: sample_server_def sample_fs_def)
qed

definition sample_put :: mp_cache_http_request where
  "sample_put = zero_request\<lparr>request_method := ''PUT'', request_path := ''/v1/cache/k'', authorization_header := ''Bearer root'',
     request_body := Some (set_body [8] 60), request_body_length := 40\<rparr>"

lemma sample_admitted: "admitted sample_server ''root'' 200"
proof -
  have "mp_cache_security_authenticate sample_security (Some ''root'') =
      (MP_CACHE_SECURITY_STATUS_OK, Some \<lparr>principal_role = MP_CACHE_ROLE_ADMIN, principal_id = MP_CACHE_BOOTSTRAP_ADMIN_ID\<rparr>)"
    by (subst authenticate_find [OF sample_security_inv]) (simp_all add: bootstrap_matches_def sample_security_def)
  then show ?thesis
    by (simp add: admitted_def sample_server_def mp_cache_role_allows_def MP_CACHE_ROLE_ADMIN_def MP_CACHE_ROLE_CLIENT_def
        mp_cache_http_rate_limit_allow_def limit_index_def limit_add_subject_def limit_count_def Let_def env_simps
        mp_cache_config_init_defaults_def word_le_nat_alt)
qed

lemma sample_put_stored:
  assumes "map_of fs ''/d'' = Some Directory" "map_of fs ''/d/journal'' = None"
  shows "\<exists>response server' fs'. mp_cache_http_route_request (zero_env\<lparr>clock := (\<lambda>_. 200)\<rparr>) sample_server fs sample_put = (response, server', fs') \<and>
    status_code response = 200 \<and> store_abs (server_store server') (bytes_of ''k'') = Some ([8], 260)"
proof -
  define e where "e = zero_env\<lparr>clock := (\<lambda>_. 200)\<rparr>"
  have e: "all_ok e" "urandom e = (\<lambda>_. [ReadBytes (replicate 32 0)])" "mp_cache_http_now (at 0 e) = 200"
    using all_ok_zero_env by (simp_all add: e_def all_ok_def ok_def zero_env_def mp_cache_http_now_def at_def)
  define e1 where "e1 = at 3 (at 4 e)"
  have e1: "all_ok e1" "urandom e1 = (\<lambda>_. [ReadBytes (replicate 32 0)])"
    unfolding e1_def using e by (simp_all add: all_ok_at urandom_const_at)
  have sweep: "server_store (mp_cache_http_maybe_sweep sample_server 200) = sample_store"
    by (simp add: mp_cache_http_maybe_sweep_def sample_server_def mp_cache_store_purge_expired_def sample_store_def)
  obtain server1 where s1: "same_data (mp_cache_http_maybe_sweep sample_server 200) server1"
    "mp_cache_http_route_request e sample_server fs sample_put = mp_cache_http_handle_cache_put e1 server1 fs ''k'' sample_put 200"
    using route_put [of sample_put "''k''" "''root''" sample_server e fs] e sample_admitted
    by (auto simp: sample_put_def MP_CACHE_NAME_CAP_def e1_def)
  have d: "server_store server1 = sample_store" "server_storage server1 = sample_storage" "server_config server1 = mp_cache_config_init_defaults"
    using s1(1) sweep by (auto simp: same_data_def maybe_sweep_data sample_server_def)
  obtain store' where set: "mp_cache_store_set (at 5 e1) sample_store (Some (bytes_of ''k'')) (Some [8]) 60 200 = (MP_CACHE_STORE_STATUS_OK, store')"
    using write_entry_succeeds [OF sample_store_inv all_ok_at [OF e1(1)], of "bytes_of ''k''" "[8]" 5 260]
    by (auto simp: mp_cache_store_set_def sample_store_def store_size_def entry_size_def sizeof_entry_def)
  obtain response server' fs' where h: "mp_cache_http_handle_cache_put e1 server1 fs ''k'' sample_put 200 = (response, server', fs')"
    by (rule prod_cases3)
  obtain fs2 where ap: "append_record (at 8 e1) sample_storage fs (JSet (bytes_of ''k'') [8] 260) = (True, fs2)"
    using append_record_succeeds [OF all_ok_at [OF e1(1)] urandom_const_at [OF e1(2)], of 8 fs sample_storage "bytes_of ''k''" "[8]" 260]
      sample_parent [OF all_ok_at [OF all_ok_at [OF all_ok_at [OF e1(1)]]] assms(1), of "''/d/journal''" 0 2 8] assms(2)
    by (auto simp: sample_storage_def is_int64_def)
  have len: "length (base64_encode_loop [8]) < MP_CACHE_HTTP_BODY_CAPACITY"
    by (simp add: length_base64_encode_loop http_capacities)
  note put = handle_put_stores [of sample_put "[8]" 60 server1 e1 "''k''" 200 store' fs response server' fs', OF _ _ len _ _ e1(1) _ h,
      unfolded d, OF _ _ _ _ set]
  have "same_data (server1\<lparr>server_store := store'\<rparr>) server'" "status_code response = 200"
    using put ap by (simp_all add: sample_put_def mp_cache_config_init_defaults_def persist_def word_le_nat_alt)
  moreover have "store_abs store' (bytes_of ''k'') = Some ([8], 260)"
    using set_ok [OF sample_store_inv set] by simp
  ultimately show ?thesis
    using s1(2) h unfolding e_def by (auto simp: same_data_def)
qed



end
