(* ===== verification/Runtime.thy ===== *)
theory Runtime
  imports Http_Data
begin

text \<open>
  Model of \<^verbatim>\<open>internal/runtime/runtime.c\<close> and of the server's \<^verbatim>\<open>main\<close>: the process from its
  arguments to its exit status. Every step that can fail leads to the common cleanup with the
  components started so far. Log lines are not part of the state; the text printed on standard output is.
\<close>


section \<open>Signals\<close>

text \<open>The handler's effect on the stop flag, whatever the flag was.\<close>

definition mp_cache_runtime_signal_handler :: "int \<Rightarrow> bool \<Rightarrow> bool" where
  "mp_cache_runtime_signal_handler signal_number stop_requested = True"

definition mp_cache_runtime_register_signals :: "env \<Rightarrow> bool" where
  "mp_cache_runtime_register_signals e = (if \<not> ok 0 e then False else if \<not> ok 1 e then False else True)"


section \<open>The life of the process\<close>

text \<open>The components that have been started; \<open>None\<close> for the others.\<close>

record runtime_parts =
  part_store :: "mp_cache_store option"
  part_security :: "mp_cache_security option"
  part_storage :: "mp_cache_storage option"
  part_server :: "mp_cache_http_server option"

definition runtime_cleanup :: "env \<Rightarrow> mp_cache_config \<Rightarrow> filesystem \<Rightarrow> runtime_parts \<Rightarrow> filesystem" where
  "runtime_cleanup e config fs parts =
     (let fs1 = (case part_server parts of None \<Rightarrow> fs | Some server \<Rightarrow> snd (mp_cache_http_server_stop (at 0 e) server fs));
          fs2 = snd (mp_cache_fs_remove_path_if_exists (at 1 e) fs1 (Some (pid_file_path config)))
      in case (part_storage parts, part_store parts, part_security parts) of
           (Some storage, Some store, Some security) \<Rightarrow>
             snd (mp_cache_storage_checkpoint (at 2 e) storage fs2 store security (clock e [3]))
         | _ \<Rightarrow> fs2)"

text \<open>
  From the loaded state on: signals, the socket, the pid file and the accept loop. The result is
  the exit status, the file system and the started components for the cleanup.
\<close>

definition runtime_serve ::
  "env \<Rightarrow> mp_cache_config \<Rightarrow> filesystem \<Rightarrow> mp_cache_store \<Rightarrow> mp_cache_security \<Rightarrow> mp_cache_storage \<Rightarrow> int \<Rightarrow>
     serve_event list \<Rightarrow> nat \<times> filesystem \<times> runtime_parts" where
  "runtime_serve e config fs store security storage started_at events =
     (let parts = \<lparr>part_store = Some store, part_security = Some security, part_storage = Some storage, part_server = None\<rparr> in
      if \<not> mp_cache_runtime_register_signals (at 0 e) then (1, fs, parts)
      else
        (case mp_cache_http_server_start (at 1 e) fs config store security storage started_at of
           (None, fs1) \<Rightarrow> (1, fs1, parts)
         | (Some server, fs1) \<Rightarrow>
             (case mp_cache_fs_write_pid_file (at 2 e) fs1 (Some (pid_file_path config)) (getpid e) of
                (Inl _, fs2) \<Rightarrow> (1, fs2, parts\<lparr>part_server := Some server\<rparr>)
              | (Inr _, fs2) \<Rightarrow>
                  (case mp_cache_http_server_serve (at 3 e) server fs2 events of
                     (served, server', fs3, _) \<Rightarrow>
                       (if served then 0 else 1, fs3,
                        parts\<lparr>part_server := Some server', part_store := Some (server_store server'),
                              part_security := Some (server_security server')\<rparr>)))))"

text \<open>The start of the store, the registry, the storage and the load of the saved state.\<close>

definition runtime_start ::
  "env \<Rightarrow> mp_cache_config \<Rightarrow> filesystem \<Rightarrow> int \<Rightarrow> serve_event list \<Rightarrow> nat \<times> filesystem \<times> runtime_parts" where
  "runtime_start e config fs started_at events =
     (let none = \<lparr>part_store = None, part_security = None, part_storage = None, part_server = None\<rparr> in
      case mp_cache_store_init (at 0 e) config of
        None \<Rightarrow> (1, fs, none)
      | Some store \<Rightarrow>
          (case mp_cache_security_init (at 1 e) fs config of
             Inl _ \<Rightarrow> (1, fs, none\<lparr>part_store := Some store\<rparr>)
           | Inr security \<Rightarrow>
               (case mp_cache_storage_init (at 2 e) fs config of
                  Inl _ \<Rightarrow> (1, fs, none\<lparr>part_store := Some store, part_security := Some security\<rparr>)
                | Inr storage \<Rightarrow>
                    (case mp_cache_storage_load_state (at 3 e) storage fs store security started_at of
                       (False, store', security') \<Rightarrow>
                         (1, fs, none\<lparr>part_store := Some store', part_security := Some security', part_storage := Some storage\<rparr>)
                     | (True, store', security') \<Rightarrow>
                         runtime_serve (at 4 e) config fs store' security' storage started_at events))))"

definition runtime_directories :: "env \<Rightarrow> mp_cache_config \<Rightarrow> filesystem \<Rightarrow> bool \<times> filesystem" where
  "runtime_directories e config fs =
     (case mp_cache_fs_ensure_directory (at 0 e) fs (Some (log_directory config)) of
        (Inl _, fs1) \<Rightarrow> (False, fs1)
      | (Inr _, fs1) \<Rightarrow>
          (case mp_cache_fs_ensure_directory (at 1 e) fs1 (Some (data_directory config)) of
             (Inl _, fs2) \<Rightarrow> (False, fs2)
           | (Inr _, fs2) \<Rightarrow>
               (case mp_cache_fs_ensure_directory (at 2 e) fs2 (Some (export_directory config)) of
                  (Inl _, fs3) \<Rightarrow> (False, fs3)
                | (Inr _, fs3) \<Rightarrow>
                    (case mp_cache_fs_ensure_parent_directory (at 3 e) fs3 (Some (socket_path config)) of
                       (Inl _, fs4) \<Rightarrow> (False, fs4)
                     | (Inr _, fs4) \<Rightarrow>
                         (case mp_cache_fs_ensure_parent_directory (at 4 e) fs4 (Some (pid_file_path config)) of
                            (Inl _, fs5) \<Rightarrow> (False, fs5)
                          | (Inr _, fs5) \<Rightarrow> (True, fs5))))))"

text \<open>Exit status, file system and standard output.\<close>

definition mp_cache_runtime_run ::
  "env \<Rightarrow> ('c, 'l) mp_logger \<Rightarrow> filesystem \<Rightarrow> string ptr \<Rightarrow> bool \<Rightarrow> serve_event list \<Rightarrow> nat \<times> filesystem \<times> string" where
  "mp_cache_runtime_run e api fs config_path print_config_only events =
     (case config_path of
        None \<Rightarrow> (1, fs, [])
      | Some path \<Rightarrow>
          if path = [] then (1, fs, [])
          else
            (case mp_cache_config_load_file (at 0 e) fs (Some path) mp_cache_config_init_defaults of
               (config_status, config) \<Rightarrow>
                 if config_status \<noteq> MP_CACHE_CONFIG_STATUS_OK \<and> config_status \<noteq> MP_CACHE_CONFIG_STATUS_NOT_FOUND
                 then (1, fs, [])
                 else
                   (let fs1 = (if config_status = MP_CACHE_CONFIG_STATUS_NOT_FOUND
                               then snd (mp_cache_config_write_template (at 1 e) fs (Some path) config) else fs)
                    in if print_config_only then (0, fs1, mp_cache_config_print config (Some path))
                       else
                         (case runtime_directories (at 2 e) config fs1 of
                            (False, fs2) \<Rightarrow> (1, fs2, [])
                          | (True, fs2) \<Rightarrow>
                              (case mp_cache_log_init api config of
                                 None \<Rightarrow> (1, fs2, [])
                               | Some _ \<Rightarrow>
                                   (case runtime_start (at 3 e) config fs2 (clock e [4]) events of
                                      (exit_code, fs3, parts) \<Rightarrow> (exit_code, runtime_cleanup (at 5 e) config fs3 parts, [])))))))"


section \<open>The server's command line\<close>

definition mp_cache_server_print_usage :: string where
  "mp_cache_server_print_usage =
     ''usage: mp-cache-server [--config <path>] [--print-config]'' @ [LF] @
     ''default config path: configs/bootstrap.yaml'' @ [LF]"

datatype server_command = ServerUsageError | ServerHelp | ServerRun string bool

fun server_arguments :: "string list \<Rightarrow> string \<Rightarrow> bool \<Rightarrow> server_command" where
  "server_arguments [] config_path print_config_only = ServerRun config_path print_config_only"
| "server_arguments (arg # args) config_path print_config_only =
     (if arg = ''--config'' then
        (case args of
           [] \<Rightarrow> ServerUsageError
         | path # args' \<Rightarrow> server_arguments args' path print_config_only)
      else if arg = ''--print-config'' then server_arguments args config_path True
      else if arg = ''--help'' \<or> arg = ''-h'' then ServerHelp
      else ServerUsageError)"

definition mp_cache_server_main ::
  "env \<Rightarrow> ('c, 'l) mp_logger \<Rightarrow> filesystem \<Rightarrow> string list \<Rightarrow> serve_event list \<Rightarrow> nat \<times> filesystem \<times> string" where
  "mp_cache_server_main e api fs args events =
     (case server_arguments args ''configs/bootstrap.yaml'' False of
        ServerUsageError \<Rightarrow> (1, fs, [])
      | ServerHelp \<Rightarrow> (0, fs, mp_cache_server_print_usage)
      | ServerRun config_path print_config_only \<Rightarrow>
          mp_cache_runtime_run e api fs (Some config_path) print_config_only events)"


section \<open>The data over the life of the process\<close>

text \<open>What the parts hold at any exit is reached from the fresh components by their operations.\<close>

definition parts_reached :: "mp_cache_store \<Rightarrow> mp_cache_security \<Rightarrow> runtime_parts \<Rightarrow> bool" where
  "parts_reached store security parts \<longleftrightarrow>
     (\<forall>store'. part_store parts = Some store' \<longrightarrow> store_steps store store') \<and>
     (\<forall>security'. part_security parts = Some security' \<longrightarrow> security_steps security security')"

lemma server_start_data:
  assumes "mp_cache_http_server_start e fs config store security storage started_at = (Some server, fs')"
  shows "server_store server = store" "server_security server = security" "server_storage server = storage" "server_open server"
  using assms by (auto simp: mp_cache_http_server_start_def split: prod.splits sum.splits if_splits)

lemma serve_steps: "mp_cache_http_server_serve e server fs events = (result, server', fs', replies) \<Longrightarrow> data_steps server server'"
  by (auto simp: mp_cache_http_server_serve_def data_steps_def split: if_splits dest: serve_loop_steps [unfolded data_steps_def])

lemma runtime_serve_reached:
  assumes "runtime_serve e config fs store security storage started_at events = (exit_code, fs', parts)"
  shows "parts_reached store security parts"
proof -
  obtain started fs1 where st: "mp_cache_http_server_start (at 1 e) fs config store security storage started_at = (started, fs1)"
    by fastforce
  show ?thesis
  proof (cases started)
    case None
    with assms st show ?thesis by (auto simp: runtime_serve_def Let_def parts_reached_def split: if_splits)
  next
    case (Some server)
    note data = server_start_data [OF st [unfolded Some]]
    obtain pid fs2 where p: "mp_cache_fs_write_pid_file (at 2 e) fs1 (Some (pid_file_path config)) (getpid e) = (pid, fs2)" by fastforce
    obtain served server' fs3 replies where sv: "mp_cache_http_server_serve (at 3 e) server fs2 events = (served, server', fs3, replies)"
      by (metis surj_pair)
    from assms st Some p sv serve_steps [OF sv] data show ?thesis
      by (cases pid) (auto simp: runtime_serve_def Let_def parts_reached_def data_steps_def split: if_splits)
  qed
qed

lemma runtime_start_reached:
  assumes "runtime_start e config fs started_at events = (exit_code, fs', parts)"
  shows "case mp_cache_store_init (at 0 e) config of
      None \<Rightarrow> part_store parts = None \<and> part_security parts = None
    | Some store \<Rightarrow> part_store parts \<noteq> None \<and>
        (case mp_cache_security_init (at 1 e) fs config of
           Inl _ \<Rightarrow> part_store parts = Some store \<and> part_security parts = None
         | Inr security \<Rightarrow> part_security parts \<noteq> None \<and> parts_reached store security parts)"
proof (cases "mp_cache_store_init (at 0 e) config")
  case None
  with assms show ?thesis by (auto simp: runtime_start_def Let_def)
next
  case store: (Some store)
  show ?thesis
  proof (cases "mp_cache_security_init (at 1 e) fs config")
    case (Inl err)
    with assms store show ?thesis by (auto simp: runtime_start_def Let_def)
  next
    case security: (Inr security)
    show ?thesis
    proof (cases "mp_cache_storage_init (at 2 e) fs config")
      case (Inl err)
      with assms store security show ?thesis by (auto simp: runtime_start_def Let_def parts_reached_def)
    next
      case storage: (Inr storage)
      obtain loaded store' security' where
        l: "mp_cache_storage_load_state (at 3 e) storage fs store security started_at = (loaded, store', security')" by (rule prod_cases3)
      note steps = load_state_steps [OF l]
      show ?thesis
      proof (cases loaded)
        case False
        with assms store security storage l steps show ?thesis by (auto simp: runtime_start_def Let_def parts_reached_def)
      next
        case True
        with assms store security storage l have
          s: "runtime_serve (at 4 e) config fs store' security' storage started_at events = (exit_code, fs', parts)"
          by (simp add: runtime_start_def)
        have "part_store parts \<noteq> None" "part_security parts \<noteq> None"
          using s by (auto simp: runtime_serve_def Let_def split: if_splits prod.splits option.splits sum.splits)
        moreover have "parts_reached store security parts"
          using runtime_serve_reached [OF s] steps by (auto simp: parts_reached_def intro: rtranclp_trans)
        ultimately show ?thesis using store security by simp
      qed
    qed
  qed
qed


section \<open>The theorems\<close>

text \<open>
  Property C9. Over the whole life of the process the two tables stay well formed. Whatever the files
  hold that are loaded at the start, whatever requests arrive and whatever fails, at every exit the
  entries lie in their chains with no key twice, the counters are exact, the bytes used stay within the
  configured limit, and the registry has no client twice, only clients with valid ids and a role, no
  hash left of a revoked token and at most 1024 clients.
\<close>

theorem runtime_keeps_invariants:
  assumes "runtime_start e config fs started_at events = (exit_code, fs', parts)"
    and "unat (memory_limit_bytes config) \<le> 2 ^ 63"
  shows "(\<forall>store. part_store parts = Some store \<longrightarrow>
       store_inv store \<and> unat (bytes_used store) \<le> unat (memory_limit_bytes config)) \<and>
     (\<forall>security. part_security parts = Some security \<longrightarrow> security_inv security)"
proof -
  have used: "store_inv store' \<and> unat (bytes_used store') \<le> unat (memory_limit_bytes config)"
    if i: "mp_cache_store_init (at 0 e) config = Some store" and s: "store_steps store store'" for store store'
  proof -
    have "store_memory_limit store = memory_limit_bytes config"
      using i by (auto simp: mp_cache_store_init_def split: if_splits)
    with store_steps_facts [OF s init_inv(1) [OF i assms(2)]] have inv: "store_inv store'"
      and "store_memory_limit store' = memory_limit_bytes config"
      by (auto simp: same_limits_def)
    with store_inv_bytes_used [OF inv] show ?thesis by (simp add: store_inv_def)
  qed
  from runtime_start_reached [OF assms(1)] show ?thesis
    using used security_run.run_keeps [OF _ security_init_inv]
    by (auto simp: parts_reached_def split: option.splits sum.splits)
qed

theorem runtime_keeps_invariants_witness:
  "\<exists>exit_code fs' parts store security. runtime_start (good_env\<lparr>environ := (\<lambda>_. Some ''s3cret'')\<rparr>) mp_cache_config_init_defaults
       sample_fs 100 [PollTimeout, Accepted [Received ''hello''] []] = (exit_code, fs', parts) \<and>
     part_store parts = Some store \<and> store_inv store \<and> part_security parts = Some security \<and> security_inv security"
proof -
  let ?e = "good_env\<lparr>environ := (\<lambda>_. Some ''s3cret'')\<rparr>"
  obtain exit_code fs' parts where r: "runtime_start ?e mp_cache_config_init_defaults sample_fs 100
      [PollTimeout, Accepted [Received ''hello''] []] = (exit_code, fs', parts)" by (rule prod_cases3)
  have "mp_cache_store_init (at 0 ?e) mp_cache_config_init_defaults \<noteq> None"
    by (simp add: mp_cache_store_init_def mp_cache_config_init_defaults_def ok_def at_def good_env_def)
  moreover have "\<exists>security. mp_cache_security_init (at 1 ?e) sample_fs mp_cache_config_init_defaults = Inr security"
    by (simp add: mp_cache_security_init_def mp_cache_secret_resolve_def mp_cache_config_init_defaults_def starts_with_def
        mp_cache_copy_string_def snprintf_s_def MP_CACHE_SECRET_REF_CAP_def at_def)
  ultimately have "part_store parts \<noteq> None" "part_security parts \<noteq> None"
    using runtime_start_reached [OF r] by (auto split: option.splits)
  with runtime_keeps_invariants [OF r] r show ?thesis
    by (auto simp: mp_cache_config_init_defaults_def)
qed


text \<open>
  Property C37. A load that fails does not leave the files alone. The process exits with status 1, but its
  cleanup runs the final checkpoint on what had been loaded up to the error: when that succeeds, the
  checkpoint is replaced by this partial state and the journal, with all its readable records, is
  removed.
\<close>

theorem failed_load_discards_journal:
  assumes init: "mp_cache_store_init (at 0 e) config = Some store" "mp_cache_security_init (at 1 e) fs config = Inr security"
      "mp_cache_storage_init (at 2 e) fs config = Inr storage"
    and load: "mp_cache_storage_load_state (at 3 e) storage fs store security started_at = (False, store', security')"
    and saved: "fst (mp_cache_storage_checkpoint (at 2 e') storage
      (snd (mp_cache_fs_remove_path_if_exists (at 1 e') fs (Some (pid_file_path config)))) store' security' (clock e' [3]))"
    and paths: "paths_distinct storage"
  shows "case runtime_start e config fs started_at events of (exit_code, fs1, parts) \<Rightarrow>
    exit_code = 1 \<and> map_of (runtime_cleanup e' config fs1 parts) (storage_journal_path storage) = None \<and>
    (\<exists>nonce. file_contents (runtime_cleanup e' config fs1 parts) (storage_checkpoint_path storage) =
       Some (packet_bytes storage MP_CACHE_STORAGE_STATE_MAGIC nonce (state_bytes store' security' (clock e' [3]))))"
proof -
  obtain fs2 where cp: "mp_cache_storage_checkpoint (at 2 e') storage
      (snd (mp_cache_fs_remove_path_if_exists (at 1 e') fs (Some (pid_file_path config)))) store' security' (clock e' [3]) = (True, fs2)"
    using saved by (metis prod.collapse)
  define parts where "parts = \<lparr>part_store = Some store', part_security = Some security', part_storage = Some storage, part_server = None\<rparr>"
  have "runtime_start e config fs started_at events = (1, fs, parts)"
    using init load by (simp add: runtime_start_def Let_def parts_def)
  moreover have "runtime_cleanup e' config fs parts = fs2"
    using cp by (simp add: runtime_cleanup_def Let_def parts_def)
  ultimately show ?thesis
    using checkpoint_result(1,2) [OF cp paths] by auto
qed

lemma checkpoint_succeeds:
  assumes e: "all_ok e" "urandom e = (\<lambda>_. [ReadBytes (replicate 32 0)])"
    and parent: "mp_cache_fs_ensure_parent_directory (at 0 (at 1 e)) fs (Some (storage_checkpoint_path storage)) = (Inr (), fs)"
    and temp: "length (temp_path (at 1 e) (storage_checkpoint_path storage)) < MP_CACHE_PATH_CAP"
      "map_of fs (temp_path (at 1 e) (storage_checkpoint_path storage)) = None"
    and nodes: "map_of fs (storage_checkpoint_path storage) \<notin> {Some Directory, Some Socket}"
      "map_of fs (storage_journal_path storage) \<noteq> Some Directory" "storage_journal_path storage \<noteq> storage_checkpoint_path storage"
      "storage_journal_path storage \<noteq> []"
    and len: "length (state_bytes store security now) \<le> unat (max_packet_bytes storage)" "length (state_bytes store security now) < 2 ^ 63"
  shows "fst (mp_cache_storage_checkpoint e storage fs store security now)"
proof -
  obtain buffer where ser: "mp_cache_storage_serialize_state (at 0 e) store security now empty_buffer = (True, buffer)"
    using serialize_state_succeeds [OF all_ok_at [OF e(1)], of store security now 0] len(2) by (auto simp: SIZE_MAX_def)
  obtain mac fs1 where w: "mp_cache_storage_write_packet_file (at 1 e) storage fs (storage_checkpoint_path storage)
      MP_CACHE_STORAGE_STATE_MAGIC (buffer_data buffer) = (Inr mac, fs1)" "\<forall>p. p \<noteq> storage_checkpoint_path storage \<longrightarrow> map_of fs1 p = map_of fs p"
    using write_packet_file_succeeds [OF all_ok_at [OF e(1)] urandom_const_at [OF e(2)] parent temp nodes(1) len,
        of MP_CACHE_STORAGE_STATE_MAGIC] serialized_data [OF ser] by auto
  have "\<exists>fs2. mp_cache_fs_remove_path_if_exists (at 2 e) fs1 (Some (storage_journal_path storage)) = (Inr (), fs2)"
    using w(2) nodes(2-4) e(1) by (auto simp: mp_cache_fs_remove_path_if_exists_def posix_unlink_def env_simps split: option.splits node.splits)
  with ser w(1) show ?thesis
    by (auto simp: mp_cache_storage_checkpoint_def)
qed


definition torn_config :: mp_cache_config where
  "torn_config = mp_cache_config_init_defaults\<lparr>checkpoint_path := ''/d/state'', journal_path := ''/d/journal'',
     export_directory := ''/d/exports'', pid_file_path := ''/d/pid''\<rparr>"

theorem failed_load_discards_journal_witness:
  "case runtime_start (zero_env\<lparr>environ := (\<lambda>_. Some ''s3cret'')\<rparr>) torn_config
       [(''/d'', Directory), (''/d/journal'', RegularFile [1])] 100 [] of (exit_code, fs1, parts) \<Rightarrow>
     exit_code = 1 \<and> map_of (runtime_cleanup zero_env torn_config fs1 parts) ''/d/journal'' = None"
proof -
  define e where "e = zero_env\<lparr>environ := (\<lambda>_. Some ''s3cret'')\<rparr>"
  define fs where "fs = [(''/d'', Directory), (''/d/journal'', RegularFile [1 :: byte])]"
  have e: "all_ok e"
    using all_ok_zero_env by (simp add: e_def all_ok_def)
  obtain store where store: "mp_cache_store_init (at 0 e) torn_config = Some store"
    using all_ok_at [OF e] by (simp add: mp_cache_store_init_def torn_config_def mp_cache_config_init_defaults_def env_simps)
  obtain security where security: "mp_cache_security_init (at 1 e) fs torn_config = Inr security"
    by (simp add: mp_cache_security_init_def mp_cache_secret_resolve_def torn_config_def mp_cache_config_init_defaults_def starts_with_def
        mp_cache_copy_string_def snprintf_s_def MP_CACHE_SECRET_REF_CAP_def at_def e_def)
  obtain storage where storage: "mp_cache_storage_init (at 2 e) fs torn_config = Inr storage"
    "storage_checkpoint_path storage = ''/d/state''" "storage_journal_path storage = ''/d/journal''"
    "unat (max_packet_bytes storage) \<ge> 1000"
    by (auto simp: mp_cache_storage_init_def mp_cache_secret_resolve_def torn_config_def mp_cache_config_init_defaults_def starts_with_def
        mp_cache_copy_string_def snprintf_s_def MP_CACHE_SECRET_REF_CAP_def at_def e_def mp_cache_storage_format_path_def MP_CACHE_PATH_CAP_def
        MP_CACHE_STORAGE_MAX_PACKET_OVERHEAD_BYTES_def)
  define store' where "store' = mp_cache_store_clear store"
  define security' where "security' = mp_cache_security_clear_clients security"
  have load: "mp_cache_storage_load_state (at 3 e) storage fs store security 100 = (False, store', security')"
    using all_ok_at [OF e]
    by (simp add: mp_cache_storage_load_state_def Let_def mp_cache_storage_read_packet_file_def posix_open_read_def storage(2,3) fs_def
        replay_journal.simps mp_cache_storage_read_packet_stream_def mp_cache_storage_read_exact_def
        MP_CACHE_STORAGE_PACKET_HEADER_SIZE_def env_simps store'_def security'_def)
  have len: "length (state_bytes store' security' 0) = 20"
    by (simp add: state_bytes_def live_entries_def store'_def security'_def mp_cache_store_clear_def mp_cache_security_clear_clients_def)
  have gone: "snd (mp_cache_fs_remove_path_if_exists (at 1 zero_env) fs (Some (pid_file_path torn_config))) = fs"
    by (simp add: mp_cache_fs_remove_path_if_exists_def posix_unlink_def fs_def torn_config_def)
  have "fst (mp_cache_storage_checkpoint (at 2 zero_env) storage fs store' security' 0)"
    by (rule checkpoint_succeeds [OF all_ok_at [OF all_ok_zero_env] urandom_const_at [OF urandom_zero_env]])
      (use storage(2-4) len sample_parent [OF all_ok_at [OF all_ok_at [OF all_ok_at [OF all_ok_zero_env]]], of fs] in
        \<open>simp_all add: fs_def temp_path_def MP_CACHE_PATH_CAP_def at_def zero_env_def good_env_def print_int_def print_nat.simps\<close>)
  moreover have "clock zero_env [3] = 0"
    by (simp add: zero_env_def good_env_def)
  moreover have "paths_distinct storage"
    by (simp add: paths_distinct_def storage(2,3) temp_path_def)
  ultimately show ?thesis
    using failed_load_discards_journal [OF store security storage(1) load, of zero_env "[]"] gone storage(3)
    unfolding e_def [symmetric] fs_def [symmetric] by (auto split: prod.splits)
qed

end
