(* ===== verification/Http_Reply.thy ===== *)
theory Http_Reply
  imports Http_Guard
begin

text \<open>
  What goes out on a connection: the header of every response the handlers build fits the header
  buffer, a response is sent whole to a peer that keeps reading, and the accept loop answers every
  connection with exactly one response.
\<close>


section \<open>Sending everything\<close>

text \<open>A peer that keeps reading: every call takes something or is interrupted.\<close>

fun accepts :: "send_result \<Rightarrow> bool" where
  "accepts (Sent count) = (0 < count)"
| "accepts SendIntr = True"
| "accepts SendError = False"

lemma send_all_complete:
  "list_all accepts sends \<Longrightarrow> \<exists>sends'. mp_cache_http_send_all sends buffer = (True, buffer, sends') \<and> list_all accepts sends'"
proof (induction sends arbitrary: buffer)
  case (Cons s sends)
  show ?case
  proof (cases s)
    case (Sent count)
    from Cons.IH [of "drop count buffer"] Cons.prems Sent show ?thesis by auto
  qed (use Cons in auto)
qed simp


section \<open>The header of every response fits its buffer\<close>

abbreviation opt_length :: "string option \<Rightarrow> nat" where
  "opt_length str \<equiv> (case str of None \<Rightarrow> 0 | Some s \<Rightarrow> length s)"

definition small_head :: "mp_cache_http_response \<Rightarrow> bool" where
  "small_head response \<longleftrightarrow> 200 \<le> status_code response \<and> status_code response < 600 \<and> length (status_text response) \<le> 32 \<and>
     opt_length (allow_header_value response) \<le> 32 \<and> opt_length (extra_headers response) \<le> 64"

lemma small_make_error [simp]:
  "small_head (mp_cache_http_make_error e code reason c m allow extra) \<longleftrightarrow>
     200 \<le> code \<and> code < 600 \<and> length reason \<le> 32 \<and> opt_length allow \<le> 32 \<and> opt_length extra \<le> 64"
  by (simp add: mp_cache_http_make_error_def small_head_def Let_def)

lemma small_unauthorized [simp]: "small_head (unauthorized_response e m)"
  by (simp add: unauthorized_response_def json_text_def)

lemma small_ok [simp]: "small_head \<lparr>status_code = 200, status_text = ''OK'', response_body = b, allow_header_value = None, extra_headers = None\<rparr>"
  by (simp add: small_head_def)

lemma authenticate_small:
  "mp_cache_http_authenticate e server request role now = (Inl response, server') \<Longrightarrow> small_head response"
  by (auto simp: mp_cache_http_authenticate_def Let_def split: option.splits if_splits prod.splits mp_cache_security_status.splits bool.splits)

lemma get_small: "small_head (fst (mp_cache_http_handle_cache_get e server key now))"
  by (auto simp: mp_cache_http_handle_cache_get_def Let_def split: prod.splits sum.splits)

lemma put_small: "small_head (fst (mp_cache_http_handle_cache_put e server fs key request now))"
  by (auto simp: mp_cache_http_handle_cache_put_def Let_def split: prod.splits sum.splits option.splits bool.splits)

lemma delete_small: "small_head (fst (mp_cache_http_handle_cache_delete e server fs key now))"
  by (auto simp: mp_cache_http_handle_cache_delete_def Let_def split: prod.splits bool.splits)

lemma logs_small: "small_head (fst (mp_cache_http_handle_logs e server fs request))"
  by (auto simp: mp_cache_http_handle_logs_def split: prod.splits sum.splits option.splits errno.splits)

lemma register_small: "small_head (fst (mp_cache_http_handle_register_client e server fs request now))"
  by (auto simp: mp_cache_http_handle_register_client_def Let_def split: prod.splits sum.splits bool.splits)

lemma rotate_small: "small_head (fst (mp_cache_http_handle_rotate_client e server fs cid now))"
  by (auto simp: mp_cache_http_handle_rotate_client_def Let_def split: prod.splits bool.splits)

lemma invalidate_small: "small_head (fst (mp_cache_http_handle_invalidate_client e server fs cid now))"
  by (auto simp: mp_cache_http_handle_invalidate_client_def Let_def split: prod.splits bool.splits)

lemma export_small: "small_head (fst (mp_cache_http_handle_export e server fs now))"
  by (auto simp: mp_cache_http_handle_export_def split: prod.splits option.splits)

lemma import_small: "small_head (fst (mp_cache_http_handle_import e server fs request now))"
  by (auto simp: mp_cache_http_handle_import_def Let_def split: prod.splits sum.splits)

lemma purge_all_small: "small_head (fst (mp_cache_http_handle_purge_all e server fs now))"
  by (auto simp: mp_cache_http_handle_purge_all_def Let_def split: prod.splits bool.splits)

lemma purge_selected_small: "small_head (fst (mp_cache_http_handle_purge_selected e server fs request now))"
  by (auto simp: mp_cache_http_handle_purge_selected_def Let_def split: prod.splits sum.splits bool.splits)

lemmas handlers_small = get_small put_small delete_small logs_small register_small rotate_small invalidate_small export_small
  import_small purge_all_small purge_selected_small

lemma guarded_small:
  assumes "length verb \<le> 32" "\<And>e' server'. small_head (fst (handler e' server'))"
  shows "small_head (fst (guarded e server fs request verb role now handler))"
  using assms by (auto simp: guarded_def split: prod.splits sum.splits dest: authenticate_small)

lemma route_admin_small: "small_head (fst (route_admin e server fs request now))"
  by (auto simp: route_admin_def Let_def intro!: guarded_small handlers_small)

lemma route_cache_small: "small_head (fst (route_cache e server fs request now))"
  by (auto simp: route_cache_def Let_def handlers_small split: prod.splits sum.splits dest: authenticate_small)

lemma route_request_small: "small_head (fst (mp_cache_http_route_request e server fs request))"
  by (auto simp: mp_cache_http_route_request_def Let_def mp_cache_http_handle_root_def mp_cache_http_handle_uptime_def checked_client_id_def
      route_cache_small route_admin_small handlers_small split: option.splits intro!: guarded_small)


abbreviation opt_text :: "string option \<Rightarrow> string" where
  "opt_text str \<equiv> (case str of None \<Rightarrow> [] | Some s \<Rightarrow> s)"

lemma response_header_fits:
  assumes "small_head response" "length (opt_text (response_body response)) < 2 ^ 64"
  shows "length (response_header response) < MP_CACHE_HTTP_HEADER_CAPACITY"
proof -
  have "length (print_nat (status_code response)) \<le> 3"
    using assms(1) by (intro length_print_nat) (simp_all add: small_head_def)
  moreover have "length (print_nat (opt_length (response_body response))) \<le> 20"
    using assms(2) by (intro length_print_nat) (simp_all split: option.splits)
  ultimately show ?thesis
    using assms(1) by (simp add: response_header_def small_head_def http_capacities MP_CACHE_HTTP_CONTENT_TYPE_JSON_def split: option.splits)
qed

lemma write_response_complete:
  assumes "small_head response" "length (opt_text (response_body response)) < 2 ^ 64" "list_all accepts sends"
  shows "mp_cache_http_write_response sends response = (True, response_header response @ opt_text (response_body response))"
proof -
  from send_all_complete [OF assms(3), of "response_header response"] obtain sends' where
    s: "mp_cache_http_send_all sends (response_header response) = (True, response_header response, sends')" "list_all accepts sends'"
    by blast
  have "\<exists>sends''. mp_cache_http_send_all sends' body = (True, body, sends'')" for body
    using send_all_complete [OF s(2)] by blast
  with response_header_fits [OF assms(1,2)] s(1) show ?thesis
    by (auto simp: mp_cache_http_write_response_def split: option.splits prod.splits)
      (metis Pair_inject)+
qed


section \<open>Every connection is answered\<close>

definition response_text :: "mp_cache_http_response \<Rightarrow> string" where
  "response_text response = response_header response @ opt_text (response_body response)"

text \<open>The response a connection calls for, and those of a run of the loop, in order.\<close>

definition client_response ::
  "env \<Rightarrow> recv_result list \<Rightarrow> mp_cache_http_server \<Rightarrow> filesystem \<Rightarrow> mp_cache_http_response" where
  "client_response e recvs server fs =
     (case mp_cache_http_read_request (at 0 e) recvs MP_CACHE_HTTP_REQUEST_CAPACITY of
        Inl _ \<Rightarrow> bad_request (at 1 e) ''malformed request''
      | Inr request \<Rightarrow> fst (mp_cache_http_route_request (at 2 e) server fs request))"

fun responses :: "env \<Rightarrow> nat \<Rightarrow> mp_cache_http_server \<Rightarrow> filesystem \<Rightarrow> serve_event list \<Rightarrow> mp_cache_http_response list" where
  "responses e n server fs [] = []"
| "responses e n server fs (Accepted recvs sends # events) =
     client_response (at n e) recvs server fs #
     (case mp_cache_http_handle_client (at n e) recvs sends server fs of
        (_, server', fs') \<Rightarrow> responses e (Suc n) server' fs' events)"
| "responses e n server fs (_ # events) = responses e (Suc n) server fs events"

lemma client_response_small: "small_head (client_response e recvs server fs)"
  using route_request_small by (simp add: client_response_def split: sum.splits)

lemma handle_client_reply:
  assumes "list_all accepts sends" "length (opt_text (response_body (client_response e recvs server fs))) < 2 ^ 64"
  shows "fst (mp_cache_http_handle_client e recvs sends server fs) = response_text (client_response e recvs server fs)"
proof -
  have "fst (mp_cache_http_handle_client e recvs sends server fs) =
      snd (mp_cache_http_write_response sends (client_response e recvs server fs))"
    by (auto simp: mp_cache_http_handle_client_def client_response_def split: sum.splits prod.splits)
  with write_response_complete [OF client_response_small assms(2,1)] show ?thesis
    by (simp add: response_text_def)
qed

fun undisturbed :: "serve_event \<Rightarrow> bool" where
  "undisturbed PollError = False"
| "undisturbed AcceptError = False"
| "undisturbed (Accepted recvs sends) = list_all accepts sends"
| "undisturbed _ = True"

fun connections :: "serve_event list \<Rightarrow> nat" where
  "connections [] = 0"
| "connections (Accepted recvs sends # events) = Suc (connections events)"
| "connections (_ # events) = connections events"

lemma length_responses: "length (responses e n server fs events) = connections events"
  by (induction e n server fs events rule: responses.induct) (auto split: prod.splits)

lemma serve_loop_answers:
  assumes "list_all undisturbed events"
    and "\<forall>response \<in> set (responses e n server fs events). length (opt_text (response_body response)) < 2 ^ 64"
  shows "\<exists>server' fs'. serve_loop e n server fs events = (True, server', fs', map response_text (responses e n server fs events))"
  using assms
proof (induction events arbitrary: n server fs)
  case (Cons event events)
  show ?case
  proof (cases event)
    case (Accepted recvs sends)
    obtain reply server1 fs1 where h: "mp_cache_http_handle_client (at n e) recvs sends server fs = (reply, server1, fs1)"
      by (rule prod_cases3)
    have "reply = response_text (client_response (at n e) recvs server fs)"
      using handle_client_reply [of sends "at n e" recvs server fs] h Cons.prems Accepted by simp
    with Cons.IH [of "Suc n" server1 fs1] Cons.prems Accepted h show ?thesis
      by auto
  qed (use Cons in auto)
qed simp


section \<open>The theorem\<close>



end
