(* ===== verification/Cachectl.thy ===== *)
theory Cachectl
  imports Http_Data Http_Reply
begin

text \<open>
  Model of \<^verbatim>\<open>cmd/mp-cachectl/main.c\<close>: the command line is mapped to one HTTP request, which
  the client of \<^verbatim>\<open>http_server.c\<close> sends.
\<close>


definition MP_CACHE_CONTROL_CLI_REQUEST_BODY_CAPACITY :: nat where
  "MP_CACHE_CONTROL_CLI_REQUEST_BODY_CAPACITY = 4096"

text \<open>The same escaping as the server's, in a buffer of its own.\<close>

definition mp_cachectl_escape_json :: "env \<Rightarrow> string ptr \<Rightarrow> string option" where
  "mp_cachectl_escape_json e str =
     (case str of None \<Rightarrow> None | Some s \<Rightarrow> if ok 0 e then Some (json_escape_text s) else None)"

definition mp_cachectl_print_usage :: string where
  "mp_cachectl_print_usage =
     concat (map (\<lambda>line. line @ [LF])
       [''usage: mp-cachectl [--socket <path>] [--token <token>] <command> [args]'',
        ''default socket path: $MP_SOCKET_PATH or .tmp/run/mp-cache.sock'', ''commands:'', ''  health'', ''  get <key>'',
        ''  set <key> <value> [--ttl <seconds>]'', ''  delete <key>'', ''  stats'', ''  uptime'', ''  logs [--tail <lines>]'',
        ''  register-client <client_id> <role>'', ''  rotate-client <client_id>'', ''  invalidate-client <client_id>'',
        ''  export'', ''  import <path>'', ''  purge-keys <key> [<key> ...]'', ''  purge-all''])"

text \<open>
  What the command line asks for: a request with method, path and body, the health request, or an
  error exit with its message on standard error.
\<close>

datatype cachectl_action =
    CtlUsage
  | CtlFailed string
  | CtlHealth
  | CtlRequest string string "string ptr"

text \<open>The options before the command: socket path, token, and the rest of the line.\<close>

fun cachectl_options :: "string list \<Rightarrow> string \<Rightarrow> string ptr \<Rightarrow> (string \<times> string ptr \<times> string list) option" where
  "cachectl_options [] sock tok = Some (sock, tok, [])"
| "cachectl_options (arg # args) sock tok =
     (if arg = ''--socket'' then
        (case args of [] \<Rightarrow> None | path # args' \<Rightarrow> cachectl_options args' path tok)
      else if arg = ''--token'' then
        (case args of [] \<Rightarrow> None | t # args' \<Rightarrow> cachectl_options args' sock (Some t))
      else Some (sock, tok, arg # args))"

definition cache_path :: "string \<Rightarrow> string" where
  "cache_path key = snprintf_s MP_CACHE_HTTP_PATH_CAPACITY (''/v1/cache/'' @ key)"

text \<open>The options of \<open>set\<close>; \<open>strtoul\<close>'s value is cut to 32 bits.\<close>

fun set_options :: "string list \<Rightarrow> u32 option \<Rightarrow> u32 option option" where
  "set_options [] ttl = Some ttl"
| "set_options (arg # args) ttl =
     (if arg = ''--ttl'' then
        (case args of [] \<Rightarrow> None | v # args' \<Rightarrow> set_options args' (Some (ucast (fst (strtoul v)))))
      else None)"

definition cachectl_set :: "env \<Rightarrow> string list \<Rightarrow> cachectl_action" where
  "cachectl_set e args =
     (case args of
        key # cache_value_text # options \<Rightarrow>
          (case set_options options None of
             None \<Rightarrow> CtlUsage
           | Some ttl \<Rightarrow>
               (case (if ok 0 e then mp_cache_base64_encode (bytes_of cache_value_text)
                        (((length cache_value_text + 2) div 3) * 4 + 1) else Inl ENOMEM) of
                  Inl _ \<Rightarrow> CtlFailed ''error: failed to encode value''
                | Inr encoded \<Rightarrow>
                    CtlRequest ''PUT'' (cache_path key)
                      (Some (snprintf_s MP_CACHE_CONTROL_CLI_REQUEST_BODY_CAPACITY
                        (case ttl of
                           None \<Rightarrow> json_object [(''value_base64'', json_text encoded)]
                         | Some seconds \<Rightarrow>
                             json_object [(''value_base64'', json_text encoded), (''ttl_seconds'', json_u32 seconds)])))))
      | _ \<Rightarrow> CtlUsage)"

text \<open>Bodies in exactly sized heap buffers.\<close>

abbreviation build_failed :: cachectl_action where
  "build_failed \<equiv> CtlFailed ''error: failed to build request body''"

definition cachectl_register_client :: "env \<Rightarrow> string list \<Rightarrow> cachectl_action" where
  "cachectl_register_client e args =
     (case args of
        cid # role # _ \<Rightarrow>
          (case (mp_cachectl_escape_json (at 0 e) (Some cid), mp_cachectl_escape_json (at 1 e) (Some role)) of
             (Some client_id_json, Some role_json) \<Rightarrow>
               if \<not> ok 2 e then build_failed
               else CtlRequest ''POST'' ''/v1/clients''
                 (Some (json_object [(''client_id'', json_text client_id_json), (''role'', json_text role_json)]))
           | _ \<Rightarrow> build_failed)
      | _ \<Rightarrow> CtlUsage)"

definition cachectl_import :: "env \<Rightarrow> string list \<Rightarrow> cachectl_action" where
  "cachectl_import e args =
     (case args of
        [] \<Rightarrow> CtlUsage
      | path # _ \<Rightarrow>
          (case mp_cachectl_escape_json (at 0 e) (Some path) of
             None \<Rightarrow> build_failed
           | Some import_path_json \<Rightarrow>
               if \<not> ok 1 e then build_failed
               else CtlRequest ''POST'' ''/v1/import'' (Some (json_object [(''path'', json_text import_path_json)]))))"

text \<open>
  The purge body, in a buffer whose capacity is computed first; the loop checks that each piece fits.
\<close>

fun purge_body_loop :: "env \<Rightarrow> nat \<Rightarrow> string list \<Rightarrow> string \<Rightarrow> bool \<Rightarrow> string option" where
  "purge_body_loop e capacity [] body is_first_key = Some body"
| "purge_body_loop e capacity (key # keys) body is_first_key =
     (case mp_cachectl_escape_json (at (length keys) e) (Some key) of
        None \<Rightarrow> None
      | Some escaped_key \<Rightarrow>
          (let piece = (if is_first_key then [] else '','') @ json_text escaped_key in
           if length piece \<ge> capacity - length body then None
           else purge_body_loop e capacity keys (body @ piece) False))"

definition cachectl_purge_keys :: "env \<Rightarrow> string list \<Rightarrow> cachectl_action" where
  "cachectl_purge_keys e args =
     (if args = [] then CtlUsage
      else
        (let capacity = 16 + sum_list (map (\<lambda>key. length key * MP_CACHE_JSON_ESCAPE_EXPANSION + 4) args) in
         if \<not> ok 0 e then build_failed
         else
           (case purge_body_loop (at 1 e) capacity args (''{'' @ json_text ''keys'' @ '':['') True of
              None \<Rightarrow> build_failed
            | Some body \<Rightarrow>
                if length body + 2 \<ge> capacity then build_failed
                else CtlRequest ''POST'' ''/v1/purge/keys'' (Some (body @ '']}'')))))"

definition client_path :: "string \<Rightarrow> string \<Rightarrow> string" where
  "client_path cid suffix = snprintf_s MP_CACHE_HTTP_PATH_CAPACITY (''/v1/clients/'' @ cid @ suffix)"

definition cachectl_command :: "env \<Rightarrow> string \<Rightarrow> string list \<Rightarrow> cachectl_action" where
  "cachectl_command e cli_command args =
     (if cli_command = ''health'' then CtlHealth
      else if cli_command = ''get'' then
        (case args of [] \<Rightarrow> CtlUsage | key # _ \<Rightarrow> CtlRequest ''GET'' (cache_path key) None)
      else if cli_command = ''set'' then cachectl_set e args
      else if cli_command = ''delete'' then
        (case args of [] \<Rightarrow> CtlUsage | key # _ \<Rightarrow> CtlRequest ''DELETE'' (cache_path key) None)
      else if cli_command = ''stats'' then CtlRequest ''GET'' ''/v1/stats'' None
      else if cli_command = ''uptime'' then CtlRequest ''GET'' ''/v1/uptime'' None
      else if cli_command = ''logs'' then
        (case args of
           arg # lines # _ \<Rightarrow>
             CtlRequest ''GET''
               (if arg = ''--tail'' then snprintf_s MP_CACHE_HTTP_PATH_CAPACITY (''/v1/logs?tail='' @ lines)
                else ''/v1/logs'') None
         | _ \<Rightarrow> CtlRequest ''GET'' ''/v1/logs'' None)
      else if cli_command = ''register-client'' then cachectl_register_client e args
      else if cli_command = ''rotate-client'' then
        (case args of [] \<Rightarrow> CtlUsage | cid # _ \<Rightarrow> CtlRequest ''POST'' (client_path cid ''/rotate-token'') (Some ''{}''))
      else if cli_command = ''invalidate-client'' then
        (case args of [] \<Rightarrow> CtlUsage | cid # _ \<Rightarrow> CtlRequest ''POST'' (client_path cid ''/invalidate-token'') (Some ''{}''))
      else if cli_command = ''export'' then CtlRequest ''POST'' ''/v1/export'' (Some ''{}'')
      else if cli_command = ''import'' then cachectl_import e args
      else if cli_command = ''purge-keys'' then cachectl_purge_keys e args
      else if cli_command = ''purge-all'' then CtlRequest ''POST'' ''/v1/purge/all'' (Some ''{}'')
      else CtlUsage)"

definition mp_cachectl_send_http_request ::
  "env \<Rightarrow> send_result list \<Rightarrow> recv_result \<Rightarrow> string \<Rightarrow> string \<Rightarrow> string \<Rightarrow> string ptr \<Rightarrow> string ptr \<Rightarrow>
     unit result \<times> string \<times> string" where
  "mp_cachectl_send_http_request e sends reply sock verb path tok body =
     mp_cache_http_client_request e sends reply (Some sock) (Some verb) (Some path) tok
       (Some MP_CACHE_HTTP_CONTENT_TYPE_JSON) (Some (case body of None \<Rightarrow> [] | Some b \<Rightarrow> b))"

text \<open>Exit status, the bytes sent to the socket, and standard output.\<close>

definition mp_cachectl_main ::
  "env \<Rightarrow> send_result list \<Rightarrow> recv_result \<Rightarrow> string list \<Rightarrow> nat \<times> string \<times> string" where
  "mp_cachectl_main e sends reply args =
     (let default_socket = (case environ e ''MP_SOCKET_PATH'' of
                              None \<Rightarrow> ''.tmp/run/mp-cache.sock''
                            | Some path \<Rightarrow> if path = [] then ''.tmp/run/mp-cache.sock'' else path);
          finish = (\<lambda>(status, sent, printed). (case status of Inl _ \<Rightarrow> 1 | Inr _ \<Rightarrow> 0, sent, printed))
      in case cachectl_options args default_socket (environ e ''MP_CACHE_TOKEN'') of
           None \<Rightarrow> (1, [], [])
         | Some (_, _, []) \<Rightarrow> (1, [], [])
         | Some (sock, tok, cli_command # args') \<Rightarrow>
             (case cachectl_command (at 0 e) cli_command args' of
                CtlUsage \<Rightarrow> (1, [], [])
              | CtlFailed _ \<Rightarrow> (1, [], [])
              | CtlHealth \<Rightarrow> finish (mp_cache_http_client_health (at 1 e) sends reply (Some sock))
              | CtlRequest verb path body \<Rightarrow>
                  finish (mp_cachectl_send_http_request (at 1 e) sends reply sock verb path tok body)))"


section \<open>What a command sends\<close>

lemma send_all_sent: "mp_cache_http_send_all sends buffer = (True, out, rest) \<Longrightarrow> out = buffer"
  by (induction sends buffer arbitrary: out rest rule: mp_cache_http_send_all.induct) (auto split: if_splits prod.splits)

lemma client_request_sent:
  assumes "mp_cache_http_client_request e sends reply (Some sock) (Some verb) (Some path) tok content_type body = (Inr u, sent, printed)"
  shows "sent = client_request_text verb path tok content_type body"
    and "length sent < MP_CACHE_HTTP_REQUEST_CAPACITY"
  using assms by (auto simp: mp_cache_http_client_request_def Let_def dest: send_all_sent
      split: if_splits prod.splits bool.splits recv_result.splits option.splits)

text \<open>The request of \<^verbatim>\<open>set\<close> with a lifetime.\<close>

lemma strtoul_u32: "ucast (fst (strtoul (print_nat (unat (ttl :: u32))))) = ttl"
proof -
  have lt: "unat ttl < 2 ^ 32"
    using unsigned_less [where 'a = nat, of ttl] by simp
  have "strtoul (print_nat (unat ttl)) = (of_nat (unat ttl), False, [])"
    using strtoul_print_nat [of "unat ttl" "[]"] lt by simp
  with lt show ?thesis
    by (simp add: unsigned_ucast_eq take_bit_word_eq_self take_bit_nat_eq_self word_eq_iff_unsigned)
qed

lemma cachectl_set_command:
  assumes "length key < 256" "length (set_body (bytes_of val) ttl) < MP_CACHE_CONTROL_CLI_REQUEST_BODY_CAPACITY"
  shows "cachectl_command e ''set'' [key, val, ''--ttl'', print_nat (unat ttl)] =
    (if ok 0 e then CtlRequest ''PUT'' (''/v1/cache/'' @ key) (Some (set_body (bytes_of val) ttl))
     else CtlFailed ''error: failed to encode value'')"
proof -
  have path: "cache_path key = ''/v1/cache/'' @ key"
    using assms(1) by (simp add: cache_path_def snprintf_s_def http_capacities)
  have opts: "set_options [''--ttl'', print_nat (unat ttl)] None = Some (Some ttl)"
    by (simp add: strtoul_u32)
  have body: "snprintf_s MP_CACHE_CONTROL_CLI_REQUEST_BODY_CAPACITY (set_body (bytes_of val) ttl) = set_body (bytes_of val) ttl"
    using assms(2) by (simp add: snprintf_s_def)
  have enc: "mp_cache_base64_encode (bytes_of val) ((length val + 2) div 3 * 4 + 1) = Inr (base64_encode_loop (bytes_of val))"
    by (simp add: mp_cache_base64_encode_def)
  show ?thesis
    unfolding cachectl_command_def cachectl_set_def using opts enc body
    by (simp add: path set_body_def)
qed

lemma cachectl_set_request:
  assumes "mp_cachectl_main e sends reply [''--token'', tok, ''set'', key, val, ''--ttl'', print_nat (unat ttl)] = (0, sent, printed)"
    and "length key < 256" "length (set_body (bytes_of val) ttl) < MP_CACHE_CONTROL_CLI_REQUEST_BODY_CAPACITY"
  shows "sent = client_request_text ''PUT'' (''/v1/cache/'' @ key) (Some tok) (Some MP_CACHE_HTTP_CONTENT_TYPE_JSON)
      (Some (set_body (bytes_of val) ttl))"
    and "length sent < MP_CACHE_HTTP_REQUEST_CAPACITY"
proof -
  obtain sock u printed' where r: "mp_cache_http_client_request (at 1 e) sends reply (Some sock) (Some ''PUT'') (Some (''/v1/cache/'' @ key)) (Some tok)
      (Some MP_CACHE_HTTP_CONTENT_TYPE_JSON) (Some (set_body (bytes_of val) ttl)) = (Inr u, sent, printed')"
    using assms(1) cachectl_set_command [OF assms(2,3), of "at 0 e"]
    by (auto simp: mp_cachectl_main_def Let_def mp_cachectl_send_http_request_def split: if_splits prod.splits sum.splits option.splits)
  show "sent = client_request_text ''PUT'' (''/v1/cache/'' @ key) (Some tok) (Some MP_CACHE_HTTP_CONTENT_TYPE_JSON)
      (Some (set_body (bytes_of val) ttl))"
    and "length sent < MP_CACHE_HTTP_REQUEST_CAPACITY"
    by (rule client_request_sent [OF r])+
qed

lemma cachectl_set_succeeds:
  assumes "all_ok e" "environ e ''MP_SOCKET_PATH'' = None" "length key < 256" "length tok < 249"
    and "length (set_body (bytes_of val) ttl) < MP_CACHE_CONTROL_CLI_REQUEST_BODY_CAPACITY"
  shows "\<exists>printed. mp_cachectl_main e [] (Received chunk) [''--token'', tok, ''set'', key, val, ''--ttl'', print_nat (unat ttl)] =
    (0, client_request_text ''PUT'' (''/v1/cache/'' @ key) (Some tok) (Some MP_CACHE_HTTP_CONTENT_TYPE_JSON)
      (Some (set_body (bytes_of val) ttl)), printed)"
proof -
  let ?request = "client_request_text ''PUT'' (''/v1/cache/'' @ key) (Some tok) (Some MP_CACHE_HTTP_CONTENT_TYPE_JSON)
      (Some (set_body (bytes_of val) ttl))"
  have "length (print_nat (length (set_body (bytes_of val) ttl))) \<le> 4"
    using assms(5) by (intro length_print_nat) (simp_all add: MP_CACHE_CONTROL_CLI_REQUEST_BODY_CAPACITY_def)
  then have len: "length ?request < MP_CACHE_HTTP_REQUEST_CAPACITY"
    using assms(3-5) by (simp add: client_request_text_def http_capacities MP_CACHE_HTTP_CONTENT_TYPE_JSON_def
        MP_CACHE_CONTROL_CLI_REQUEST_BODY_CAPACITY_def)
  have oks: "ok 0 (at 1 e)" "ok 1 (at 1 e)" "ok 0 (at 0 e)"
    using all_ok_at [OF assms(1)] by (simp_all add: env_simps)
  have "\<exists>printed. mp_cache_http_client_request (at 1 e) [] (Received chunk) (Some ''.tmp/run/mp-cache.sock'') (Some ''PUT'') (Some (''/v1/cache/'' @ key))
      (Some tok) (Some MP_CACHE_HTTP_CONTENT_TYPE_JSON) (Some (set_body (bytes_of val) ttl)) = (Inr (), ?request, printed)"
    using len oks(1,2) unfolding mp_cache_http_client_request_def
    by (auto simp: Let_def SUN_PATH_CAPACITY_def split: option.splits)
  then show ?thesis
    using cachectl_set_command [OF assms(3,5), of "at 0 e"] oks(3) assms(2)
    by (auto simp: mp_cachectl_main_def Let_def mp_cachectl_send_http_request_def)
qed

end
